(* ===== verification/Yoru_Prelude.thy ===== *)
theory Yoru_Prelude
  imports Complex_Main "HOL-Library.Word" "HOL-Library.Sublist"
begin

text \<open>
  Shared vocabulary of the development: the machine-level types of the C++ code, the character
  classes of the C locale that the code consults through \<^verbatim>\<open><cctype>\<close>, decimal printing
  (\<^verbatim>\<open>std::to_string\<close>), and the generic list lemmas the components use. The collections
  \<open>yoru_ops\<close>, \<open>yoru_inv\<close> and \<open>yoru_frame\<close> gather, respectively, the
  definitions of operations, the definitions of invariants, and the "this field does not change"
  facts.
\<close>

named_theorems yoru_ops \<open>operations unfolded by the component proofs\<close>
named_theorems yoru_inv \<open>invariants unfolded by the component proofs\<close>
named_theorems yoru_frame \<open>fields that an operation leaves alone\<close>

section \<open>Types\<close>

text \<open>
  A session id is \<^verbatim>\<open>enum class SessionId : std::uint64_t\<close>. Samples are binary32 values,
  each of which is an exact rational. Times are integers: milliseconds (or clock ticks) since the
  clock's epoch.
\<close>

type_synonym u32 = "32 word"
type_synonym session_id = "64 word"
type_synonym sample = rat
type_synonym time_point = int
type_synonym milliseconds = int

text \<open>
  A component publishes through the event bus while it runs. The rest of the system, as far as the
  subscribers can reach it, is a state of type \<open>'w\<close>; publishing transforms it.
\<close>

type_synonym ('e, 'w) publisher = "'e \<Rightarrow> 'w \<Rightarrow> 'w"

text \<open>The publisher that records the published events in order.\<close>

definition record_event :: "'e \<Rightarrow> 'e list \<Rightarrow> 'e list" where
  "record_event e tr = tr @ [e]"

lemma record_event_simp [simp]: "record_event e tr = tr @ [e]"
  by (simp add: record_event_def)

section \<open>The C locale\<close>

definition char_code :: "char \<Rightarrow> nat" where
  "char_code c = of_char c"

definition isspace :: "char \<Rightarrow> bool" where
  "isspace c \<longleftrightarrow> char_code c = 32 \<or> (9 \<le> char_code c \<and> char_code c \<le> 13)"

definition islower :: "char \<Rightarrow> bool" where
  "islower c \<longleftrightarrow> 97 \<le> char_code c \<and> char_code c \<le> 122"

definition isupper :: "char \<Rightarrow> bool" where
  "isupper c \<longleftrightarrow> 65 \<le> char_code c \<and> char_code c \<le> 90"

definition isdigit :: "char \<Rightarrow> bool" where
  "isdigit c \<longleftrightarrow> 48 \<le> char_code c \<and> char_code c \<le> 57"

definition ispunct :: "char \<Rightarrow> bool" where
  "ispunct c \<longleftrightarrow> 33 \<le> char_code c \<and> char_code c \<le> 126 \<and>
     \<not> islower c \<and> \<not> isupper c \<and> \<not> isdigit c"

definition tolower :: "char \<Rightarrow> char" where
  "tolower c = (if isupper c then char_of (char_code c + 32) else c)"

lemmas char_class_defs = isspace_def islower_def isupper_def isdigit_def ispunct_def char_code_def

lemma ispunct_not_space: "ispunct c \<Longrightarrow> \<not> isspace c"
  by (auto simp: ispunct_def isspace_def)

lemma char_code_less [simp]: "char_code c < 256"
  by (simp add: char_code_def)

lemma tolower_not_upper: "\<not> isupper (tolower c)"
  by (auto simp: tolower_def isupper_def char_code_def)

lemma tolower_idem [simp]: "tolower (tolower c) = tolower c"
  using tolower_not_upper [of c] by (simp add: tolower_def [of "tolower c"])

section \<open>Decimal printing\<close>

fun decimal_digits :: "nat \<Rightarrow> string" where
  "decimal_digits n =
     (if n < 10 then [char_of (48 + n)]
      else decimal_digits (n div 10) @ [char_of (48 + n mod 10)])"

declare decimal_digits.simps [simp del]

definition to_string_nat :: "nat \<Rightarrow> string" where
  "to_string_nat = decimal_digits"

definition to_string_int :: "int \<Rightarrow> string" where
  "to_string_int i = (if i < 0 then CHR ''-'' # decimal_digits (nat (- i)) else decimal_digits (nat i))"

lemma decimal_digits_not_Nil [simp]: "decimal_digits n \<noteq> []"
  by (subst decimal_digits.simps) simp

lemma digit_char_inj:
  assumes "char_of (48 + a) = (char_of (48 + b) :: char)" and "a < 10" and "b < (10 :: nat)"
  shows "a = b"
proof -
  have "of_char (char_of (48 + a) :: char) = (of_char (char_of (48 + b) :: char) :: nat)"
    using assms(1) by simp
  with assms(2,3) show ?thesis by simp
qed

lemma decimal_digits_length_1: "10 \<le> n \<Longrightarrow> 1 < length (decimal_digits n)"
  by (subst decimal_digits.simps) (simp add: Suc_lessI)

text \<open>Two numbers with the same decimal digits are equal: an id printed in a message names one session.\<close>

lemma decimal_digits_inject: "decimal_digits m = decimal_digits n \<Longrightarrow> m = n"
proof (induction m arbitrary: n rule: decimal_digits.induct)
  case (1 m)
  have small: "a = b" if "decimal_digits a = decimal_digits b" "a < 10" "b < 10" for a b
    using that by (auto simp: decimal_digits.simps dest: digit_char_inj)
  have len: "length (decimal_digits a) = 1" if "a < 10" for a
    using that by (subst decimal_digits.simps) simp
  show ?case
  proof (cases "m < 10 \<or> n < 10")
    case True
    then show ?thesis
      using "1.prems" small len decimal_digits_length_1 [of m] decimal_digits_length_1 [of n]
      by (metis less_irrefl not_less)
  next
    case False
    then have m: "decimal_digits m = decimal_digits (m div 10) @ [char_of (48 + m mod 10)]"
      and n: "decimal_digits n = decimal_digits (n div 10) @ [char_of (48 + n mod 10)]"
      by (simp_all add: decimal_digits.simps [of m] decimal_digits.simps [of n])
    from "1.prems" m n have "decimal_digits (m div 10) = decimal_digits (n div 10)"
      and last: "char_of (48 + m mod 10) = (char_of (48 + n mod 10) :: char)" by auto
    with "1.IH" False have "m div 10 = n div 10" by simp
    moreover from last have "m mod 10 = n mod 10" by (rule digit_char_inj) auto
    ultimately show ?thesis by (metis div_mult_mod_eq)
  qed
qed

section \<open>UTF-8\<close>

text \<open>
  Well-formed UTF-8 (RFC 3629) over byte values. The text libraries the program calls are specified
  for such strings only.
\<close>

definition continuation :: "nat \<Rightarrow> bool" where
  "continuation b \<longleftrightarrow> 128 \<le> b \<and> b \<le> 191"

fun utf8_bytes :: "nat list \<Rightarrow> bool" where
  "utf8_bytes [] = True"
| "utf8_bytes (a # xs) =
     (if a < 128 then utf8_bytes xs
      else case xs of
        [] \<Rightarrow> False
      | b # ys \<Rightarrow>
          if 194 \<le> a \<and> a \<le> 223 then continuation b \<and> utf8_bytes ys
          else case ys of
            [] \<Rightarrow> False
          | c # zs \<Rightarrow>
              if 224 \<le> a \<and> a \<le> 239
              then continuation b \<and> continuation c \<and> (a = 224 \<longrightarrow> 160 \<le> b) \<and> (a = 237 \<longrightarrow> b \<le> 159) \<and> utf8_bytes zs
              else case zs of
                [] \<Rightarrow> False
              | d # us \<Rightarrow> 240 \<le> a \<and> a \<le> 244 \<and> continuation b \<and> continuation c \<and> continuation d \<and>
                           (a = 240 \<longrightarrow> 144 \<le> b) \<and> (a = 244 \<longrightarrow> b \<le> 143) \<and> utf8_bytes us)"

definition valid_utf8 :: "string \<Rightarrow> bool" where
  "valid_utf8 s \<longleftrightarrow> utf8_bytes (map char_code s)"

lemma valid_utf8_ascii: "\<forall>c \<in> set s. char_code c < 128 \<Longrightarrow> valid_utf8 s"
  unfolding valid_utf8_def by (induction s) auto

section \<open>Lists\<close>

lemma prefix_append_mono [simp]: "prefix xs (xs @ ys)"
  by simp

lemma take_take_append:
  "i \<le> j \<Longrightarrow> j \<le> length xs \<Longrightarrow> take i xs @ take (j - i) (drop i xs) = take j xs"
  by (metis le_add_diff_inverse take_add)

text \<open>\<^verbatim>\<open>std::find_if\<close> returns the first match.\<close>

lemma find_skip: "\<forall>b \<in> set before. \<not> P b \<Longrightarrow> find P (before @ xs) = find P xs"
  by (induction before) auto

lemma find_Some_split:
  "find P xs = Some x \<longleftrightarrow>
     (\<exists>before after. xs = before @ x # after \<and> P x \<and> (\<forall>b \<in> set before. \<not> P b))"
proof
  assume found: "find P xs = Some x"
  let ?before = "takeWhile (\<lambda>y. \<not> P y) xs"
  from found obtain after where drop: "dropWhile (\<lambda>y. \<not> P y) xs = x # after"
    by (auto simp: find_dropWhile comp_def split: list.splits)
  then have "xs = ?before @ x # after" by (metis takeWhile_dropWhile_id)
  moreover from drop have "P x" by (metis dropWhile_eq_Cons_conv)
  moreover have "\<forall>b \<in> set ?before. \<not> P b" by (auto dest: set_takeWhileD)
  ultimately show "\<exists>before after. xs = before @ x # after \<and> P x \<and> (\<forall>b \<in> set before. \<not> P b)"
    by blast
next
  assume "\<exists>before after. xs = before @ x # after \<and> P x \<and> (\<forall>b \<in> set before. \<not> P b)"
  then show "find P xs = Some x" by (auto simp: find_skip)
qed

lemma filter_id_conv_list_all: "list_all P xs \<Longrightarrow> filter P xs = xs"
  by (induction xs) auto

section \<open>Chunks between separators\<close>

text \<open>
  The maximal non-empty runs of non-separator characters, collected left to right with the current
  run as accumulator. This is what \<^verbatim>\<open>stream >> word\<close> reads with white space as separators.
\<close>

fun chunks_from :: "('a \<Rightarrow> bool) \<Rightarrow> 'a list \<Rightarrow> 'a list \<Rightarrow> 'a list list" where
  "chunks_from P current [] = (if current = [] then [] else [current])"
| "chunks_from P current (c # s) =
     (if P c then (if current = [] then chunks_from P [] s else current # chunks_from P [] s)
      else chunks_from P (current @ [c]) s)"

definition chunks :: "('a \<Rightarrow> bool) \<Rightarrow> 'a list \<Rightarrow> 'a list list" where
  "chunks P s = chunks_from P [] s"

definition chunk_word :: "('a \<Rightarrow> bool) \<Rightarrow> 'a list \<Rightarrow> bool" where
  "chunk_word P w \<longleftrightarrow> w \<noteq> [] \<and> (\<forall>c \<in> set w. \<not> P c)"

lemma chunks_Nil [simp]: "chunks P [] = []"
  by (simp add: chunks_def)

lemma chunks_from_sound:
  "list_all (\<lambda>c. \<not> P c) current \<Longrightarrow> list_all (chunk_word P) (chunks_from P current s)"
proof (induction s arbitrary: current)
  case Nil
  then show ?case by (simp add: chunk_word_def list_all_iff)
next
  case (Cons c s)
  have word: "current \<noteq> [] \<Longrightarrow> chunk_word P current"
    using Cons.prems by (simp add: chunk_word_def list_all_iff)
  show ?case
  proof (cases "P c")
    case True
    have "list_all (chunk_word P) (chunks_from P [] s)" by (rule Cons.IH) simp
    with True word show ?thesis by (cases "current = []") simp_all
  next
    case False
    have "list_all (chunk_word P) (chunks_from P (current @ [c]) s)"
      by (rule Cons.IH) (use Cons.prems False in simp)
    with False show ?thesis by simp
  qed
qed

lemma chunks_sound: "w \<in> set (chunks P s) \<Longrightarrow> chunk_word P w"
  using chunks_from_sound [of P "[]" s] by (simp add: chunks_def list_all_iff)

lemma chunks_from_append_sep:
  "P c \<Longrightarrow> chunks_from P current (a @ c # b) = chunks_from P current a @ chunks_from P [] b"
  by (induction P current a rule: chunks_from.induct) auto

text \<open>A separator splits: the chunks of the whole are the chunks of the parts.\<close>

lemma chunks_append_sep: "P c \<Longrightarrow> chunks P (a @ c # b) = chunks P a @ chunks P b"
  by (simp add: chunks_def chunks_from_append_sep)

lemma chunks_from_word: "\<forall>c \<in> set w. \<not> P c \<Longrightarrow> chunks_from P current w = (if current @ w = [] then [] else [current @ w])"
  by (induction w arbitrary: current) auto

lemma chunks_word: "chunk_word P w \<Longrightarrow> chunks P w = [w]"
  by (simp add: chunks_def chunk_word_def chunks_from_word)

lemma nat_four: "(4 :: nat) = Suc (Suc (Suc (Suc 0)))"
  by simp

end
