(* ===== verification/Event_Bus.thy ===== *)
theory Event_Bus
  imports Yoru_Prelude
begin

text \<open>
  \<^verbatim>\<open>core::EventBus\<close> (\<^verbatim>\<open>src/core/event_bus.hpp\<close>): subscription lists per event type and
  synchronous dispatch on the publisher's thread. Handlers are named by values of a type \<open>'h\<close>
  (the C++ closures), and \<open>run\<close> says what a handler does to the state \<open>'w\<close> it can reach and
  whether it throws (\<open>Some x\<close>). The bus itself is part of that state, so a handler may subscribe
  further handlers while it runs.
\<close>

record ('k, 'h) event_bus =
  bus_handlers :: "'k \<Rightarrow> 'h list option"

definition empty_bus :: "('k, 'h) event_bus" where
  "empty_bus = \<lparr>bus_handlers = (\<lambda>_. None)\<rparr>"

text \<open>\<^verbatim>\<open>bus_handlers[type].push_back(handler)\<close>: \<^verbatim>\<open>operator[]\<close> creates the empty list first.\<close>

definition subscribe :: "'k \<Rightarrow> 'h \<Rightarrow> ('k, 'h) event_bus \<Rightarrow> ('k, 'h) event_bus" where
  "subscribe k h b =
     b\<lparr>bus_handlers := (bus_handlers b)(k := Some (case bus_handlers b k of None \<Rightarrow> [h] | Some hs \<Rightarrow> hs @ [h]))\<rparr>"

text \<open>The dispatch loop: the first handler that throws ends it.\<close>

fun invoke_all ::
  "('h \<Rightarrow> 'e \<Rightarrow> 'w \<Rightarrow> 'w \<times> 'x option) \<Rightarrow> 'h list \<Rightarrow> 'e \<Rightarrow> 'w \<Rightarrow> 'w \<times> 'x option" where
  "invoke_all run [] e w = (w, None)"
| "invoke_all run (h # hs) e w =
     (case run h e w of
        (w', None) \<Rightarrow> invoke_all run hs e w'
      | (w', Some x) \<Rightarrow> (w', Some x))"

definition publish ::
  "('w \<Rightarrow> ('k, 'h) event_bus) \<Rightarrow> ('e \<Rightarrow> 'k) \<Rightarrow> ('h \<Rightarrow> 'e \<Rightarrow> 'w \<Rightarrow> 'w \<times> 'x option) \<Rightarrow>
   'e \<Rightarrow> 'w \<Rightarrow> 'w \<times> 'x option" where
  "publish bus_of kind run e w =
     (case bus_handlers (bus_of w) (kind e) of
        None \<Rightarrow> (w, None)
      | Some hs \<Rightarrow> invoke_all run hs e w)"

definition subscribers :: "'k \<Rightarrow> ('k, 'h) event_bus \<Rightarrow> 'h list" where
  "subscribers k b = (case bus_handlers b k of None \<Rightarrow> [] | Some hs \<Rightarrow> hs)"

section \<open>Subscription\<close>

lemma subscribers_empty [simp]: "subscribers k empty_bus = []"
  by (simp add: subscribers_def empty_bus_def)

lemma subscribers_subscribe [simp]:
  "subscribers k (subscribe k' h b) = (if k = k' then subscribers k b @ [h] else subscribers k b)"
  by (simp add: subscribers_def subscribe_def split: option.splits)

lemma subscribers_fold:
  "subscribers k (fold (\<lambda>(k', h). subscribe k' h) subs b) =
     subscribers k b @ map snd (filter (\<lambda>(k', h). k' = k) subs)"
  by (induction subs arbitrary: b) auto

section \<open>Dispatch\<close>

lemma publish_subscribers:
  "publish bus_of kind run e w = invoke_all run (subscribers (kind e) (bus_of w)) e w"
  by (simp add: publish_def subscribers_def split: option.splits)

lemma invoke_all_append:
  "invoke_all run (hs @ hs') e w =
     (case invoke_all run hs e w of
        (w', None) \<Rightarrow> invoke_all run hs' e w'
      | (w', Some x) \<Rightarrow> (w', Some x))"
  by (induction hs arbitrary: w) (auto split: prod.splits option.splits)

lemma invoke_all_no_throw:
  assumes "\<And>h w. h \<in> set hs \<Longrightarrow> snd (run h e w) = None"
  shows "invoke_all run hs e w = (fold (\<lambda>h w. fst (run h e w)) hs w, None)"
  using assms
proof (induction hs arbitrary: w)
  case (Cons h hs)
  have "run h e w = (fst (run h e w), None)"
    using Cons.prems [of h w] by (cases "run h e w") simp
  with Cons show ?case by (metis (no_types, lifting) fold_simps(2) invoke_all.simps(2) list.set_intros(2) option.simps(4) prod.simps(2))
qed simp

text \<open>
  Publishing delivers the event to every handler that was registered for its type when
  \<^verbatim>\<open>publish\<close> was called, each once, in subscription order, when no handler throws; handlers that
  are registered during the dispatch are not part of it. With no subscriber nothing happens at all.
\<close>

theorem publish_delivers_in_order:
  assumes "\<And>h w. snd (run h e w) = None"
  shows "publish bus_of kind run e w =
           (fold (\<lambda>h w. fst (run h e w)) (subscribers (kind e) (bus_of w)) w, None)"
  by (simp add: publish_subscribers invoke_all_no_throw assms)

text \<open>
  A handler that throws ends the dispatch. The handlers before it have run, in order, the
  handlers after it do not run, and the exception reaches the caller of \<^verbatim>\<open>publish\<close>.
\<close>

theorem publish_stops_at_throw:
  assumes "subscribers (kind e) (bus_of w) = before @ h # after"
    and "invoke_all run before e w = (w', None)"
    and "run h e w' = (w'', Some x)"
  shows "publish bus_of kind run e w = (w'', Some x)"
  by (simp add: publish_subscribers assms invoke_all_append)

section \<open>What every handler keeps, publishing keeps\<close>

text \<open>The contract a set of handlers has with an invariant of the state they share.\<close>

locale handler_contract =
  fixes bus_of :: "'w \<Rightarrow> ('k, 'h) event_bus"
    and kind :: "'e \<Rightarrow> 'k"
    and run :: "'h \<Rightarrow> 'e \<Rightarrow> 'w \<Rightarrow> 'w \<times> 'x option"
    and good :: "'e \<Rightarrow> bool"
    and inv :: "'w \<Rightarrow> 'w \<Rightarrow> bool"
  assumes inv_refl: "inv w w"
    and inv_trans: "inv w w' \<Longrightarrow> inv w' w'' \<Longrightarrow> inv w w''"
    and run_inv: "good e \<Longrightarrow> inv w (fst (run h e w))"
begin

lemma invoke_all_inv: "good e \<Longrightarrow> inv w (fst (invoke_all run hs e w))"
proof (induction hs arbitrary: w)
  case Nil
  then show ?case by (simp add: inv_refl)
next
  case (Cons h hs)
  have "inv w (fst (run h e w))" using Cons.prems by (rule run_inv)
  with Cons show ?case
    by (cases "run h e w") (auto split: option.splits intro: inv_trans)
qed

lemma publish_inv: "good e \<Longrightarrow> inv w (fst (publish bus_of kind run e w))"
  by (simp add: publish_subscribers invoke_all_inv)

end

section \<open>Witnesses\<close>

theorem publish_delivers_in_order_witness:
  "publish (\<lambda>w :: (bool, nat) event_bus \<times> nat list. fst w) (\<lambda>e :: bool. e)
     (\<lambda>h e w. ((fst w, snd w @ [h]), None :: unit option)) True
     (subscribe True 7 (subscribe True 3 empty_bus), []) =
   ((subscribe True 7 (subscribe True 3 empty_bus), [3, 7]), None)"
  using publish_delivers_in_order
    [of "\<lambda>h e w. ((fst w, snd w @ [h]), None :: unit option)" True
        "\<lambda>w :: (bool, nat) event_bus \<times> nat list. fst w" "\<lambda>e :: bool. e"
        "(subscribe True 7 (subscribe True 3 empty_bus), [])"]
  by simp

theorem publish_stops_at_throw_witness:
  "publish (\<lambda>w :: (bool, nat) event_bus \<times> nat list. fst w) (\<lambda>e :: bool. e)
     (\<lambda>h e w. ((fst w, snd w @ [h]), if h = 7 then Some () else None)) True
     (subscribe True 9 (subscribe True 7 (subscribe True 3 empty_bus)), []) =
   ((subscribe True 9 (subscribe True 7 (subscribe True 3 empty_bus)), [3, 7]), Some ())"
  by (rule publish_stops_at_throw [where before = "[3]" and after = "[9]" and h = 7 and w' = "(subscribe True 9 (subscribe True 7 (subscribe True 3 empty_bus)), [3])"])
     simp_all

end
