(* ===== verification/Logger.thy ===== *)
theory Logger
  imports Yoru_Prelude
begin

text \<open>
  \<^verbatim>\<open>core::Logger\<close> (\<^verbatim>\<open>src/core/logger.cpp\<close>). The process-wide part is \<open>log_state\<close>: the atomic
  minimum level, what has been written to \<^verbatim>\<open>std::clog\<close>, and how much of it has been flushed. The
  local time is an argument: it comes from the system clock and the time zone.
\<close>

datatype log_level = Debug | Info | Warn | Error

fun severity :: "log_level \<Rightarrow> nat" where
  "severity Debug = 0" | "severity Info = 1" | "severity Warn = 2" | "severity Error = 3"

instantiation log_level :: linorder
begin

definition less_eq_log_level :: "log_level \<Rightarrow> log_level \<Rightarrow> bool" where
  "a \<le> b \<longleftrightarrow> severity a \<le> severity b"

definition less_log_level :: "log_level \<Rightarrow> log_level \<Rightarrow> bool" where
  "a < b \<longleftrightarrow> severity a < severity b"

instance
proof
  fix a b :: log_level
  show "a \<le> b \<Longrightarrow> b \<le> a \<Longrightarrow> a = b"
    by (cases a; cases b) (auto simp: less_eq_log_level_def)
qed (auto simp: less_eq_log_level_def less_log_level_def)

end

fun level_label :: "log_level \<Rightarrow> string" where
  "level_label Debug = ''DEBUG''"
| "level_label Info = ''INFO''"
| "level_label Warn = ''WARN''"
| "level_label Error = ''ERROR''"

record log_state =
  g_min_level :: log_level
  clog :: string
  flushed :: nat

definition initial_log :: log_state where
  "initial_log = \<lparr>g_min_level = Info, clog = [], flushed = 0\<rparr>"

definition set_level :: "log_level \<Rightarrow> log_state \<Rightarrow> log_state" where
  "set_level l s = s\<lparr>g_min_level := l\<rparr>"

text \<open>\<^verbatim>\<open>Logger::level\<close>\<close>

definition log_level_of :: "log_state \<Rightarrow> log_level" where
  "log_level_of s = g_min_level s"

text \<open>What \<^verbatim>\<open>localtime_r\<close> gives, as far as the format looks at it (the year counts from 1900).\<close>

record tm =
  tm_year :: int
  tm_mon :: nat
  tm_mday :: nat
  tm_hour :: nat
  tm_min :: nat
  tm_sec :: nat

definition two_digits :: "nat \<Rightarrow> string" where
  "two_digits n = (if n < 10 then ''0'' else '''') @ decimal_digits n"

definition kTimestampBufferSize :: nat where "kTimestampBufferSize = 20"

text \<open>\<^verbatim>\<open>strftime\<close> with \<^verbatim>\<open>kTimestampFormat\<close>: nothing when the result and its terminator do not fit.\<close>

definition strftime :: "nat \<Rightarrow> tm \<Rightarrow> string option" where
  "strftime limit tm =
     (let s = to_string_int (1900 + tm_year tm) @ ''-'' @ two_digits (Suc (tm_mon tm)) @ ''-'' @ two_digits (tm_mday tm) @ '' '' @
              two_digits (tm_hour tm) @ '':'' @ two_digits (tm_min tm) @ '':'' @ two_digits (tm_sec tm)
      in if length s < limit then Some s else None)"

definition current_timestamp :: "tm \<Rightarrow> string" where
  "current_timestamp tm = (case strftime kTimestampBufferSize tm of None \<Rightarrow> '''' | Some buffer \<Rightarrow> buffer)"

definition log_line :: "string \<Rightarrow> log_level \<Rightarrow> string \<Rightarrow> string \<Rightarrow> string" where
  "log_line timestamp level component message =
     ''['' @ timestamp @ ''] ['' @ level_label level @ ''] ['' @ component @ ''] '' @ message @ [CHR 0x0A]"

definition log :: "tm \<Rightarrow> string \<Rightarrow> log_level \<Rightarrow> string \<Rightarrow> log_state \<Rightarrow> log_state" where
  "log now component level message s =
     (if level < g_min_level s then s
      else let timestamp = current_timestamp now;
               s' = s\<lparr>clog := clog s @ log_line timestamp level component message\<rparr>
           in if Warn \<le> level then s'\<lparr>flushed := length (clog s')\<rparr> else s')"

text \<open>\<^verbatim>\<open>Logger::debug\<close>, \<^verbatim>\<open>info\<close>, \<^verbatim>\<open>warn\<close> and \<^verbatim>\<open>error\<close>\<close>

definition log_debug :: "tm \<Rightarrow> string \<Rightarrow> string \<Rightarrow> log_state \<Rightarrow> log_state" where
  "log_debug now component message = log now component Debug message"

definition log_info :: "tm \<Rightarrow> string \<Rightarrow> string \<Rightarrow> log_state \<Rightarrow> log_state" where
  "log_info now component message = log now component Info message"

definition log_warn :: "tm \<Rightarrow> string \<Rightarrow> string \<Rightarrow> log_state \<Rightarrow> log_state" where
  "log_warn now component message = log now component Warn message"

definition log_error :: "tm \<Rightarrow> string \<Rightarrow> string \<Rightarrow> log_state \<Rightarrow> log_state" where
  "log_error now component message = log now component Error message"

section \<open>Properties\<close>

lemma log_min_level [simp, yoru_frame]: "g_min_level (log now c l m s) = g_min_level s"
  by (simp add: log_def Let_def)

lemma log_prefix: "prefix (clog s) (clog (log now c l m s))"
  by (simp add: log_def Let_def)

lemma length_decimal_digits: "10 ^ k \<le> n \<Longrightarrow> n < 10 ^ Suc k \<Longrightarrow> length (decimal_digits n) = Suc k"
proof (induction k arbitrary: n)
  case 0
  then show ?case by (subst decimal_digits.simps) simp
next
  case (Suc k)
  have "(10 :: nat) \<le> 10 ^ Suc k" by simp
  then have "\<not> n < 10" using Suc.prems(1) by linarith
  moreover have "10 ^ k \<le> n div 10" "n div 10 < 10 ^ Suc k"
    using Suc.prems div_le_mono [of "10 * 10 ^ k" n 10] by (simp_all add: less_mult_imp_div_less)
  ultimately show ?case using Suc.IH [of "n div 10"] by (subst decimal_digits.simps) simp
qed

lemma length_two_digits: "n < 100 \<Longrightarrow> length (two_digits n) = 2"
  using length_decimal_digits [of 0 n] length_decimal_digits [of 1 n]
  by (cases "n = 0") (auto simp: two_digits_def decimal_digits.simps)

text \<open>
  The buffer is large enough: until the year 9999 every timestamp has the nineteen characters of
  \<^verbatim>\<open>YYYY-MM-DD HH:MM:SS\<close>. From the year 10000 on it is empty, and the line is still written.
\<close>

lemma timestamp_length:
  assumes "tm_mon tm < 12" "tm_mday tm \<le> 31" "tm_hour tm < 24" "tm_min tm < 60" "tm_sec tm \<le> 60"
  shows "1000 \<le> 1900 + tm_year tm \<Longrightarrow> 1900 + tm_year tm < 10000 \<Longrightarrow> length (current_timestamp tm) = 19"
    and "10000 \<le> 1900 + tm_year tm \<Longrightarrow> 1900 + tm_year tm < 100000 \<Longrightarrow> current_timestamp tm = ''''"
proof -
  have two: "length (two_digits (Suc (tm_mon tm))) = 2" "length (two_digits (tm_mday tm)) = 2" "length (two_digits (tm_hour tm)) = 2"
    "length (two_digits (tm_min tm)) = 2" "length (two_digits (tm_sec tm)) = 2"
    using assms by (simp_all add: length_two_digits)
  have year: "length (to_string_int (1900 + tm_year tm)) = Suc k" if "10 ^ k \<le> nat (1900 + tm_year tm)" "nat (1900 + tm_year tm) < 10 ^ Suc k" "0 \<le> 1900 + tm_year tm" for k
    using that length_decimal_digits [of k "nat (1900 + tm_year tm)"] by (simp add: to_string_int_def)
  show "length (current_timestamp tm) = 19" if "1000 \<le> 1900 + tm_year tm" "1900 + tm_year tm < 10000"
    using two year [of 3] that by (simp add: current_timestamp_def strftime_def kTimestampBufferSize_def Let_def)
  show "current_timestamp tm = ''''" if "10000 \<le> 1900 + tm_year tm" "1900 + tm_year tm < 100000"
    using two year [of 4] that by (simp add: current_timestamp_def strftime_def kTimestampBufferSize_def Let_def)
qed

text \<open>
  The logger discards exactly the messages below the active level, appends one line carrying the
  level, the component and the message otherwise, and a Warn or Error line that was written is
  flushed, so everything written up to then survives an abnormal end of the process.
\<close>

theorem log_filters_and_flushes:
  "(level < g_min_level s \<longrightarrow> log now cmp level msg s = s) \<and>
   (g_min_level s \<le> level \<longrightarrow>
      clog (log now cmp level msg s) = clog s @ log_line (current_timestamp now) level cmp msg \<and>
      (Warn \<le> level \<longrightarrow> flushed (log now cmp level msg s) = length (clog (log now cmp level msg s))))"
  by (auto simp: log_def Let_def)

definition demo_time :: tm where
  "demo_time = \<lparr>tm_year = 126, tm_mon = 0, tm_mday = 31, tm_hour = 9, tm_min = 5, tm_sec = 0\<rparr>"

theorem log_filters_and_flushes_witness:
  "log demo_time ''main'' Debug ''x'' initial_log = initial_log \<and>
   flushed (log demo_time ''main'' Warn ''x'' initial_log) =
     length (clog (log demo_time ''main'' Warn ''x'' initial_log))"
  using log_filters_and_flushes [of Debug initial_log demo_time "''main''" "''x''"]
    log_filters_and_flushes [of Warn initial_log demo_time "''main''" "''x''"]
  by (simp add: initial_log_def less_log_level_def less_eq_log_level_def)

end
