(* ===== verification/Domain_Model.thy ===== *)
theory Domain_Model
  imports Yoru_Prelude
begin

text \<open>
  The value types the domains exchange: recordings, models, transcripts, transcription requests,
  the user's configuration, and the events published on the bus. Each record or datatype is one
  struct or enum of \<^verbatim>\<open>src/core\<close> or \<^verbatim>\<open>src/domains\<close>; an \<open>event\<close> is one of the
  event structs (the C++ code tells them apart by their \<^verbatim>\<open>std::type_index\<close>, here
  \<open>event_kind\<close>).
\<close>

section \<open>Audio\<close>

record recording =
  rec_samples :: "sample list"
  rec_sample_rate :: u32
  rec_channels :: u32

definition kSampleRate :: u32 where "kSampleRate = 16000"

definition kChannels :: u32 where "kChannels = 1"

text \<open>
  \<^verbatim>\<open>Recording::duration\<close>: \<open>frame_count * 1000\<close> is computed in \<^verbatim>\<open>int64_t\<close>; the
  model keeps the exact product, which is the machine's as long as it fits 63 bits
  (\<open>duration_fits\<close> below).
\<close>

definition duration :: "recording \<Rightarrow> milliseconds" where
  "duration r =
     (if rec_sample_rate r = 0 \<or> rec_channels r = 0 then 0
      else int ((length (rec_samples r) div unat (rec_channels r)) * 1000
                div unat (rec_sample_rate r)))"

section \<open>Speech\<close>

datatype model_size = Tiny | Base | Small | Medium | Large

record model =
  model_name :: string
  model_size_of :: model_size
  supported_language :: string
  model_path :: string
  model_backend :: string

record transcript =
  transcript_text :: string
  detected_language :: string
  requested_language :: string
  audio_duration :: milliseconds
  processing_time :: milliseconds

datatype speech_error = SpeechError string

record transcription_request =
  req_language :: string
  req_initial_prompt :: string

type_synonym transcription_result = "transcript + speech_error"

section \<open>Configuration\<close>

datatype model_load_policy = OnDemand | AlwaysLoaded

record configuration =
  default_language :: string
  selected_model :: string
  auto_clipboard :: bool
  model_load_policy_of :: model_load_policy
  transcription_prompt :: string

definition default_configuration :: configuration where
  "default_configuration =
     \<lparr>default_language = ''auto'', selected_model = ''base'', auto_clipboard = True,
      model_load_policy_of = OnDemand, transcription_prompt = ''''\<rparr>"

section \<open>Events\<close>

datatype event =
    RecordingStarted session_id
  | RecordingFinished session_id recording
  | TranscriptionQueued session_id nat
  | TranscriptionStarted session_id
  | TranscriptionCompleted session_id transcript
  | TranscriptionPartial session_id string string
  | ModelLoaded model
  | ConfigurationChanged configuration
  | ErrorOccurred "session_id option" string string
  | SessionCancelled session_id

datatype event_kind =
    KRecordingStarted | KRecordingFinished | KTranscriptionQueued | KTranscriptionStarted
  | KTranscriptionCompleted | KTranscriptionPartial | KModelLoaded | KConfigurationChanged
  | KErrorOccurred | KSessionCancelled

fun kind_of :: "event \<Rightarrow> event_kind" where
  "kind_of (RecordingStarted _) = KRecordingStarted"
| "kind_of (RecordingFinished _ _) = KRecordingFinished"
| "kind_of (TranscriptionQueued _ _) = KTranscriptionQueued"
| "kind_of (TranscriptionStarted _) = KTranscriptionStarted"
| "kind_of (TranscriptionCompleted _ _) = KTranscriptionCompleted"
| "kind_of (TranscriptionPartial _ _ _) = KTranscriptionPartial"
| "kind_of (ModelLoaded _) = KModelLoaded"
| "kind_of (ConfigurationChanged _) = KConfigurationChanged"
| "kind_of (ErrorOccurred _ _ _) = KErrorOccurred"
| "kind_of (SessionCancelled _) = KSessionCancelled"

section \<open>Lemmas\<close>

lemma duration_nonneg [simp]: "0 \<le> duration r"
  by (simp add: duration_def)

lemma duration_append_mono:
  "duration r \<le> duration (r\<lparr>rec_samples := rec_samples r @ xs\<rparr>)"
  by (simp add: duration_def div_le_mono mult_le_mono1)

text \<open>
  The duration of a recording never overflows the 63 value bits of \<^verbatim>\<open>int64_t\<close> for any
  buffer of fewer than \<open>2^53\<close> samples (64 petabytes of audio), whatever rate and channel count it
  carries; so the exact arithmetic of the model is the machine's.
\<close>

theorem duration_fits:
  assumes "length (rec_samples r) < 2 ^ 53"
  shows "int (length (rec_samples r) div unat (rec_channels r)) * 1000 < 2 ^ 63 \<and> duration r < 2 ^ 63"
proof -
  let ?n = "length (rec_samples r) div unat (rec_channels r)"
  have "?n \<le> length (rec_samples r)" by simp
  with assms have "?n < 2 ^ 53" by linarith
  then have le: "?n * 1000 < 2 ^ 63" by simp
  have "?n * 1000 div unat (rec_sample_rate r) \<le> ?n * 1000" by (rule div_le_dividend)
  with le have "?n * 1000 div unat (rec_sample_rate r) < 2 ^ 63" by linarith
  then have "duration r < 2 ^ 63"
    by (simp add: duration_def)
  moreover from le have "int (?n * 1000) < int (2 ^ 63)" by (simp only: of_nat_less_iff)
  ultimately show ?thesis by simp
qed

end
