(* ===== verification/Speech_Backend.thy ===== *)
theory Speech_Backend
  imports Domain_Model
begin

text \<open>
  The \<^verbatim>\<open>SpeechBackend\<close> interface (\<^verbatim>\<open>speech_backend.hpp\<close>) as a record of operations on a backend
  state \<open>'b\<close>, the contract the transcription queue relies on as the locale \<open>abortable_backend\<close>,
  and \<^verbatim>\<open>WhisperBackend\<close> (\<^verbatim>\<open>whisper_backend.cpp\<close>), which implements it. whisper.cpp is not part of
  the repository: its functions are the fields of \<open>whisper_api\<close>, an argument of every definition
  that calls them; \<open>'c\<close> is the type of its contexts.
\<close>

section \<open>The interface\<close>

record 'b speech_backend =
  transcribe :: "'b \<Rightarrow> session_id \<Rightarrow> sample list \<Rightarrow> transcription_request \<Rightarrow> transcription_result \<times> 'b"
  transcribe_partial :: "'b \<Rightarrow> sample list \<Rightarrow> transcription_request \<Rightarrow> transcription_result \<times> 'b"
  request_abort :: "'b \<Rightarrow> 'b"
  clear_abort :: "'b \<Rightarrow> 'b"

text \<open>
  What the interface promises about aborting: a request is in force until it is withdrawn, no
  transcription withdraws it, and while it is in force every transcription fails.
\<close>

locale abortable_backend =
  fixes be :: "'b speech_backend"
    and aborted :: "'b \<Rightarrow> bool"
  assumes request_sets: "aborted (request_abort be b)"
    and clear_clears: "\<not> aborted (clear_abort be b)"
    and transcribe_keeps: "aborted (snd (transcribe be b i xs r)) = aborted b"
    and partial_keeps: "aborted (snd (transcribe_partial be b xs r)) = aborted b"
    and aborted_transcribe: "aborted b \<Longrightarrow> \<exists>e. fst (transcribe be b i xs r) = Inr e"
    and aborted_partial: "aborted b \<Longrightarrow> \<exists>e. fst (transcribe_partial be b xs r) = Inr e"

section \<open>The whisper.cpp backend\<close>

record full_params =
  fp_language :: string
  fp_detect_language :: bool
  fp_initial_prompt :: "string option"
  fp_carry_initial_prompt :: bool
  fp_print_progress :: bool
  fp_print_realtime :: bool
  fp_print_timestamps :: bool
  fp_print_special :: bool

record 'c whisper_api =
  whisper_init_from_file :: "string \<Rightarrow> 'c option"
  whisper_full :: "'c \<Rightarrow> full_params \<Rightarrow> bool \<Rightarrow> sample list \<Rightarrow> int \<Rightarrow> int \<times> 'c"
  whisper_elapsed :: "'c \<Rightarrow> sample list \<Rightarrow> milliseconds"
  whisper_n_segments :: "'c \<Rightarrow> int"
  whisper_segment_text :: "'c \<Rightarrow> int \<Rightarrow> string"
  whisper_lang_id :: "'c \<Rightarrow> int"
  whisper_lang_str :: "int \<Rightarrow> string option"
  whisper_sample_rate :: nat

record 'c whisper_backend =
  wb_ctx :: "'c option"
  wb_abort_requested :: bool
  wb_current_model :: "model option"

definition new_whisper_backend :: "'c whisper_backend" where
  "new_whisper_backend = \<lparr>wb_ctx = None, wb_abort_requested = False, wb_current_model = None\<rparr>"

definition unload_model :: "'c whisper_backend \<Rightarrow> 'c whisper_backend" where
  "unload_model b = (case wb_ctx b of None \<Rightarrow> b | Some _ \<Rightarrow> b\<lparr>wb_ctx := None, wb_current_model := None\<rparr>)"

text \<open>\<open>exists_result\<close> is what \<^verbatim>\<open>std::filesystem::exists\<close> answers for a path: an error or a truth value.\<close>

definition load_model ::
  "'c whisper_api \<Rightarrow> (event, 'w) publisher \<Rightarrow> (string \<Rightarrow> string + bool) \<Rightarrow> model \<Rightarrow>
   'c whisper_backend \<Rightarrow> 'w \<Rightarrow> speech_error option \<times> 'c whisper_backend \<times> 'w" where
  "load_model api pub exists_result m b w =
     (case exists_result (model_path m) of
        Inl msg \<Rightarrow> (Some (SpeechError (''failed to check model file: '' @ msg)), b, w)
      | Inr False \<Rightarrow> (Some (SpeechError (''model file not found: '' @ model_path m)), b, w)
      | Inr True \<Rightarrow>
          (case whisper_init_from_file api (model_path m) of
             None \<Rightarrow> (Some (SpeechError (''failed to load model: '' @ model_path m)), b, w)
           | Some ctx \<Rightarrow>
               (None, (unload_model b)\<lparr>wb_ctx := Some ctx, wb_current_model := Some m\<rparr>,
                pub (ModelLoaded m) w)))"

definition wb_request_abort :: "'c whisper_backend \<Rightarrow> 'c whisper_backend" where
  "wb_request_abort b = b\<lparr>wb_abort_requested := True\<rparr>"

definition wb_clear_abort :: "'c whisper_backend \<Rightarrow> 'c whisper_backend" where
  "wb_clear_abort b = b\<lparr>wb_abort_requested := False\<rparr>"

definition has_model_loaded :: "'c whisper_backend \<Rightarrow> bool" where
  "has_model_loaded b \<longleftrightarrow> wb_ctx b \<noteq> None"

definition decode_params :: "transcription_request \<Rightarrow> full_params" where
  "decode_params req =
     (let auto_detect = (req_language req = [] \<or> req_language req = ''auto'');
          has_prompt = (req_initial_prompt req \<noteq> [])
      in \<lparr>fp_language = (if auto_detect then ''auto'' else req_language req),
          fp_detect_language = False,
          fp_initial_prompt = (if has_prompt then Some (req_initial_prompt req) else None),
          fp_carry_initial_prompt = has_prompt,
          fp_print_progress = False, fp_print_realtime = False, fp_print_timestamps = False,
          fp_print_special = False\<rparr>)"

text \<open>\<^verbatim>\<open>for (int i = 0; i < segment_count; ++i)\<close>: the texts of all segments, concatenated.\<close>

definition segments_text :: "'c whisper_api \<Rightarrow> 'c \<Rightarrow> string" where
  "segments_text api ctx = concat (map (\<lambda>i. whisper_segment_text api ctx (int i)) [0..<nat (whisper_n_segments api ctx)])"

text \<open>
  The sample count is handed to \<^verbatim>\<open>whisper_full\<close> as an \<^verbatim>\<open>int\<close>, a 32-bit cast; the abort flag is
  read again when it returns.
\<close>

definition run_whisper_full ::
  "'c whisper_api \<Rightarrow> 'c whisper_backend \<Rightarrow> sample list \<Rightarrow> transcription_request \<Rightarrow>
   transcription_result \<times> 'c whisper_backend" where
  "run_whisper_full api b samples req =
     (if samples = [] then (Inr (SpeechError ''empty audio buffer''), b)
      else case wb_ctx b of
        None \<Rightarrow> (Inr (SpeechError ''no model loaded''), b)
      | Some ctx \<Rightarrow>
          (let (status, ctx') = whisper_full api ctx (decode_params req) (wb_abort_requested b)
                 samples (sint (word_of_nat (length samples) :: 32 word));
               b' = b\<lparr>wb_ctx := Some ctx'\<rparr>
           in if wb_abort_requested b' then (Inr (SpeechError ''transcription aborted''), b')
              else if status \<noteq> 0 then (Inr (SpeechError ''whisper_full failed internally''), b')
              else (Inl \<lparr>transcript_text = segments_text api ctx',
                         detected_language =
                           (let lang_id = whisper_lang_id api ctx'
                            in case (if 0 \<le> lang_id then whisper_lang_str api lang_id else None) of
                                 Some l \<Rightarrow> l | None \<Rightarrow> []),
                         requested_language = req_language req,
                         audio_duration = int (length samples * 1000 div whisper_sample_rate api),
                         processing_time = whisper_elapsed api ctx samples\<rparr>, b')))"

definition wb_transcribe ::
  "'c whisper_api \<Rightarrow> 'c whisper_backend \<Rightarrow> session_id \<Rightarrow> sample list \<Rightarrow> transcription_request \<Rightarrow>
   transcription_result \<times> 'c whisper_backend" where
  "wb_transcribe api b sid samples req = run_whisper_full api b samples req"

definition wb_transcribe_partial ::
  "'c whisper_api \<Rightarrow> 'c whisper_backend \<Rightarrow> sample list \<Rightarrow> transcription_request \<Rightarrow>
   transcription_result \<times> 'c whisper_backend" where
  "wb_transcribe_partial api b window req = run_whisper_full api b window req"

definition whisper_vtable :: "'c whisper_api \<Rightarrow> 'c whisper_backend speech_backend" where
  "whisper_vtable api =
     \<lparr>transcribe = wb_transcribe api, transcribe_partial = wb_transcribe_partial api,
      request_abort = wb_request_abort, clear_abort = wb_clear_abort\<rparr>"

lemmas whisper_defs = whisper_vtable_def wb_transcribe_def wb_transcribe_partial_def
  run_whisper_full_def wb_request_abort_def wb_clear_abort_def Let_def

section \<open>WhisperBackend keeps the contract\<close>

lemma run_whisper_full_abort [simp, yoru_frame]:
  "wb_abort_requested (snd (run_whisper_full api b xs r)) = wb_abort_requested b"
  by (auto simp: run_whisper_full_def Let_def split: option.splits prod.splits)

lemma run_whisper_full_aborted:
  "wb_abort_requested b \<Longrightarrow> \<exists>e. fst (run_whisper_full api b xs r) = Inr e"
  by (auto simp: run_whisper_full_def Let_def split: option.splits prod.splits)

interpretation whisper: abortable_backend "whisper_vtable api" wb_abort_requested for api
  by unfold_locales
     (simp_all add: whisper_vtable_def wb_transcribe_def wb_transcribe_partial_def
        wb_request_abort_def wb_clear_abort_def run_whisper_full_aborted)

section \<open>Loading and decoding\<close>

text \<open>
  A load that fails, because the file cannot be checked, does not exist, or is not a model,
  changes nothing and publishes nothing, so a previously loaded model stays usable; a load that
  succeeds replaces the model, publishes ModelLoaded with it, and leaves the abort flag alone.
\<close>

theorem load_model_all_or_nothing:
  "case load_model api pub ex m b w of
     (Some e, b', w') \<Rightarrow> b' = b \<and> w' = w \<and>
        (\<forall>ctx. ex (model_path m) = Inr True \<longrightarrow> whisper_init_from_file api (model_path m) \<noteq> Some ctx)
   | (None, b', w') \<Rightarrow> has_model_loaded b' \<and> wb_current_model b' = Some m \<and>
        wb_ctx b' = whisper_init_from_file api (model_path m) \<and>
        wb_abort_requested b' = wb_abort_requested b \<and> w' = pub (ModelLoaded m) w"
  by (auto simp: load_model_def unload_model_def has_model_loaded_def split: sum.splits bool.splits option.splits)

definition demo_api :: "nat whisper_api" where
  "demo_api = \<lparr>whisper_init_from_file = (\<lambda>p. if p = ''/m/ggml-base.bin'' then Some 1 else None),
     whisper_full = (\<lambda>c p ab xs n. (0, c)), whisper_elapsed = (\<lambda>_ _. 5),
     whisper_n_segments = (\<lambda>_. 2), whisper_segment_text = (\<lambda>_ i. if i = 0 then ''ola '' else ''mundo''),
     whisper_lang_id = (\<lambda>_. 1), whisper_lang_str = (\<lambda>i. if i = 1 then Some ''pt'' else None),
     whisper_sample_rate = 16000\<rparr>"

theorem load_model_all_or_nothing_witness:
  "let m = \<lparr>model_name = ''ggml-base'', model_size_of = Base, supported_language = ''multi'',
            model_path = ''/m/ggml-base.bin'', model_backend = ''whisper.cpp''\<rparr>
   in case load_model demo_api record_event (\<lambda>_. Inr True) m new_whisper_backend [] of
        (Some e, b', w') \<Rightarrow> False
      | (None, b', w') \<Rightarrow> has_model_loaded b' \<and> w' = [ModelLoaded m]"
proof -
  let ?m = "\<lparr>model_name = ''ggml-base'', model_size_of = Base, supported_language = ''multi'',
            model_path = ''/m/ggml-base.bin'', model_backend = ''whisper.cpp''\<rparr>"
  show ?thesis
    using load_model_all_or_nothing [where api = demo_api and pub = record_event and ex = "\<lambda>_. Inr True"
        and m = ?m and b = new_whisper_backend and w = "[]"]
    by (auto simp: Let_def demo_api_def split: prod.splits option.splits)
qed

text \<open>
  C27: when the backend answers with a transcript, it had audio, a model and no abort request, and the
  decoder, run once on exactly the samples that were handed over, returned success. It was given the requested
  language ("auto" for "auto" or none: detect and transcribe, never detect only), as prompt exactly the one of
  the request or none if that is empty, to be carried over all its windows, and nothing to print; and as the number of samples
  their number, unless it does not fit in 31 bits. The text is that of all segments in order, the detected
  language the decoder's own, the requested language is echoed, and the duration is that of the samples at the decoder's
  rate. The backend keeps the model and its abort flag.
\<close>

theorem transcript_provenance:
  assumes "run_whisper_full api b samples req = (Inl t, b')"
  shows "\<exists>ctx ctx' count. samples \<noteq> [] \<and> wb_ctx b = Some ctx \<and> \<not> wb_abort_requested b \<and>
     whisper_full api ctx
       \<lparr>fp_language = (if req_language req \<in> {'''', ''auto''} then ''auto'' else req_language req),
        fp_detect_language = False,
        fp_initial_prompt = (if req_initial_prompt req = '''' then None else Some (req_initial_prompt req)),
        fp_carry_initial_prompt = (req_initial_prompt req \<noteq> ''''),
        fp_print_progress = False, fp_print_realtime = False, fp_print_timestamps = False, fp_print_special = False\<rparr>
       False samples count = (0, ctx') \<and>
     (length samples < 2 ^ 31 \<longrightarrow> count = int (length samples)) \<and>
     transcript_text t = concat (map (\<lambda>i. whisper_segment_text api ctx' (int i)) [0..<nat (whisper_n_segments api ctx')]) \<and>
     detected_language t =
       (case (if whisper_lang_id api ctx' < 0 then None else whisper_lang_str api (whisper_lang_id api ctx')) of
          None \<Rightarrow> '''' | Some l \<Rightarrow> l) \<and>
     requested_language t = req_language req \<and>
     audio_duration t = int (length samples * 1000 div whisper_sample_rate api) \<and>
     processing_time t = whisper_elapsed api ctx samples \<and>
     wb_ctx b' = Some ctx' \<and> wb_current_model b' = wb_current_model b \<and> \<not> wb_abort_requested b'"
proof -
  from assms obtain ctx ctx' where f: "samples \<noteq> []" "wb_ctx b = Some ctx" "\<not> wb_abort_requested b"
    "whisper_full api ctx (decode_params req) False samples (sint (word_of_nat (length samples) :: 32 word)) = (0, ctx')"
    and t: "transcript_text t = segments_text api ctx'" "requested_language t = req_language req"
    "detected_language t = (case (if 0 \<le> whisper_lang_id api ctx' then whisper_lang_str api (whisper_lang_id api ctx') else None) of
        Some l \<Rightarrow> l | None \<Rightarrow> [])"
    "audio_duration t = int (length samples * 1000 div whisper_sample_rate api)" "processing_time t = whisper_elapsed api ctx samples"
    "b' = b\<lparr>wb_ctx := Some ctx'\<rparr>"
    by (auto simp: run_whisper_full_def Let_def split: if_splits option.splits prod.splits)
  have "sint (word_of_nat (length samples) :: 32 word) = int (length samples)" if "length samples < 2 ^ 31"
    using that by (simp add: signed_of_nat signed_take_bit_int_eq_self)
  moreover have "decode_params req =
      \<lparr>fp_language = (if req_language req \<in> {'''', ''auto''} then ''auto'' else req_language req), fp_detect_language = False,
       fp_initial_prompt = (if req_initial_prompt req = '''' then None else Some (req_initial_prompt req)),
       fp_carry_initial_prompt = (req_initial_prompt req \<noteq> ''''),
       fp_print_progress = False, fp_print_realtime = False, fp_print_timestamps = False, fp_print_special = False\<rparr>"
    by (simp add: decode_params_def Let_def)
  moreover have "(if 0 \<le> n then x else y) = (if n < 0 then y else x)" for n :: int and x y :: "string option" by simp
  ultimately show ?thesis
    using f t unfolding segments_text_def
    by (intro exI [of _ ctx] exI [of _ ctx'] exI [of _ "sint (word_of_nat (length samples) :: 32 word)"]) simp
qed

theorem transcript_provenance_witness:
  "let b = new_whisper_backend\<lparr>wb_ctx := Some (1 :: nat)\<rparr>;
       req = \<lparr>req_language = ''auto'', req_initial_prompt = ''deploy''\<rparr>
   in \<exists>t b' ctx'. run_whisper_full demo_api b [0] req = (Inl t, b') \<and> transcript_text t = ''ola mundo'' \<and>
      whisper_full demo_api 1
        \<lparr>fp_language = ''auto'', fp_detect_language = False, fp_initial_prompt = Some ''deploy'', fp_carry_initial_prompt = True,
         fp_print_progress = False, fp_print_realtime = False, fp_print_timestamps = False, fp_print_special = False\<rparr>
        False [0] 1 = (0, ctx') \<and> wb_ctx b' = Some ctx'"
proof -
  let ?b = "new_whisper_backend\<lparr>wb_ctx := Some (1 :: nat)\<rparr>"
  let ?req = "\<lparr>req_language = ''auto'', req_initial_prompt = ''deploy''\<rparr>"
  obtain t b' where run: "run_whisper_full demo_api ?b [0] ?req = (Inl t, b')" "transcript_text t = ''ola mundo''"
    by (simp add: run_whisper_full_def demo_api_def new_whisper_backend_def segments_text_def Let_def
        upt_rec numeral_2_eq_2)
  from transcript_provenance [OF run(1)] run show ?thesis unfolding Let_def by auto
qed

end
