(* ===== verification/Transcription_Queue.thy ===== *)
theory Transcription_Queue
  imports Speech_Backend
begin

text \<open>
  \<^verbatim>\<open>TranscriptionQueue\<close> (\<^verbatim>\<open>src/domains/session/transcription_queue.cpp\<close>): the bounded FIFO between the
  controlling thread and the worker thread. Every critical section of the code (a scope holding
  \<^verbatim>\<open>mutex_\<close>) is one atomic operation here. The worker's loop \<^verbatim>\<open>run()\<close> is a program counter
  \<open>worker_pc\<close> and one \<open>worker_step\<close> per critical section or call it makes, so that anything the
  controlling thread does can fall between two of them. The activity callback is a value of type
  \<open>'cb\<close>; a step that calls it outputs it.
\<close>

record transcription_job =
  job_session_id :: session_id
  job_samples :: "sample list"
  job_request :: transcription_request
  job_enqueued_at :: time_point

record queue_snapshot =
  snap_pending :: nat
  snap_busy :: bool

record job_result =
  res_session_id :: session_id
  res_result :: transcription_result

text \<open>
  Where the worker is: waiting at the top of the loop; holding a job it has taken (about to copy the
  callback, about to call it, inside \<^verbatim>\<open>transcribe\<close>, or back from it with a result it is about to
  store); having stored a result (about to copy or call the callback); or returned. The step out of
  \<open>Transcribing\<close> stands for the whole call of \<^verbatim>\<open>transcribe\<close>, at the moment of its last look at the
  abort flag.
\<close>

datatype 'cb worker_pc =
    Waiting
  | Announcing transcription_job
  | AnnounceCall 'cb transcription_job
  | Transcribing transcription_job
  | Storing transcription_job transcription_result
  | Reporting
  | ReportCall 'cb
  | Exited

record 'cb transcription_queue =
  q_capacity :: nat
  q_pending :: "transcription_job list"
  q_started :: "session_id list"
  q_completed :: "job_result list"
  q_busy :: bool
  q_stopping :: bool
  q_on_activity :: "'cb option"
  q_worker :: "'cb worker_pc"

definition default_capacity :: nat where "default_capacity = 8"

definition new_queue :: "nat \<Rightarrow> 'cb transcription_queue" where
  "new_queue capacity =
     \<lparr>q_capacity = capacity, q_pending = [], q_started = [], q_completed = [], q_busy = False,
      q_stopping = False, q_on_activity = None, q_worker = Waiting\<rparr>"

section \<open>Operations of the controlling thread\<close>

definition try_enqueue ::
  "transcription_job \<Rightarrow> 'cb transcription_queue \<Rightarrow> nat option \<times> 'cb transcription_queue" where
  "try_enqueue job q =
     (if q_stopping q \<or> length (q_pending q) \<ge> q_capacity q then (None, q)
      else (Some (length (q_pending q) + (if q_busy q then 1 else 0)),
            q\<lparr>q_pending := q_pending q @ [job]\<rparr>))"

definition has_capacity :: "'cb transcription_queue \<Rightarrow> bool" where
  "has_capacity q \<longleftrightarrow> \<not> q_stopping q \<and> length (q_pending q) < q_capacity q"

fun erase_job :: "session_id \<Rightarrow> transcription_job list \<Rightarrow> transcription_job list option" where
  "erase_job sid [] = None"
| "erase_job sid (j # js) =
     (if job_session_id j = sid then Some js else map_option (Cons j) (erase_job sid js))"

definition cancel_pending :: "session_id \<Rightarrow> 'cb transcription_queue \<Rightarrow> bool \<times> 'cb transcription_queue" where
  "cancel_pending sid q =
     (case erase_job sid (q_pending q) of
        Some js \<Rightarrow> (True, q\<lparr>q_pending := js\<rparr>)
      | None \<Rightarrow> (False, q))"

definition drain_started :: "'cb transcription_queue \<Rightarrow> session_id list \<times> 'cb transcription_queue" where
  "drain_started q = (q_started q, q\<lparr>q_started := []\<rparr>)"

definition drain_completed :: "'cb transcription_queue \<Rightarrow> job_result list \<times> 'cb transcription_queue" where
  "drain_completed q = (q_completed q, q\<lparr>q_completed := []\<rparr>)"

definition set_activity_callback :: "'cb option \<Rightarrow> 'cb transcription_queue \<Rightarrow> 'cb transcription_queue" where
  "set_activity_callback cb q = q\<lparr>q_on_activity := cb\<rparr>"

definition queue_snapshot_of :: "'cb transcription_queue \<Rightarrow> queue_snapshot" where
  "queue_snapshot_of q = \<lparr>snap_pending = length (q_pending q), snap_busy = q_busy q\<rparr>"

definition outstanding_count :: "'cb transcription_queue \<Rightarrow> nat" where
  "outstanding_count q = length (q_pending q) + (if q_busy q then 1 else 0)"

section \<open>The worker thread\<close>

text \<open>\<^verbatim>\<open>notify_activity\<close>: copy the callback under the lock, then call the copy.\<close>

definition after_announce :: "'cb option \<Rightarrow> transcription_job \<Rightarrow> 'cb worker_pc" where
  "after_announce cb j = (case cb of Some f \<Rightarrow> AnnounceCall f j | None \<Rightarrow> Transcribing j)"

definition after_report :: "'cb option \<Rightarrow> 'cb worker_pc" where
  "after_report cb = (case cb of Some f \<Rightarrow> ReportCall f | None \<Rightarrow> Waiting)"

definition take_job :: "'b speech_backend \<Rightarrow> 'cb transcription_queue \<times> 'b \<Rightarrow> 'cb transcription_queue \<times> 'b" where
  "take_job be s =
     (case s of (q, b) \<Rightarrow>
        if q_stopping q then (q\<lparr>q_worker := Exited\<rparr>, b)
        else case q_pending q of
          [] \<Rightarrow> (q, b)
        | j # js \<Rightarrow> (q\<lparr>q_pending := js, q_busy := True, q_started := q_started q @ [job_session_id j],
                       q_worker := Announcing j\<rparr>, clear_abort be b))"

definition transcribe_job ::
  "'b speech_backend \<Rightarrow> transcription_job \<Rightarrow> 'cb transcription_queue \<times> 'b \<Rightarrow> 'cb transcription_queue \<times> 'b" where
  "transcribe_job be j s =
     (case s of (q, b) \<Rightarrow>
        let (r, b') = transcribe be b (job_session_id j) (job_samples j) (job_request j)
        in (q\<lparr>q_worker := Storing j r\<rparr>, b'))"

definition store_result ::
  "transcription_job \<Rightarrow> transcription_result \<Rightarrow> 'cb transcription_queue \<Rightarrow> 'cb transcription_queue" where
  "store_result j r q =
     q\<lparr>q_busy := False,
       q_completed := q_completed q @ [\<lparr>res_session_id = job_session_id j, res_result = r\<rparr>],
       q_worker := Reporting\<rparr>"

fun worker_step ::
  "'b speech_backend \<Rightarrow> 'cb transcription_queue \<times> 'b \<Rightarrow> ('cb transcription_queue \<times> 'b) \<times> 'cb option" where
  "worker_step be (q, b) =
     (case q_worker q of
        Waiting \<Rightarrow> (take_job be (q, b), None)
      | Announcing j \<Rightarrow> ((q\<lparr>q_worker := after_announce (q_on_activity q) j\<rparr>, b), None)
      | AnnounceCall f j \<Rightarrow> ((q\<lparr>q_worker := Transcribing j\<rparr>, b), Some f)
      | Transcribing j \<Rightarrow> (transcribe_job be j (q, b), None)
      | Storing j r \<Rightarrow> ((store_result j r q, b), None)
      | Reporting \<Rightarrow> ((q\<lparr>q_worker := after_report (q_on_activity q)\<rparr>, b), None)
      | ReportCall f \<Rightarrow> ((q\<lparr>q_worker := Waiting\<rparr>, b), Some f)
      | Exited \<Rightarrow> ((q, b), None))"

fun worker_run ::
  "'b speech_backend \<Rightarrow> nat \<Rightarrow> 'cb transcription_queue \<times> 'b \<Rightarrow> 'cb transcription_queue \<times> 'b" where
  "worker_run be 0 s = s"
| "worker_run be (Suc n) s = worker_run be n (fst (worker_step be s))"

text \<open>Whether the worker calls the activity callback in its next \<open>n\<close> steps.\<close>

fun worker_rings :: "'b speech_backend \<Rightarrow> nat \<Rightarrow> 'cb transcription_queue \<times> 'b \<Rightarrow> bool" where
  "worker_rings be 0 s = False"
| "worker_rings be (Suc n) s = (snd (worker_step be s) \<noteq> None \<or> worker_rings be n (fst (worker_step be s)))"

declare worker_step.simps [simp del]

section \<open>Shutdown\<close>

definition begin_shutdown :: "'cb transcription_queue \<Rightarrow> session_id list \<times> 'cb transcription_queue" where
  "begin_shutdown q = (map job_session_id (q_pending q), q\<lparr>q_stopping := True, q_pending := []\<rparr>)"

text \<open>
  \<^verbatim>\<open>worker_.join()\<close> waits until the worker has returned: it lets the worker step until then. Once
  \<^verbatim>\<open>stopping_\<close> is set seven steps always suffice (\<open>join_worker_exits\<close>).
\<close>

fun join_worker ::
  "'b speech_backend \<Rightarrow> nat \<Rightarrow> 'cb transcription_queue \<times> 'b \<Rightarrow> 'cb transcription_queue \<times> 'b" where
  "join_worker be 0 s = s"
| "join_worker be (Suc n) s =
     (if q_worker (fst s) = Exited then s else join_worker be n (fst (worker_step be s)))"

text \<open>\<open>n\<close> is how many steps the worker makes between the critical section and \<^verbatim>\<open>request_abort()\<close>.\<close>

definition queue_shutdown ::
  "'b speech_backend \<Rightarrow> nat \<Rightarrow> 'cb transcription_queue \<times> 'b \<Rightarrow>
   session_id list \<times> 'cb transcription_queue \<times> 'b" where
  "queue_shutdown be n s =
     (let (dropped, q1) = begin_shutdown (fst s);
          (q2, b2) = worker_run be n (q1, snd s);
          (q3, b3) = join_worker be 7 (q2, request_abort be b2)
      in (dropped, q3, b3))"

lemmas queue_ops = try_enqueue_def has_capacity_def cancel_pending_def drain_started_def
  drain_completed_def set_activity_callback_def queue_snapshot_of_def outstanding_count_def
  begin_shutdown_def take_job_def transcribe_job_def store_result_def after_announce_def after_report_def

section \<open>The invariant\<close>

text \<open>The job the worker holds, if any.\<close>

fun held_job :: "'cb worker_pc \<Rightarrow> transcription_job list" where
  "held_job (Announcing j) = [j]"
| "held_job (AnnounceCall _ j) = [j]"
| "held_job (Transcribing j) = [j]"
| "held_job (Storing j _) = [j]"
| "held_job Waiting = []"
| "held_job Reporting = []"
| "held_job (ReportCall _) = []"
| "held_job Exited = []"

definition queue_inv :: "'cb transcription_queue \<Rightarrow> bool" where
  "queue_inv q \<longleftrightarrow> length (q_pending q) \<le> q_capacity q \<and>
     (q_busy q \<longleftrightarrow> held_job (q_worker q) \<noteq> []) \<and>
     (q_stopping q \<longrightarrow> q_pending q = []) \<and> (q_worker q = Exited \<longrightarrow> q_stopping q)"

lemma queue_inv_new [simp]: "queue_inv (new_queue c)"
  by (simp add: queue_inv_def new_queue_def)

lemma erase_job_Some:
  "erase_job sid js = Some ks \<longleftrightarrow>
     (\<exists>before j after. js = before @ j # after \<and> ks = before @ after \<and> job_session_id j = sid \<and>
        sid \<notin> job_session_id ` set before)"
proof (induction js arbitrary: ks)
  case (Cons k js)
  show ?case
  proof (cases "job_session_id k = sid")
    case True
    then show ?thesis by (auto simp: Cons_eq_append_conv intro: exI [of _ "[]"])
  next
    case False
    then have "erase_job sid (k # js) = Some ks \<longleftrightarrow> (\<exists>ks'. ks = k # ks' \<and> erase_job sid js = Some ks')"
      by auto
    also have "\<dots> \<longleftrightarrow> (\<exists>before j after. k # js = before @ j # after \<and> ks = before @ after \<and>
        job_session_id j = sid \<and> sid \<notin> job_session_id ` set before)" (is "?L \<longleftrightarrow> ?R")
    proof
      assume ?L
      then obtain ks' before j after where "ks = k # ks'" "js = before @ j # after" "ks' = before @ after"
        "job_session_id j = sid" "sid \<notin> job_session_id ` set before" unfolding Cons.IH by blast
      with False show ?R by (intro exI [of _ "k # before"] exI [of _ j] exI [of _ after]) auto
    next
      assume ?R
      then obtain before j after where *: "k # js = before @ j # after" "ks = before @ after"
        "job_session_id j = sid" "sid \<notin> job_session_id ` set before" by blast
      with False obtain before' where "before = k # before'" by (cases before) auto
      with * show ?L unfolding Cons.IH by auto
    qed
    finally show ?thesis .
  qed
qed simp

lemma erase_job_None: "erase_job sid js = None \<longleftrightarrow> sid \<notin> job_session_id ` set js"
  by (induction js) auto

lemma erase_job_length: "erase_job sid js = Some ks \<Longrightarrow> length js = Suc (length ks)"
  by (auto simp: erase_job_Some)

lemma queue_inv_enqueue: "queue_inv q \<Longrightarrow> queue_inv (snd (try_enqueue j q))"
  by (auto simp: queue_inv_def try_enqueue_def)

lemma queue_inv_cancel: "queue_inv q \<Longrightarrow> queue_inv (snd (cancel_pending i q))"
  using erase_job_length [of i "q_pending q"]
  by (fastforce simp: queue_inv_def cancel_pending_def split: option.splits)

lemma queue_inv_drain:
  "queue_inv q \<Longrightarrow> queue_inv (snd (drain_started q))" "queue_inv q \<Longrightarrow> queue_inv (snd (drain_completed q))"
  by (simp_all add: queue_inv_def drain_started_def drain_completed_def)

lemma queue_inv_callback: "queue_inv q \<Longrightarrow> queue_inv (set_activity_callback cb q)"
  by (simp add: queue_inv_def set_activity_callback_def)

lemma queue_inv_begin_shutdown: "queue_inv q \<Longrightarrow> queue_inv (snd (begin_shutdown q))"
  by (simp add: queue_inv_def begin_shutdown_def)

lemma queue_inv_worker: "queue_inv q \<Longrightarrow> queue_inv (fst (fst (worker_step be (q, b))))"
  by (cases "q_worker q")
     (auto simp: queue_inv_def worker_step.simps queue_ops split: prod.splits list.splits option.splits)

lemma queue_inv_worker_run: "queue_inv (fst s) \<Longrightarrow> queue_inv (fst (worker_run be n s))"
proof (induction n arbitrary: s)
  case (Suc n)
  then show ?case using queue_inv_worker [of "fst s" be "snd s"] by simp
qed simp

lemmas queue_invs = queue_inv_enqueue queue_inv_cancel queue_inv_drain queue_inv_callback
  queue_inv_begin_shutdown queue_inv_worker queue_inv_worker_run

section \<open>The queue as an abstract FIFO\<close>

text \<open>The jobs the queue owes a result for, in the order they will be answered.\<close>

definition outstanding :: "'cb transcription_queue \<Rightarrow> transcription_job list" where
  "outstanding q = held_job (q_worker q) @ q_pending q"

lemma outstanding_count_length: "queue_inv q \<Longrightarrow> outstanding_count q = length (outstanding q)"
  by (cases "q_worker q") (auto simp: queue_inv_def outstanding_def outstanding_count_def)

text \<open>
  C24: the queue implements a bounded FIFO of outstanding jobs. Enqueuing appends at the end and
  returns how many jobs are ahead, and is refused exactly when the queue is full or shut down;
  cancelling removes the first waiting job with the id and never the one being transcribed; a step
  of the worker answers at most the job at the front, with the result it got from the backend for
  exactly that job's id, audio and request; draining touches no job.
\<close>

theorem queue_refines_fifo:
  assumes "queue_inv q"
  shows
    "(case try_enqueue j q of
        (Some pos, q') \<Rightarrow> has_capacity q \<and> pos = length (outstanding q) \<and> outstanding q' = outstanding q @ [j]
      | (None, q') \<Rightarrow> \<not> has_capacity q \<and> q' = q) \<and>
     (case cancel_pending sid q of
        (True, q') \<Rightarrow> \<exists>before job after. q_pending q = before @ job # after \<and> job_session_id job = sid \<and>
            outstanding q' = held_job (q_worker q) @ before @ after
      | (False, q') \<Rightarrow> q' = q \<and> sid \<notin> job_session_id ` set (q_pending q)) \<and>
     outstanding (snd (drain_started q)) = outstanding q \<and>
     outstanding (snd (drain_completed q)) = outstanding q \<and>
     (let q' = fst (fst (worker_step be (q, b))) in
        (outstanding q' = outstanding q \<and> q_completed q' = q_completed q \<and>
         (\<forall>job r. q_worker q' = Storing job r \<longrightarrow> outstanding q = job # q_pending q \<and>
            r = fst (transcribe be b (job_session_id job) (job_samples job) (job_request job)))) \<or>
        (\<exists>job r. q_worker q = Storing job r \<and> outstanding q = job # outstanding q' \<and>
           q_completed q' = q_completed q @ [\<lparr>res_session_id = job_session_id job, res_result = r\<rparr>]))"
proof (intro conjI)
  show "case try_enqueue j q of
        (Some pos, q') \<Rightarrow> has_capacity q \<and> pos = length (outstanding q) \<and> outstanding q' = outstanding q @ [j]
      | (None, q') \<Rightarrow> \<not> has_capacity q \<and> q' = q"
    using outstanding_count_length [OF assms]
    by (auto simp: try_enqueue_def has_capacity_def outstanding_def outstanding_count_def)
  show "case cancel_pending sid q of
        (True, q') \<Rightarrow> \<exists>before job after. q_pending q = before @ job # after \<and> job_session_id job = sid \<and>
            outstanding q' = held_job (q_worker q) @ before @ after
      | (False, q') \<Rightarrow> q' = q \<and> sid \<notin> job_session_id ` set (q_pending q)"
  proof (cases "erase_job sid (q_pending q)")
    case None
    then show ?thesis using erase_job_None [of sid "q_pending q"] by (simp add: cancel_pending_def)
  next
    case (Some js)
    then show ?thesis unfolding cancel_pending_def
      by (auto simp: outstanding_def dest!: erase_job_Some [THEN iffD1])
  qed
  show "outstanding (snd (drain_started q)) = outstanding q"
    "outstanding (snd (drain_completed q)) = outstanding q"
    by (simp_all add: outstanding_def drain_started_def drain_completed_def)
  show "let q' = fst (fst (worker_step be (q, b))) in
        (outstanding q' = outstanding q \<and> q_completed q' = q_completed q \<and>
         (\<forall>job r. q_worker q' = Storing job r \<longrightarrow> outstanding q = job # q_pending q \<and>
            r = fst (transcribe be b (job_session_id job) (job_samples job) (job_request job)))) \<or>
        (\<exists>job r. q_worker q = Storing job r \<and> outstanding q = job # outstanding q' \<and>
           q_completed q' = q_completed q @ [\<lparr>res_session_id = job_session_id job, res_result = r\<rparr>])"
    by (cases "q_worker q")
       (auto simp: Let_def outstanding_def worker_step.simps queue_ops split: prod.splits list.splits option.splits)
qed

section \<open>Check-then-act on the capacity\<close>

text \<open>
  The contract a producer relies on: what is accepted is exactly what there was room for, and
  nothing but a producer or a shutdown takes room away.
\<close>

locale single_producer_queue =
  fixes enq :: "'j \<Rightarrow> 'q \<Rightarrow> nat option \<times> 'q"
    and room :: "'q \<Rightarrow> bool"
    and other_step :: "'q \<Rightarrow> 'q \<Rightarrow> bool"
  assumes enq_accepts: "fst (enq j q) \<noteq> None \<longleftrightarrow> room q"
    and room_kept: "other_step q q' \<Longrightarrow> room q \<Longrightarrow> room q'"
begin

lemma room_persists: "other_step\<^sup>*\<^sup>* q q' \<Longrightarrow> room q \<Longrightarrow> room q'"
  by (induction rule: rtranclp_induct) (auto intro: room_kept)

lemma checked_enqueue_accepted: "room q \<Longrightarrow> other_step\<^sup>*\<^sup>* q q' \<Longrightarrow> \<exists>p. fst (enq j q') = Some p"
  using room_persists enq_accepts by blast

end

text \<open>Everything that happens to the queue besides enqueuing and shutting down.\<close>

inductive non_producer_step :: "'b speech_backend \<Rightarrow> 'cb transcription_queue \<Rightarrow> 'cb transcription_queue \<Rightarrow> bool"
  for be :: "'b speech_backend" where
  np_worker: "non_producer_step be q (fst (fst (worker_step be (q, b))))"
| np_cancel: "non_producer_step be q (snd (cancel_pending i q))"
| np_started: "non_producer_step be q (snd (drain_started q))"
| np_completed: "non_producer_step be q (snd (drain_completed q))"
| np_callback: "non_producer_step be q (set_activity_callback cb q)"

lemma worker_step_room: "has_capacity q \<Longrightarrow> has_capacity (fst (fst (worker_step be (q, b))))"
  by (cases "q_worker q") (auto simp: worker_step.simps queue_ops split: prod.splits list.splits option.splits)

lemma non_producer_room: "non_producer_step be q q' \<Longrightarrow> has_capacity q \<Longrightarrow> has_capacity q'"
proof (induction rule: non_producer_step.induct)
  case (np_cancel q i)
  then show ?case using erase_job_length [of i "q_pending q"]
    by (fastforce simp: cancel_pending_def has_capacity_def split: option.splits)
next
  case (np_worker q b)
  then show ?case by (rule worker_step_room)
qed (simp_all add: queue_ops)

interpretation tq: single_producer_queue try_enqueue has_capacity "non_producer_step be" for be
proof unfold_locales
  show "fst (try_enqueue j q) \<noteq> None \<longleftrightarrow> has_capacity q" for j and q :: "'a transcription_queue"
    by (auto simp: try_enqueue_def has_capacity_def)
qed (rule non_producer_room)

text \<open>
  A capacity check by the only producer stays valid. Whatever the worker, cancellations and
  drains do in between, a job offered after a successful \<^verbatim>\<open>has_capacity()\<close> is accepted: the room can
  only grow.
\<close>

theorem checked_capacity_is_kept:
  assumes "has_capacity q" and "(non_producer_step be)\<^sup>*\<^sup>* q q'"
  shows "\<exists>position. fst (try_enqueue job q') = Some position"
  using assms by (rule tq.checked_enqueue_accepted)

section \<open>Liveness\<close>

text \<open>How many steps the worker is away from being able to take a job again.\<close>

fun pc_distance :: "'cb worker_pc \<Rightarrow> nat" where
  "pc_distance Waiting = 0"
| "pc_distance (Announcing _) = 6"
| "pc_distance (AnnounceCall _ _) = 5"
| "pc_distance (Transcribing _) = 4"
| "pc_distance (Storing _ _) = 3"
| "pc_distance Reporting = 2"
| "pc_distance (ReportCall _) = 1"
| "pc_distance Exited = 0"

definition work_left :: "'cb transcription_queue \<Rightarrow> nat" where
  "work_left q = 7 * length (q_pending q) + pc_distance (q_worker q)"

lemma worker_step_work:
  assumes "queue_inv q" "\<not> q_stopping q" "0 < work_left q"
  shows "work_left (fst (fst (worker_step be (q, b)))) < work_left q"
    and "\<not> q_stopping (fst (fst (worker_step be (q, b))))"
  using assms
  by (cases "q_worker q"; auto simp: work_left_def queue_inv_def worker_step.simps queue_ops
        split: prod.splits list.splits option.splits)+

text \<open>The ids of the results, in the order the worker stored them.\<close>

definition completed_ids :: "'cb transcription_queue \<Rightarrow> session_id list" where
  "completed_ids q = map res_session_id (q_completed q)"

lemma worker_step_conserves:
  "\<not> q_stopping q \<Longrightarrow>
     completed_ids (fst (fst (worker_step be (q, b)))) @ map job_session_id (outstanding (fst (fst (worker_step be (q, b)))))
     = completed_ids q @ map job_session_id (outstanding q)"
  by (cases "q_worker q")
     (auto simp: completed_ids_def outstanding_def worker_step.simps queue_ops split: prod.splits list.splits option.splits)

lemma worker_run_drains:
  "queue_inv (fst s) \<Longrightarrow> \<not> q_stopping (fst s) \<Longrightarrow> work_left (fst s) \<le> n \<Longrightarrow>
     let q' = fst (worker_run be n s) in
       outstanding q' = [] \<and> completed_ids q' = completed_ids (fst s) @ map job_session_id (outstanding (fst s))"
proof (induction n arbitrary: s)
  case 0
  then have "q_pending (fst s) = []" and "held_job (q_worker (fst s)) = []"
    by (auto simp: work_left_def) (cases "q_worker (fst s)"; simp)
  then show ?case by (simp add: outstanding_def)
next
  case (Suc n)
  obtain q b where s: "s = (q, b)" by (cases s)
  let ?q = "fst (fst (worker_step be (q, b)))"
  show ?case
  proof (cases "work_left q = 0")
    case True
    then have "q_pending q = []" "q_worker q = Waiting \<or> q_worker q = Exited"
      by (auto simp: work_left_def) (cases "q_worker q"; simp)
    with Suc.prems s have "fst (worker_step be (q, b)) = (q, b)"
      by (auto simp: worker_step.simps queue_ops queue_inv_def)
    with Suc.IH [of s] Suc.prems True s show ?thesis by simp
  next
    case False
    with Suc.prems s worker_step_work [of q be b] have "work_left ?q \<le> n" "\<not> q_stopping ?q"
      by auto
    moreover have "queue_inv ?q" using Suc.prems s by (simp add: queue_inv_worker)
    ultimately show ?thesis
      using Suc.IH [of "fst (worker_step be (q, b))"] worker_step_conserves [of q be b] Suc.prems s
      by (simp add: Let_def)
  qed
qed

text \<open>
  Every accepted job is eventually answered, in order. Left alone, the worker reaches a state
  with nothing outstanding after at most seven steps per waiting job plus six for the one it holds,
  and the results it stored by then are exactly those of the outstanding jobs, in FIFO order, after
  the ones already there.
\<close>

theorem worker_answers_all_in_order:
  assumes "queue_inv q" and "\<not> q_stopping q" and "7 * length (q_pending q) + 6 \<le> n"
  shows "let q' = fst (worker_run be n (q, b)) in
     outstanding q' = [] \<and>
     map res_session_id (q_completed q') =
       map res_session_id (q_completed q) @ map job_session_id (outstanding q)"
proof -
  have "pc_distance (q_worker q) \<le> 6" by (cases "q_worker q") auto
  with assms(3) have "work_left q \<le> n" by (simp add: work_left_def)
  with assms worker_run_drains [of "(q, b)" n be] show ?thesis
    by (simp add: completed_ids_def Let_def)
qed

section \<open>Shutting down\<close>

fun exit_distance :: "'cb worker_pc \<Rightarrow> nat" where
  "exit_distance Exited = 0"
| "exit_distance pc = Suc (pc_distance pc)"

lemma exit_distance_le: "exit_distance pc \<le> 7"
  by (cases pc) auto

lemma exit_distance_0: "exit_distance pc = 0 \<longleftrightarrow> pc = Exited"
  by (cases pc) auto

lemma worker_step_stopping:
  assumes "q_stopping q"
  shows "q_stopping (fst (fst (worker_step be (q, b))))"
    and "q_worker q \<noteq> Exited \<Longrightarrow>
           exit_distance (q_worker (fst (fst (worker_step be (q, b))))) < exit_distance (q_worker q)"
    and "q_pending (fst (fst (worker_step be (q, b)))) = q_pending q"
    and "completed_ids (fst (fst (worker_step be (q, b)))) @
           map job_session_id (held_job (q_worker (fst (fst (worker_step be (q, b))))))
         = completed_ids q @ map job_session_id (held_job (q_worker q))"
  using assms
  by (cases "q_worker q"; auto simp: worker_step.simps completed_ids_def queue_ops
        split: prod.splits option.splits)+

lemma worker_step_exited: "q_worker q = Exited \<Longrightarrow> worker_step be (q, b) = ((q, b), None)"
  by (simp add: worker_step.simps)

lemma worker_run_stopping:
  "q_stopping (fst s) \<Longrightarrow>
     q_stopping (fst (worker_run be n s)) \<and> q_pending (fst (worker_run be n s)) = q_pending (fst s) \<and>
     completed_ids (fst (worker_run be n s)) @ map job_session_id (held_job (q_worker (fst (worker_run be n s))))
       = completed_ids (fst s) @ map job_session_id (held_job (q_worker (fst s)))"
proof (induction n arbitrary: s)
  case (Suc n)
  then show ?case using worker_step_stopping [of "fst s" be "snd s"] by simp
qed simp

lemma join_worker_exits:
  "q_stopping (fst s) \<Longrightarrow> exit_distance (q_worker (fst s)) \<le> n \<Longrightarrow>
     q_worker (fst (join_worker be n s)) = Exited \<and> q_stopping (fst (join_worker be n s)) \<and>
     q_pending (fst (join_worker be n s)) = q_pending (fst s) \<and>
     completed_ids (fst (join_worker be n s)) = completed_ids (fst s) @ map job_session_id (held_job (q_worker (fst s)))"
proof (induction n arbitrary: s)
  case 0
  then show ?case by (simp add: exit_distance_0)
next
  case (Suc n)
  show ?case
  proof (cases "q_worker (fst s) = Exited")
    case True
    with Suc.prems show ?thesis by simp
  next
    case False
    let ?s = "fst (worker_step be s)"
    from False Suc.prems worker_step_stopping [of "fst s" be "snd s"]
    have "q_stopping (fst ?s)" "exit_distance (q_worker (fst ?s)) \<le> n" by auto
    with Suc.IH [of ?s] False Suc.prems worker_step_stopping [of "fst s" be "snd s"]
    show ?thesis by simp
  qed
qed

lemma queue_shutdown_result:
  assumes "queue_shutdown be n (q, b) = (dropped, q', b')"
  shows "dropped = map job_session_id (q_pending q)" and "q_worker q' = Exited" and "q_stopping q'"
    and "q_pending q' = []"
    and "completed_ids q' = completed_ids q @ map job_session_id (held_job (q_worker q))"
proof -
  let ?q1 = "snd (begin_shutdown q)"
  obtain q2 b2 where run: "worker_run be n (?q1, b) = (q2, b2)" by (cases "worker_run be n (?q1, b)")
  have q1: "q_stopping ?q1" "q_pending ?q1 = []" "completed_ids ?q1 = completed_ids q" "q_worker ?q1 = q_worker q"
    by (simp_all add: begin_shutdown_def completed_ids_def)
  with worker_run_stopping [of "(?q1, b)" be n] run
  have q2: "q_stopping q2" "q_pending q2 = []"
    "completed_ids q2 @ map job_session_id (held_job (q_worker q2))
       = completed_ids q @ map job_session_id (held_job (q_worker q))" by auto
  from assms run have join: "join_worker be 7 (q2, request_abort be b2) = (q', b')"
    and dropped: "dropped = map job_session_id (q_pending q)"
    by (auto simp: queue_shutdown_def begin_shutdown_def Let_def split: prod.splits)
  from join_worker_exits [of "(q2, request_abort be b2)" 7 be] join q2 exit_distance_le
  show "q_worker q' = Exited" "q_stopping q'" "q_pending q' = []"
    "completed_ids q' = completed_ids q @ map job_session_id (held_job (q_worker q))" by auto
  show "dropped = map job_session_id (q_pending q)" by (rule dropped)
qed

text \<open>
  Shutting the queue down always ends, and ends the worker. It returns exactly the ids of the
  jobs that were waiting, which never run; the job being transcribed, and only that one, still gets
  a result; afterwards nothing is outstanding, no job is accepted, the worker takes no step and
  calls no callback ever again, and a second shutdown drops nothing and changes nothing.
\<close>

theorem queue_shutdown_complete:
  assumes "queue_shutdown be n (q, b) = (dropped, q', b')"
  shows "dropped = map job_session_id (q_pending q) \<and> q_worker q' = Exited \<and> outstanding q' = [] \<and>
     map res_session_id (q_completed q') =
       map res_session_id (q_completed q) @ map job_session_id (held_job (q_worker q)) \<and>
     fst (try_enqueue job q') = None \<and> worker_step be (q', b') = ((q', b'), None) \<and>
     fst (queue_shutdown be m (q', b')) = [] \<and> fst (snd (queue_shutdown be m (q', b'))) = q'"
proof -
  note res = queue_shutdown_result [OF assms]
  have still: "begin_shutdown q' = ([], q')" using res by (simp add: begin_shutdown_def)
  have "worker_run be k (q', c) = (q', c)" for k c
    by (induction k) (simp_all add: worker_step_exited res)
  moreover have "join_worker be 7 (q', c) = (q', c)" for c
    by (simp add: numeral_eq_Suc res)
  ultimately show ?thesis
    using res
    by (simp add: queue_shutdown_def still outstanding_def try_enqueue_def worker_step_exited completed_ids_def)
qed

text \<open>The result the worker has got from the backend and not stored yet.\<close>

fun returned_result :: "'cb worker_pc \<Rightarrow> job_result list" where
  "returned_result (Storing j r) = [\<lparr>res_session_id = job_session_id j, res_result = r\<rparr>]"
| "returned_result _ = []"

context abortable_backend
begin

lemma worker_step_aborted:
  assumes "q_stopping q" and "aborted b"
  defines "q' \<equiv> fst (fst (worker_step be (q, b)))"
  shows "aborted (snd (fst (worker_step be (q, b))))"
    and "\<exists>new. q_completed q' = q_completed q @ new \<and>
           (\<forall>r \<in> set new \<union> set (returned_result (q_worker q')).
              r \<in> set (returned_result (q_worker q)) \<or> (\<exists>e. res_result r = Inr e))"
  unfolding q'_def using assms(1,2) transcribe_keeps aborted_transcribe
  by (cases "q_worker q"; auto simp: worker_step.simps queue_ops split: prod.splits option.splits; metis fst_conv snd_conv)+

lemma join_worker_aborted:
  "q_stopping (fst s) \<Longrightarrow> aborted (snd s) \<Longrightarrow>
     \<exists>new. q_completed (fst (join_worker be n s)) = q_completed (fst s) @ new \<and> aborted (snd (join_worker be n s)) \<and>
       (\<forall>r \<in> set new. r \<in> set (returned_result (q_worker (fst s))) \<or> (\<exists>e. res_result r = Inr e))"
proof (induction n arbitrary: s)
  case (Suc n)
  let ?s = "fst (worker_step be s)"
  obtain new where new: "q_completed (fst ?s) = q_completed (fst s) @ new"
    "\<forall>r \<in> set new \<union> set (returned_result (q_worker (fst ?s))).
       r \<in> set (returned_result (q_worker (fst s))) \<or> (\<exists>e. res_result r = Inr e)"
    and "aborted (snd ?s)" "q_stopping (fst ?s)"
    using worker_step_aborted [of "fst s" "snd s"] worker_step_stopping [of "fst s" be "snd s"] Suc.prems by auto
  with Suc.IH [of ?s] obtain new' where "q_completed (fst (join_worker be n ?s)) = q_completed (fst ?s) @ new'"
    "aborted (snd (join_worker be n ?s))"
    "\<forall>r \<in> set new'. r \<in> set (returned_result (q_worker (fst ?s))) \<or> (\<exists>e. res_result r = Inr e)" by blast
  with new Suc.prems show ?case
    by (cases "q_worker (fst s) = Exited") (auto intro!: exI [of _ "new @ new'"])
qed auto

lemma shutdown_aborts:
  assumes "queue_shutdown be n (q, b) = (dropped, q', b')"
    and "worker_run be n (snd (begin_shutdown q), b) = (q2, b2)"
  shows "\<exists>new. q_completed q' = q_completed q2 @ new \<and> aborted b' \<and>
           (\<forall>r \<in> set new. r \<in> set (returned_result (q_worker q2)) \<or> (\<exists>e. res_result r = Inr e))"
proof -
  have "q_stopping q2"
    using worker_run_stopping [of "(snd (begin_shutdown q), b)" be n] assms(2) by (simp add: begin_shutdown_def)
  moreover have "join_worker be 7 (q2, request_abort be b2) = (q', b')"
    using assms by (auto simp: queue_shutdown_def Let_def split: prod.splits)
  ultimately show ?thesis
    using join_worker_aborted [of "(q2, request_abort be b2)" 7] request_sets by auto
qed

end

text \<open>
  C6: an abort requested by \<^verbatim>\<open>shutdown()\<close> is never lost. Whatever the worker was doing when the
  request was made (\<open>q2\<close>), every result it stores afterwards is an error (the transcription was cut
  short), except one it had already got back from the backend by then; and the request is still in
  force when \<^verbatim>\<open>shutdown()\<close> returns: nobody cleared it on the way.
\<close>

theorem shutdown_abort_not_lost:
  assumes "queue_shutdown (whisper_vtable api) n (q, b) = (dropped, q', b')"
    and "worker_run (whisper_vtable api) n (snd (begin_shutdown q), b) = (q2, b2)"
  shows "\<exists>new. q_completed q' = q_completed q2 @ new \<and> wb_abort_requested b' \<and>
          (\<forall>r \<in> set new. r \<in> set (returned_result (q_worker q2)) \<or> (\<exists>e. res_result r = Inr e))"
  using assms by (rule whisper.shutdown_aborts)

section \<open>Witnesses\<close>

definition demo_job :: "session_id \<Rightarrow> transcription_job" where
  "demo_job i = \<lparr>job_session_id = i, job_samples = [0],
     job_request = \<lparr>req_language = ''auto'', req_initial_prompt = ''''\<rparr>, job_enqueued_at = 0\<rparr>"

definition demo_queue :: "unit transcription_queue" where
  "demo_queue = (new_queue 2)\<lparr>q_pending := [demo_job 2], q_busy := True, q_started := [1],
     q_worker := Transcribing (demo_job 1)\<rparr>"

definition demo_backend :: "nat whisper_backend" where
  "demo_backend = new_whisper_backend\<lparr>wb_ctx := Some 1\<rparr>"

lemma demo_queue_facts [simp]:
  "queue_inv demo_queue" "has_capacity demo_queue" "\<not> q_stopping demo_queue"
  "q_pending demo_queue = [demo_job 2]" "outstanding demo_queue = [demo_job 1, demo_job 2]"
  "q_completed demo_queue = []" "q_worker demo_queue = Transcribing (demo_job 1)"
  "job_session_id (demo_job i) = i"
  by (simp_all add: demo_queue_def new_queue_def queue_inv_def has_capacity_def outstanding_def demo_job_def)

theorem queue_refines_fifo_witness:
  "fst (try_enqueue (demo_job 3) demo_queue) = Some 2"
  using conjunct1 [OF queue_refines_fifo [OF demo_queue_facts(1), where j = "demo_job 3"]]
  by (auto split: prod.splits option.splits)

theorem checked_capacity_is_kept_witness:
  "\<exists>position. fst (try_enqueue (demo_job 3)
     (snd (drain_started (fst (fst (worker_step (whisper_vtable demo_api) (demo_queue, demo_backend))))))) = Some position"
  by (rule checked_capacity_is_kept [where be = "whisper_vtable demo_api", OF demo_queue_facts(2)])
     (rule converse_rtranclp_into_rtranclp, rule np_worker, rule r_into_rtranclp, rule np_started)

theorem worker_answers_all_in_order_witness:
  "map res_session_id (q_completed (fst (worker_run (whisper_vtable demo_api) 13 (demo_queue, demo_backend)))) = [1, 2]"
  using worker_answers_all_in_order [OF demo_queue_facts(1,3), of 13 "whisper_vtable demo_api" demo_backend]
  by (simp add: Let_def)

theorem queue_shutdown_complete_witness:
  "\<exists>q' b'. queue_shutdown (whisper_vtable demo_api) 0 (demo_queue, demo_backend) = ([2], q', b') \<and>
     map res_session_id (q_completed q') = [1] \<and> fst (try_enqueue (demo_job 3) q') = None"
proof -
  obtain d q' b' where eq: "queue_shutdown (whisper_vtable demo_api) 0 (demo_queue, demo_backend) = (d, q', b')"
    by (cases "queue_shutdown (whisper_vtable demo_api) 0 (demo_queue, demo_backend)")
  from queue_shutdown_complete [OF eq, of "demo_job 3" 0] eq show ?thesis by auto
qed

theorem shutdown_abort_not_lost_witness:
  "\<exists>d q' b' e. queue_shutdown (whisper_vtable demo_api) 0 (demo_queue, demo_backend) = (d, q', b') \<and>
     q_completed q' = [\<lparr>res_session_id = 1, res_result = Inr e\<rparr>] \<and> wb_abort_requested b'"
proof -
  obtain d q' b' where eq: "queue_shutdown (whisper_vtable demo_api) 0 (demo_queue, demo_backend) = (d, q', b')"
    by (cases "queue_shutdown (whisper_vtable demo_api) 0 (demo_queue, demo_backend)")
  have ids: "map res_session_id (q_completed q') = [1]"
    using queue_shutdown_result(5) [OF eq] by (simp add: completed_ids_def)
  from shutdown_abort_not_lost [OF eq] have "\<forall>r \<in> set (q_completed q'). \<exists>e. res_result r = Inr e"
    and ab: "wb_abort_requested b'" by (auto simp: begin_shutdown_def)
  with ids obtain r e where "q_completed q' = [r]" "res_session_id r = 1" "res_result r = Inr e" by auto
  with eq ab show ?thesis by (cases r) auto
qed

end
