(* ===== verification/Queue_Threads.thy ===== *)
theory Queue_Threads
  imports Transcription_Queue
begin

text \<open>
  The two threads that share the queue, interleaved: the transcription worker, and the controlling
  thread in the middle of \<^verbatim>\<open>SessionManager::poll_completed\<close> (which drains results and start notices
  under two separate locks), of \<^verbatim>\<open>LiveTranscriber::tick\<close> (which calls the backend itself), or of
  \<^verbatim>\<open>shutdown\<close>. One rule per critical section or call; the worker may step between any two of them.
  Ghost fields record the history: the ids accepted and not cancelled or dropped, the start notices
  and results already taken, and the events published so far.
\<close>

datatype owner_pc =
    OwnerIdle
  | OwnerPolling "job_result list"
  | OwnerPreview
  | OwnerStopping
  | OwnerJoining

record ('cb, 'b) threads =
  t_queue :: "'cb transcription_queue"
  t_backend :: 'b
  t_owner :: owner_pc
  t_used :: "session_id set"
  t_accepted :: "session_id list"
  t_announced :: "session_id list"
  t_delivered :: "session_id list"
  t_trace :: "event list"

text \<open>The event \<^verbatim>\<open>poll_completed\<close> publishes for a result.\<close>

definition outcome_event :: "job_result \<Rightarrow> event" where
  "outcome_event r =
     (case res_result r of
        Inl t \<Rightarrow> TranscriptionCompleted (res_session_id r) t
      | Inr (SpeechError m) \<Rightarrow> ErrorOccurred (Some (res_session_id r)) ''speech'' m)"

definition init_threads :: "nat \<Rightarrow> 'b \<Rightarrow> ('cb, 'b) threads" where
  "init_threads capacity b =
     \<lparr>t_queue = new_queue capacity, t_backend = b, t_owner = OwnerIdle, t_used = {}, t_accepted = [],
      t_announced = [], t_delivered = [], t_trace = []\<rparr>"

inductive thread_step :: "'b speech_backend \<Rightarrow> ('cb, 'b) threads \<Rightarrow> ('cb, 'b) threads \<Rightarrow> bool"
  for be :: "'b speech_backend" where
  worker: "fst (worker_step be (t_queue s, t_backend s)) = (q, b) \<Longrightarrow>
     thread_step be s (s\<lparr>t_queue := q, t_backend := b\<rparr>)"
| enqueue: "t_owner s = OwnerIdle \<Longrightarrow> job_session_id j \<notin> t_used s \<Longrightarrow>
     try_enqueue j (t_queue s) = (Some p, q) \<Longrightarrow>
     thread_step be s (s\<lparr>t_queue := q, t_used := insert (job_session_id j) (t_used s),
       t_accepted := t_accepted s @ [job_session_id j]\<rparr>)"
| cancel: "t_owner s = OwnerIdle \<Longrightarrow> cancel_pending i (t_queue s) = (True, q) \<Longrightarrow>
     thread_step be s (s\<lparr>t_queue := q, t_accepted := filter (\<lambda>k. k \<noteq> i) (t_accepted s)\<rparr>)"
| set_callback: "t_owner s = OwnerIdle \<Longrightarrow>
     thread_step be s (s\<lparr>t_queue := set_activity_callback cb (t_queue s)\<rparr>)"
| poll_results: "t_owner s = OwnerIdle \<Longrightarrow> drain_completed (t_queue s) = (rs, q) \<Longrightarrow>
     thread_step be s (s\<lparr>t_queue := q, t_owner := OwnerPolling rs\<rparr>)"
| poll_publish: "t_owner s = OwnerPolling rs \<Longrightarrow> drain_started (t_queue s) = (ids, q) \<Longrightarrow>
     thread_step be s (s\<lparr>t_queue := q, t_owner := OwnerIdle, t_announced := t_announced s @ ids,
       t_delivered := t_delivered s @ map res_session_id rs,
       t_trace := t_trace s @ map TranscriptionStarted ids @ map outcome_event rs\<rparr>)"
| preview_enter: "t_owner s = OwnerIdle \<Longrightarrow> outstanding_count (t_queue s) = 0 \<Longrightarrow>
     thread_step be s (s\<lparr>t_owner := OwnerPreview\<rparr>)"
| preview_return: "t_owner s = OwnerPreview \<Longrightarrow>
     thread_step be s (s\<lparr>t_owner := OwnerIdle, t_backend := snd (transcribe_partial be (t_backend s) xs req)\<rparr>)"
| shutdown_begin: "t_owner s = OwnerIdle \<Longrightarrow> begin_shutdown (t_queue s) = (dropped, q) \<Longrightarrow>
     thread_step be s (s\<lparr>t_queue := q, t_owner := OwnerStopping,
       t_accepted := filter (\<lambda>k. k \<notin> set dropped) (t_accepted s)\<rparr>)"
| shutdown_abort: "t_owner s = OwnerStopping \<Longrightarrow>
     thread_step be s (s\<lparr>t_owner := OwnerJoining, t_backend := request_abort be (t_backend s)\<rparr>)"
| shutdown_join: "t_owner s = OwnerJoining \<Longrightarrow> q_worker (t_queue s) = Exited \<Longrightarrow>
     thread_step be s (s\<lparr>t_owner := OwnerIdle\<rparr>)"

inductive threads_reachable :: "'b speech_backend \<Rightarrow> nat \<Rightarrow> 'b \<Rightarrow> ('cb, 'b) threads \<Rightarrow> bool"
  for be :: "'b speech_backend" and capacity :: nat and b :: 'b where
  start: "threads_reachable be capacity b (init_threads capacity b)"
| step: "threads_reachable be capacity b s \<Longrightarrow> thread_step be s s' \<Longrightarrow> threads_reachable be capacity b s'"

section \<open>What is published, in order\<close>

definition starts :: "event list \<Rightarrow> session_id set" where
  "starts tr = {i. TranscriptionStarted i \<in> set tr}"

fun outcome_of :: "event \<Rightarrow> session_id option" where
  "outcome_of (TranscriptionCompleted i _) = Some i"
| "outcome_of (ErrorOccurred i _ _) = i"
| "outcome_of _ = None"

definition outcomes :: "event list \<Rightarrow> session_id list" where
  "outcomes tr = List.map_filter outcome_of tr"

definition well_announced :: "event list \<Rightarrow> bool" where
  "well_announced tr \<longleftrightarrow> (\<forall>k < length tr. \<forall>i. outcome_of (tr ! k) = Some i \<longrightarrow> i \<in> starts (take k tr))"

lemma starts_simps [simp]:
  "starts [] = {}" "starts (xs @ ys) = starts xs \<union> starts ys"
  "starts (map TranscriptionStarted ids) = set ids" "starts (map outcome_event rs) = {}"
  by (auto simp: starts_def outcome_event_def split: sum.splits speech_error.splits)

lemma outcome_of_outcome_event [simp]: "outcome_of (outcome_event r) = Some (res_session_id r)"
  by (simp add: outcome_event_def split: sum.splits speech_error.splits)

lemma outcomes_simps [simp]:
  "outcomes [] = []" "outcomes (xs @ ys) = outcomes xs @ outcomes ys"
  "outcomes (map TranscriptionStarted ids) = []"
  "outcomes (map outcome_event rs) = map res_session_id rs"
proof -
  show "outcomes (map TranscriptionStarted ids) = []"
    by (induction ids) (simp_all add: outcomes_def map_filter_simps)
  show "outcomes (map outcome_event rs) = map res_session_id rs"
    by (induction rs) (simp_all add: outcomes_def map_filter_simps)
qed (simp_all add: outcomes_def map_filter_def)

lemma all_less_append:
  "(\<forall>k < length (xs @ ys). Q k) \<longleftrightarrow> (\<forall>k < length xs. Q k) \<and> (\<forall>k < length ys. Q (length xs + k))"
proof
  assume R: "(\<forall>k < length xs. Q k) \<and> (\<forall>k < length ys. Q (length xs + k))"
  show "\<forall>k < length (xs @ ys). Q k"
  proof (intro allI impI)
    fix k assume "k < length (xs @ ys)"
    with R show "Q k"
      by (cases "k < length xs") (auto dest: spec [of _ "k - length xs"])
  qed
qed auto

lemma well_announced_append:
  "well_announced (xs @ ys) \<longleftrightarrow>
     well_announced xs \<and> (\<forall>k < length ys. \<forall>i. outcome_of (ys ! k) = Some i \<longrightarrow> i \<in> starts xs \<union> starts (take k ys))"
  unfolding well_announced_def all_less_append by (simp add: nth_append)

lemma well_announced_round:
  assumes "well_announced tr" and "set (map res_session_id rs) \<subseteq> starts tr \<union> set ids"
  shows "well_announced (tr @ map TranscriptionStarted ids @ map outcome_event rs)"
proof -
  have "well_announced (tr @ map TranscriptionStarted ids)"
    using assms(1) by (simp add: well_announced_append)
  moreover have "res_session_id (rs ! k) \<in> starts tr \<union> set ids" if "k < length rs" for k
    using assms(2) nth_mem [OF that] by auto
  ultimately show ?thesis
    unfolding append_assoc [symmetric] by (subst well_announced_append) auto
qed

section \<open>The invariant\<close>

fun owner_results :: "owner_pc \<Rightarrow> session_id list" where
  "owner_results (OwnerPolling rs) = map res_session_id rs"
| "owner_results _ = []"

abbreviation held_ids :: "'cb transcription_queue \<Rightarrow> session_id list" where
  "held_ids q \<equiv> map job_session_id (held_job (q_worker q))"

abbreviation pending_ids :: "'cb transcription_queue \<Rightarrow> session_id list" where
  "pending_ids q \<equiv> map job_session_id (q_pending q)"

text \<open>The ids answered or being answered, in order: taken, on their way out, stored, held.\<close>

definition answered :: "('cb, 'b) threads \<Rightarrow> session_id list" where
  "answered s = t_delivered s @ owner_results (t_owner s) @ completed_ids (t_queue s) @ held_ids (t_queue s)"

definition order_inv :: "('cb, 'b) threads \<Rightarrow> bool" where
  "order_inv s \<longleftrightarrow>
     t_announced s @ q_started (t_queue s) = answered s \<and>
     t_accepted s = answered s @ pending_ids (t_queue s)"

definition fresh_inv :: "('cb, 'b) threads \<Rightarrow> bool" where
  "fresh_inv s \<longleftrightarrow> distinct (t_accepted s) \<and> set (t_accepted s) \<subseteq> t_used s"

definition trace_inv :: "('cb, 'b) threads \<Rightarrow> bool" where
  "trace_inv s \<longleftrightarrow> well_announced (t_trace s) \<and> starts (t_trace s) = set (t_announced s) \<and>
     outcomes (t_trace s) = t_delivered s"

definition preview_inv :: "('cb, 'b) threads \<Rightarrow> bool" where
  "preview_inv s \<longleftrightarrow> queue_inv (t_queue s) \<and> (t_owner s = OwnerPreview \<longrightarrow> outstanding (t_queue s) = []) \<and>
     (t_owner s = OwnerStopping \<or> t_owner s = OwnerJoining \<longrightarrow> q_stopping (t_queue s))"

lemmas thread_invs = order_inv_def fresh_inv_def trace_inv_def preview_inv_def

lemma worker_step_history:
  fixes be :: "'b speech_backend" and b :: 'b
  assumes "queue_inv q"
  defines "q' \<equiv> fst (fst (worker_step be (q, b)))"
  shows "\<exists>new. q_started q' = q_started q @ new \<and>
           completed_ids q' @ held_ids q' = completed_ids q @ held_ids q @ new \<and>
           pending_ids q = new @ pending_ids q'"
  unfolding q'_def
  by (cases "q_worker q")
     (auto simp: worker_step.simps completed_ids_def queue_ops split: prod.splits list.splits option.splits)

lemma threads_init: "order_inv (init_threads c b)" "fresh_inv (init_threads c b)" "trace_inv (init_threads c b)" "preview_inv (init_threads c b)"
  by (simp_all add: thread_invs init_threads_def answered_def new_queue_def completed_ids_def well_announced_def
        queue_inv_def)

lemma preview_step:
  assumes "thread_step be s s'" and "preview_inv s"
  shows "preview_inv s'"
  using assms
proof (induction rule: thread_step.induct)
  case (worker s q b)
  let ?q = "fst (fst (worker_step be (t_queue s, t_backend s)))"
  have q: "q = ?q" using worker.hyps by simp
  have "queue_inv ?q" using worker.prems by (auto simp: preview_inv_def queue_inv_worker)
  moreover have "outstanding ?q = []" if "outstanding (t_queue s) = []"
    using that
    by (cases "q_worker (t_queue s)")
       (auto simp: worker_step.simps outstanding_def queue_ops split: list.splits option.splits)
  moreover have "q_stopping ?q" if "q_stopping (t_queue s)"
    using that by (rule worker_step_stopping(1))
  ultimately show ?case using worker.prems by (auto simp: preview_inv_def q)
next
  case (enqueue s j p q)
  then show ?case using queue_inv_enqueue [of "t_queue s" j] by (simp add: preview_inv_def)
next
  case (cancel s i q)
  then show ?case using queue_inv_cancel [of "t_queue s" i] by (simp add: preview_inv_def)
next
  case (poll_results s rs q)
  then show ?case using queue_inv_drain(2) [of "t_queue s"] by (simp add: preview_inv_def)
next
  case (poll_publish s rs ids q)
  then show ?case using queue_inv_drain(1) [of "t_queue s"] by (simp add: preview_inv_def)
next
  case (preview_enter s)
  then show ?case using outstanding_count_length [of "t_queue s"] by (simp add: preview_inv_def)
next
  case (shutdown_begin s dropped q)
  then show ?case using queue_inv_begin_shutdown [of "t_queue s"]
    by (auto simp: preview_inv_def begin_shutdown_def)
qed (simp_all add: preview_inv_def queue_inv_callback)

lemma filter_neq: "i \<notin> set xs \<Longrightarrow> filter (\<lambda>k. k \<noteq> i) xs = xs"
  by (auto intro: filter_True)

lemma filter_distinct_drop:
  assumes "distinct (xs @ ys)" and "erased = filter (\<lambda>k. k \<notin> D) ys" and "D \<subseteq> set ys"
  shows "filter (\<lambda>k. k \<notin> D) (xs @ ys) = xs @ erased"
proof -
  have "filter (\<lambda>k. k \<notin> D) xs = xs"
    using assms by (auto intro!: filter_True)
  with assms(2) show ?thesis by simp
qed

lemma fresh_step: "thread_step be s s' \<Longrightarrow> fresh_inv s \<Longrightarrow> fresh_inv s'"
  by (induction rule: thread_step.induct) (auto simp: fresh_inv_def)

lemma order_step:
  assumes "thread_step be s s'" and "order_inv s" and "fresh_inv s" and "preview_inv s"
  shows "order_inv s'"
  using assms
proof (induction rule: thread_step.induct)
  case (worker s q b)
  have q: "q = fst (fst (worker_step be (t_queue s, t_backend s)))" using worker.hyps by simp
  from worker.prems worker_step_history [of "t_queue s" be "t_backend s"]
  obtain new where "q_started q = q_started (t_queue s) @ new"
    "completed_ids q @ held_ids q = completed_ids (t_queue s) @ held_ids (t_queue s) @ new"
    "pending_ids (t_queue s) = new @ pending_ids q"
    unfolding q [symmetric] preview_inv_def by auto
  with worker.prems(1) show ?case by (simp add: order_inv_def answered_def)
next
  case (enqueue s j p q)
  then have "q = (t_queue s)\<lparr>q_pending := q_pending (t_queue s) @ [j]\<rparr>"
    by (auto simp: try_enqueue_def split: if_splits)
  with enqueue.prems show ?case by (simp add: order_inv_def answered_def completed_ids_def)
next
  case (cancel s i q)
  then obtain before j after where p: "q_pending (t_queue s) = before @ j # after" "job_session_id j = i"
    and q: "q = (t_queue s)\<lparr>q_pending := before @ after\<rparr>"
    by (auto simp: cancel_pending_def erase_job_Some split: option.splits)
  have acc: "t_accepted s = answered s @ pending_ids (t_queue s)" and dist: "distinct (t_accepted s)"
    using cancel.prems by (auto simp: order_inv_def fresh_inv_def)
  then have "i \<notin> set (answered s)" "i \<notin> set (map job_session_id before)" "i \<notin> set (map job_session_id after)"
    by (auto simp: p)
  then have "filter (\<lambda>k. k \<noteq> i) (t_accepted s) = answered s @ pending_ids q"
    unfolding acc p(1) q by (simp add: filter_neq p(2))
  with cancel.prems(1) show ?case by (simp add: order_inv_def answered_def q completed_ids_def)
next
  case (shutdown_begin s dropped q)
  have acc: "t_accepted s = answered s @ pending_ids (t_queue s)" and dist: "distinct (t_accepted s)"
    using shutdown_begin.prems by (auto simp: order_inv_def fresh_inv_def)
  have d: "dropped = pending_ids (t_queue s)" and q: "q = (t_queue s)\<lparr>q_stopping := True, q_pending := []\<rparr>"
    using shutdown_begin.hyps by (auto simp: begin_shutdown_def)
  have "filter (\<lambda>k. k \<notin> set dropped) (answered s @ pending_ids (t_queue s)) = answered s @ []"
    by (rule filter_distinct_drop) (use acc dist d in \<open>auto simp: filter_empty_conv\<close>)
  with acc have "filter (\<lambda>k. k \<notin> set dropped) (t_accepted s) = answered s" by simp
  with shutdown_begin show ?case by (simp add: order_inv_def answered_def q completed_ids_def)
qed (auto simp: order_inv_def answered_def queue_ops completed_ids_def)

lemma trace_step:
  assumes "thread_step be s s'" and "trace_inv s" and "order_inv s"
  shows "trace_inv s'"
  using assms
proof (induction rule: thread_step.induct)
  case (poll_publish s rs ids q)
  have ids: "ids = q_started (t_queue s)" using poll_publish.hyps by (simp add: drain_started_def)
  have "t_announced s @ ids = answered s" using poll_publish.prems by (simp add: order_inv_def ids)
  then have "set (map res_session_id rs) \<subseteq> set (t_announced s) \<union> set ids"
    using poll_publish.hyps by (metis Un_iff answered_def owner_results.simps(1) set_append subsetI)
  with poll_publish.prems show ?case
    using well_announced_round [of "t_trace s" rs ids] by (auto simp: trace_inv_def)
qed (simp_all add: trace_inv_def)

lemma reachable_invs:
  "threads_reachable be c b s \<Longrightarrow> order_inv s \<and> fresh_inv s \<and> trace_inv s \<and> preview_inv s"
proof (induction rule: threads_reachable.induct)
  case start
  show ?case by (simp add: threads_init)
next
  case (step s s')
  then show ?case by (auto intro: order_step fresh_step trace_step preview_step)
qed

section \<open>Theorems\<close>

text \<open>
  Whatever the interleaving of the worker with the controlling thread, a job's
  TranscriptionStarted is published before its result (TranscriptionCompleted, or the ErrorOccurred
  that carries its id). This is what draining the results before the start notices buys.
\<close>

theorem started_before_completed:
  assumes "threads_reachable be capacity b s"
    and "t_trace s = earlier @ ev # later" and "outcome_of ev = Some i"
  shows "TranscriptionStarted i \<in> set earlier"
proof -
  from reachable_invs [OF assms(1)] have "well_announced (t_trace s)" by (simp add: trace_inv_def)
  then have "i \<in> starts (take (length earlier) (t_trace s))"
    using assms(2,3) unfolding well_announced_def by (metis length_append length_Cons less_add_Suc1 nth_append_length add_Suc_right)
  with assms(2) show ?thesis by (simp add: starts_def)
qed

text \<open>
  C5: no result is lost, duplicated or reordered. In every reachable state the results published
  so far are, in order, exactly the first accepted jobs (those not cancelled or dropped at
  shutdown), each once; the remaining accepted jobs are the ones drained but not yet published,
  stored, being transcribed, and waiting, in that order.
\<close>

theorem results_fifo_exactly_once:
  assumes "threads_reachable be capacity b s"
  shows "t_accepted s = outcomes (t_trace s) @ owner_results (t_owner s) @ completed_ids (t_queue s) @
           map job_session_id (outstanding (t_queue s)) \<and> distinct (t_accepted s)"
proof
  show "distinct (t_accepted s)" using reachable_invs [OF assms] by (simp add: fresh_inv_def)
qed (use reachable_invs [OF assms] in \<open>simp add: order_inv_def trace_inv_def answered_def outstanding_def\<close>)

text \<open>
  C25: the whisper context is never used by two threads at once. While the live preview is inside
  the backend on the controlling thread, the worker holds no job, has none to take, and is not
  inside \<^verbatim>\<open>transcribe\<close>.
\<close>

theorem backend_mutual_exclusion:
  assumes "threads_reachable be capacity b s" and "t_owner s = OwnerPreview"
  shows "outstanding (t_queue s) = [] \<and> (\<forall>job. q_worker (t_queue s) \<noteq> Transcribing job)"
  using reachable_invs [OF assms(1)] assms(2) by (auto simp: preview_inv_def outstanding_def)

text \<open>
  The queue never holds more waiting jobs than its capacity.
\<close>

lemma worker_step_capacity: "q_capacity (fst (fst (worker_step be (q, b)))) = q_capacity q"
  by (cases "q_worker q") (auto simp: worker_step.simps queue_ops split: prod.splits list.splits option.splits)

lemma capacity_step: "thread_step be s s' \<Longrightarrow> q_capacity (t_queue s') = q_capacity (t_queue s)"
proof (induction rule: thread_step.induct)
  case (worker s q b)
  then show ?case using worker_step_capacity [of be "t_queue s" "t_backend s"] by simp
qed (auto simp: queue_ops split: if_splits option.splits)

lemma waiting_bounded: "threads_reachable be c b s \<Longrightarrow> length (q_pending (t_queue s)) \<le> c"
proof -
  assume r: "threads_reachable be c b s"
  then have "q_capacity (t_queue s) = c"
    by (induction rule: threads_reachable.induct) (simp_all add: init_threads_def new_queue_def capacity_step)
  with reachable_invs [OF r] show ?thesis by (auto simp: preview_inv_def queue_inv_def)
qed

section \<open>Witnesses\<close>

text \<open>A run with one job: enqueued, transcribed, and its result published by one poll.\<close>

lemma thread_step_worker:
  "thread_step be s (s\<lparr>t_queue := fst (fst (worker_step be (t_queue s, t_backend s))),
                      t_backend := snd (fst (worker_step be (t_queue s, t_backend s)))\<rparr>)"
  by (rule worker) simp

fun worker_moves :: "'b speech_backend \<Rightarrow> nat \<Rightarrow> ('cb, 'b) threads \<Rightarrow> ('cb, 'b) threads" where
  "worker_moves be 0 s = s"
| "worker_moves be (Suc n) s =
     worker_moves be n (s\<lparr>t_queue := fst (fst (worker_step be (t_queue s, t_backend s))),
                         t_backend := snd (fst (worker_step be (t_queue s, t_backend s)))\<rparr>)"

lemma reachable_worker_moves:
  "threads_reachable be c b s \<Longrightarrow> threads_reachable be c b (worker_moves be n s)"
  by (induction n arbitrary: s) (auto intro: threads_reachable.step thread_step_worker)

definition demo_enqueued :: "(unit, nat whisper_backend) threads" where
  "demo_enqueued = (init_threads 2 demo_backend)\<lparr>t_queue := snd (try_enqueue (demo_job 1) (new_queue 2)),
     t_used := {1}, t_accepted := [1]\<rparr>"

definition demo_done :: "(unit, nat whisper_backend) threads" where
  "demo_done = worker_moves (whisper_vtable demo_api) 4 demo_enqueued"

definition demo_polling :: "(unit, nat whisper_backend) threads" where
  "demo_polling = demo_done\<lparr>t_queue := snd (drain_completed (t_queue demo_done)),
     t_owner := OwnerPolling (fst (drain_completed (t_queue demo_done)))\<rparr>"

definition demo_polled :: "(unit, nat whisper_backend) threads" where
  "demo_polled =
     (let rs = fst (drain_completed (t_queue demo_done)); ids = fst (drain_started (t_queue demo_polling))
      in demo_polling\<lparr>t_queue := snd (drain_started (t_queue demo_polling)), t_owner := OwnerIdle,
           t_announced := t_announced demo_polling @ ids,
           t_delivered := t_delivered demo_polling @ map res_session_id rs,
           t_trace := t_trace demo_polling @ map TranscriptionStarted ids @ map outcome_event rs\<rparr>)"

lemma demo_enqueued_reachable: "threads_reachable (whisper_vtable demo_api) 2 demo_backend demo_enqueued"
proof -
  let ?s = "init_threads 2 demo_backend :: (unit, nat whisper_backend) threads"
  have "thread_step (whisper_vtable demo_api) ?s
    (?s\<lparr>t_queue := snd (try_enqueue (demo_job 1) (new_queue 2)), t_used := insert (job_session_id (demo_job 1)) (t_used ?s),
        t_accepted := t_accepted ?s @ [job_session_id (demo_job 1)]\<rparr>)"
    by (rule enqueue [where p = 0]) (simp_all add: init_threads_def try_enqueue_def new_queue_def)
  then have "thread_step (whisper_vtable demo_api) ?s demo_enqueued"
    by (simp add: demo_enqueued_def init_threads_def)
  then show ?thesis by (rule threads_reachable.step [OF threads_reachable.start])
qed

lemma worker_moves_owner: "t_owner (worker_moves be n s) = t_owner s"
  by (induction n arbitrary: s) simp_all

lemma demo_polled_reachable: "threads_reachable (whisper_vtable demo_api) 2 demo_backend demo_polled"
proof -
  let ?be = "whisper_vtable demo_api"
  have "threads_reachable ?be 2 demo_backend demo_done"
    unfolding demo_done_def by (rule reachable_worker_moves) (rule demo_enqueued_reachable)
  moreover have "thread_step ?be demo_done demo_polling"
    unfolding demo_polling_def
    by (rule poll_results) (simp_all add: demo_done_def worker_moves_owner demo_enqueued_def init_threads_def)
  ultimately have "threads_reachable ?be 2 demo_backend demo_polling" by (rule threads_reachable.step)
  moreover have "thread_step ?be demo_polling demo_polled"
    unfolding demo_polled_def Let_def by (rule poll_publish) (simp_all add: demo_polling_def)
  ultimately show ?thesis by (rule threads_reachable.step)
qed

lemma demo_polled_trace:
  "\<exists>t. t_trace demo_polled = [TranscriptionStarted 1, TranscriptionCompleted 1 t]"
  by (simp add: demo_polled_def demo_polling_def demo_done_def demo_enqueued_def init_threads_def new_queue_def
      nat_four worker_step.simps queue_ops whisper_defs demo_backend_def new_whisper_backend_def
      demo_api_def demo_job_def outcome_event_def)

theorem started_before_completed_witness:
  "\<exists>t. t_trace demo_polled = [TranscriptionStarted 1] @ TranscriptionCompleted 1 t # [] \<and>
       TranscriptionStarted 1 \<in> set [TranscriptionStarted 1]"
proof -
  obtain t where tr: "t_trace demo_polled = [TranscriptionStarted 1] @ TranscriptionCompleted 1 t # []"
    using demo_polled_trace by auto
  have "TranscriptionStarted 1 \<in> set [TranscriptionStarted 1]"
    by (rule started_before_completed [OF demo_polled_reachable tr]) simp
  with tr show ?thesis by blast
qed

theorem results_fifo_exactly_once_witness: "t_accepted demo_enqueued = [1] \<and> outstanding (t_queue demo_enqueued) = [demo_job 1]"
  using results_fifo_exactly_once [OF demo_enqueued_reachable]
  by (simp add: demo_enqueued_def init_threads_def new_queue_def try_enqueue_def outstanding_def)

theorem backend_mutual_exclusion_witness:
  "outstanding (t_queue ((init_threads 2 demo_backend :: (unit, nat whisper_backend) threads)\<lparr>t_owner := OwnerPreview\<rparr>)) = []"
proof -
  let ?s = "init_threads 2 demo_backend :: (unit, nat whisper_backend) threads"
  have "thread_step (whisper_vtable demo_api) ?s (?s\<lparr>t_owner := OwnerPreview\<rparr>)"
    by (rule preview_enter) (simp_all add: init_threads_def new_queue_def outstanding_count_def)
  then have "threads_reachable (whisper_vtable demo_api) 2 demo_backend (?s\<lparr>t_owner := OwnerPreview\<rparr>)"
    by (rule threads_reachable.step [OF threads_reachable.start])
  from backend_mutual_exclusion [OF this] show ?thesis by simp
qed

end
