(* ===== verification/Session_State.thy ===== *)
theory Session_State
  imports Domain_Model
begin

text \<open>
  The two state machines of the session domain: one session's lifecycle
  (\<^verbatim>\<open>src/domains/session/session.cpp\<close>) and the service's states
  (\<^verbatim>\<open>src/domains/session/service_state.cpp\<close>), with the status snapshot of
  \<^verbatim>\<open>session_status.hpp\<close>. The overloaded C++ name \<^verbatim>\<open>can_transition\<close> is split in two.
\<close>

section \<open>Sessions\<close>

datatype session_state = Created | SessRecording | SessProcessing | Completed | Failed

fun session_can_transition :: "session_state \<Rightarrow> session_state \<Rightarrow> bool" where
  "session_can_transition Created to = (to = SessRecording)"
| "session_can_transition SessRecording to = (to = SessProcessing \<or> to = Failed)"
| "session_can_transition SessProcessing to = (to = Completed \<or> to = Failed)"
| "session_can_transition Completed to = False"
| "session_can_transition Failed to = False"

record session =
  sess_id :: session_id
  sess_state :: session_state
  created_at :: time_point
  finished_at :: "time_point option"

definition new_session :: "session_id \<Rightarrow> time_point \<Rightarrow> session" where
  "new_session i t = \<lparr>sess_id = i, sess_state = Created, created_at = t, finished_at = None\<rparr>"

definition try_transition :: "session_state \<Rightarrow> time_point \<Rightarrow> session \<Rightarrow> bool \<times> session" where
  "try_transition next when s =
     (if \<not> session_can_transition (sess_state s) next then (False, s)
      else let s' = s\<lparr>sess_state := next\<rparr>
           in (True, if next = Completed \<or> next = Failed then s'\<lparr>finished_at := Some when\<rparr> else s'))"

section \<open>Service states\<close>

datatype service_state = Idle | Recording | Processing | ErrorState

fun service_can_transition :: "service_state \<Rightarrow> service_state \<Rightarrow> bool" where
  "service_can_transition Idle to = (to = Recording)"
| "service_can_transition Recording to = (to = Processing \<or> to = Idle \<or> to = ErrorState)"
| "service_can_transition Processing to = (to = Idle \<or> to = ErrorState)"
| "service_can_transition ErrorState to = (to = Idle)"

record queued_job =
  qj_session_id :: session_id
  qj_position :: nat

record session_status =
  st_state :: service_state
  st_queued :: nat
  st_processing :: bool
  st_last_completed :: "session_id option"
  st_last_failed :: "session_id option"

section \<open>Lifecycle of one session\<close>

definition terminal :: "session_state \<Rightarrow> bool" where
  "terminal st \<longleftrightarrow> st = Completed \<or> st = Failed"

definition session_wf :: "session \<Rightarrow> bool" where
  "session_wf s \<longleftrightarrow> (finished_at s \<noteq> None \<longleftrightarrow> terminal (sess_state s))"

fun progress :: "session_state \<Rightarrow> nat" where
  "progress Created = 0" | "progress SessRecording = 1" | "progress SessProcessing = 2"
| "progress Completed = 3" | "progress Failed = 3"

definition run_transitions :: "(session_state \<times> time_point) list \<Rightarrow> session \<Rightarrow> session" where
  "run_transitions ts s = fold (\<lambda>(next, when) s. snd (try_transition next when s)) ts s"

lemma session_wf_new [simp]: "session_wf (new_session i t)"
  by (simp add: session_wf_def new_session_def terminal_def)

lemma new_session_fields [simp]:
  "sess_id (new_session i t) = i" "created_at (new_session i t) = t"
  "sess_state (new_session i t) = Created" "finished_at (new_session i t) = None"
  by (simp_all add: new_session_def)

lemma session_can_transition_progress: "session_can_transition a b \<Longrightarrow> progress a < progress b"
  by (cases a; cases b) auto

lemma session_wf_try: "session_wf s \<Longrightarrow> session_wf (snd (try_transition nxt w s))"
  by (cases "sess_state s") (auto simp: session_wf_def try_transition_def terminal_def Let_def)

lemma try_transition_id [simp, yoru_frame]: "sess_id (snd (try_transition nxt w s)) = sess_id s"
  by (simp add: try_transition_def Let_def)

lemma try_transition_created [simp, yoru_frame]:
  "created_at (snd (try_transition nxt w s)) = created_at s"
  by (simp add: try_transition_def Let_def)

lemma terminal_stuck: "terminal (sess_state s) \<Longrightarrow> try_transition nxt w s = (False, s)"
  by (cases "sess_state s") (auto simp: try_transition_def terminal_def)

text \<open>
  Whatever transitions are attempted on a session, in any order, it keeps its identity and
  creation time; it has a finish time exactly when it is Completed or Failed; and once it is, no
  attempt changes anything again.
\<close>

theorem session_lifecycle:
  "let s = run_transitions ts (new_session i t) in
     sess_id s = i \<and> created_at s = t \<and>
     (finished_at s \<noteq> None \<longleftrightarrow> terminal (sess_state s)) \<and>
     (terminal (sess_state s) \<longrightarrow> run_transitions ts' s = s)"
proof -
  have keep: "sess_id (run_transitions ts s) = sess_id s \<and> created_at (run_transitions ts s) = created_at s \<and>
      (session_wf s \<longrightarrow> session_wf (run_transitions ts s))" for ts s
    by (induction ts arbitrary: s) (auto simp: run_transitions_def session_wf_try)
  have stuck: "terminal (sess_state s) \<Longrightarrow> run_transitions ts' s = s" for s
    by (induction ts') (auto simp: run_transitions_def terminal_stuck)
  let ?s = "run_transitions ts (new_session i t)"
  from keep [of ts "new_session i t"] have "sess_id ?s = i" "created_at ?s = t" "session_wf ?s"
    by simp_all
  then show ?thesis using stuck by (auto simp: session_wf_def Let_def)
qed

theorem session_lifecycle_witness:
  "run_transitions [(Completed, 9)]
     (run_transitions [(SessRecording, 1), (Failed, 2)] (new_session 7 0)) =
   run_transitions [(SessRecording, 1), (Failed, 2)] (new_session 7 0)"
  using session_lifecycle [of "[(SessRecording, 1), (Failed, 2)]" 7 0 "[(Completed, 9)]"]
  by (simp add: Let_def terminal_def run_transitions_def try_transition_def new_session_def)

text \<open>No state of either machine has a transition to itself, and every path of a session ends.\<close>

lemma no_self_transition: "\<not> session_can_transition s s" "\<not> service_can_transition t t"
  by (cases s; simp)+ (cases t; simp)

end
