(* ===== verification/Audio_Capture.thy ===== *)
theory Audio_Capture
  imports Domain_Model
begin

text \<open>
  The audio domain: \<^verbatim>\<open>CaptureDevice\<close> (\<^verbatim>\<open>capture_device.cpp\<close>), the wrapper around a miniaudio
  device, and \<^verbatim>\<open>RecordingManager\<close> (\<^verbatim>\<open>recording_manager.cpp\<close>), which accumulates one recording at
  a time. miniaudio is not part of the repository: whether \<^verbatim>\<open>ma_device_init\<close> and
  \<^verbatim>\<open>ma_device_start\<close> succeed is an argument (\<open>open_outcome\<close>), and what its threads do to us are
  steps (\<open>audio_step\<close>): deliver a buffer, or report that the device stopped. Two ghost fields record
  the facts the code is about: how many miniaudio devices are initialised and not yet released, and
  whether the hardware is streaming.
\<close>

section \<open>Capture device\<close>

datatype capture_error = CaptureError string

record capture_device =
  dev_has_callback :: bool
  dev_running :: bool
  dev_initialized :: bool
  dev_live :: nat        \<comment> \<open>ghost: devices initialised and not released\<close>
  dev_streaming :: bool  \<comment> \<open>ghost: the hardware delivers audio\<close>

record open_outcome =
  ma_init_ok :: bool
  ma_start_ok :: bool
  stopped_early :: "sample list option"
    \<comment> \<open>a stop notification arrives before \<open>running = true\<close>, after these samples were delivered\<close>

definition new_device :: capture_device where
  "new_device = \<lparr>dev_has_callback = True, dev_running = False, dev_initialized = False,
     dev_live = 0, dev_streaming = False\<rparr>"

definition ma_device_uninit :: "capture_device \<Rightarrow> capture_device" where
  "ma_device_uninit d = d\<lparr>dev_live := dev_live d - 1, dev_streaming := False, dev_running := False\<rparr>"

definition device_start :: "open_outcome \<Rightarrow> capture_device \<Rightarrow> capture_error option \<times> capture_device" where
  "device_start env d =
     (if dev_running d then (None, d)
      else if \<not> dev_has_callback d then (Some (CaptureError ''capture callback is not set''), d)
      else let d1 = (if dev_initialized d then (ma_device_uninit d)\<lparr>dev_initialized := False\<rparr> else d)
           in if \<not> ma_init_ok env
              then (Some (CaptureError ''failed to open the default capture device''), d1)
              else let d2 = d1\<lparr>dev_live := dev_live d1 + 1, dev_initialized := True\<rparr>
                   in if \<not> ma_start_ok env
                      then (Some (CaptureError ''failed to start the capture device''),
                            (ma_device_uninit d2)\<lparr>dev_initialized := False\<rparr>)
                      else (None, d2\<lparr>dev_streaming := (stopped_early env = None), dev_running := True\<rparr>))"

definition device_stop :: "capture_device \<Rightarrow> capture_device" where
  "device_stop d =
     (if \<not> dev_initialized d then d
      else (ma_device_uninit d)\<lparr>dev_initialized := False, dev_running := False\<rparr>)"

datatype notification_type = NotifyStarted | NotifyStopped | NotifyRerouted

definition handle_device_notification :: "notification_type \<Rightarrow> capture_device \<Rightarrow> capture_device" where
  "handle_device_notification n d = (if n \<noteq> NotifyStopped then d else d\<lparr>dev_running := False\<rparr>)"

section \<open>Recording manager\<close>

datatype recording_error = RecordingError string

record recording_manager =
  rm_device :: capture_device
  rm_samples :: "sample list"
  rm_active :: "session_id option"

definition new_recording_manager :: recording_manager where
  "new_recording_manager = \<lparr>rm_device = new_device, rm_samples = [], rm_active = None\<rparr>"

definition on_samples :: "sample list \<Rightarrow> recording_manager \<Rightarrow> recording_manager" where
  "on_samples xs rm = rm\<lparr>rm_samples := rm_samples rm @ xs\<rparr>"

text \<open>An exception of the callback (allocation failure) is swallowed: the buffer is dropped.\<close>

definition forward_captured_samples ::
  "bool \<Rightarrow> sample list \<Rightarrow> recording_manager \<Rightarrow> recording_manager" where
  "forward_captured_samples throws xs rm = (if throws then rm else on_samples xs rm)"

definition rm_start ::
  "(event, 'w) publisher \<Rightarrow> open_outcome \<Rightarrow> session_id \<Rightarrow> recording_manager \<Rightarrow> 'w \<Rightarrow>
   recording_error option \<times> recording_manager \<times> 'w" where
  "rm_start pub env sid rm w =
     (if rm_active rm \<noteq> None then (Some (RecordingError ''a recording is already in progress''), rm, w)
      else let rm1 = rm\<lparr>rm_samples := []\<rparr>;
               (err, d) = device_start env (rm_device rm1);
               rm2 = rm1\<lparr>rm_device := d\<rparr>
           in case err of
                Some (CaptureError m) \<Rightarrow> (Some (RecordingError m), rm2, w)
              | None \<Rightarrow>
                  let rm3 = (case stopped_early env of Some xs \<Rightarrow> on_samples xs rm2 | None \<Rightarrow> rm2)
                  in (None, rm3\<lparr>rm_active := Some sid\<rparr>, pub (RecordingStarted sid) w))"

datatype audio_step = Captured bool "sample list" | DeviceNotified notification_type

text \<open>
  What miniaudio's threads do between two calls of the controlling thread. Buffers arrive only while
  the hardware streams; a stop notification means that it no longer does.
\<close>

fun audio_step_exec :: "audio_step \<Rightarrow> recording_manager \<Rightarrow> recording_manager" where
  "audio_step_exec (Captured throws xs) rm =
     (if dev_streaming (rm_device rm) then forward_captured_samples throws xs rm else rm)"
| "audio_step_exec (DeviceNotified n) rm =
     rm\<lparr>rm_device := (handle_device_notification n (rm_device rm))
           \<lparr>dev_streaming := dev_streaming (rm_device rm) \<and> n \<noteq> NotifyStopped\<rparr>\<rparr>"

definition audio_steps :: "audio_step list \<Rightarrow> recording_manager \<Rightarrow> recording_manager" where
  "audio_steps as rm = fold audio_step_exec as rm"

text \<open>
  \<open>late\<close> is what the audio threads do between the \<^verbatim>\<open>is_running()\<close> check and the device's release,
  after which none of their callbacks runs.
\<close>

definition rm_stop ::
  "(event, 'w) publisher \<Rightarrow> audio_step list \<Rightarrow> recording_manager \<Rightarrow> 'w \<Rightarrow>
   (recording + recording_error) \<times> recording_manager \<times> 'w" where
  "rm_stop pub late rm w =
     (case rm_active rm of
        None \<Rightarrow> (Inr (RecordingError ''no recording is in progress''), rm, w)
      | Some sid \<Rightarrow>
          let device_was_lost = \<not> dev_running (rm_device rm);
              rm1 = audio_steps late rm;
              rm2 = rm1\<lparr>rm_device := device_stop (rm_device rm1)\<rparr>
          in if device_was_lost
             then (Inr (RecordingError ''capture device stopped unexpectedly (microphone disconnected?)''),
                   rm2\<lparr>rm_active := None, rm_samples := []\<rparr>, w)
             else let r = \<lparr>rec_samples = rm_samples rm2, rec_sample_rate = kSampleRate,
                           rec_channels = kChannels\<rparr>
                  in (Inl r, rm2\<lparr>rm_samples := [], rm_active := None\<rparr>,
                      pub (RecordingFinished sid r) w))"

definition is_recording :: "recording_manager \<Rightarrow> bool" where
  "is_recording rm \<longleftrightarrow> rm_active rm \<noteq> None"

definition samples_snapshot :: "nat \<Rightarrow> recording_manager \<Rightarrow> sample list" where
  "samples_snapshot start_index rm =
     (if start_index \<ge> length (rm_samples rm) then [] else drop start_index (rm_samples rm))"

lemmas [yoru_ops] = device_start_def device_stop_def ma_device_uninit_def rm_start_def rm_stop_def
  handle_device_notification_def on_samples_def forward_captured_samples_def Let_def

lemma on_samples_frame [simp, yoru_frame]: "rm_device (on_samples xs rm) = rm_device rm" "rm_active (on_samples xs rm) = rm_active rm"
  by (simp_all add: on_samples_def)

section \<open>The device is released exactly once\<close>

definition device_inv :: "capture_device \<Rightarrow> bool" where
  "device_inv d \<longleftrightarrow> dev_has_callback d \<and> dev_live d = (if dev_initialized d then 1 else 0) \<and>
     (dev_running d \<longrightarrow> dev_initialized d) \<and> (dev_streaming d \<longrightarrow> dev_initialized d)"

definition rm_inv :: "recording_manager \<Rightarrow> bool" where
  "rm_inv rm \<longleftrightarrow> device_inv (rm_device rm) \<and> (rm_active rm \<noteq> None \<longleftrightarrow> dev_initialized (rm_device rm))"

lemmas [yoru_inv] = device_inv_def rm_inv_def

lemma rm_inv_new [simp]: "rm_inv new_recording_manager"
  by (simp add: new_recording_manager_def new_device_def yoru_inv)

lemma device_start_inv: "device_inv d \<Longrightarrow> device_inv (snd (device_start env d))"
  by (auto simp: yoru_ops yoru_inv)

lemma device_stop_inv: "device_inv d \<Longrightarrow> device_inv (device_stop d)"
  by (auto simp: yoru_ops yoru_inv)

lemma device_stop_released [simp]: "\<not> dev_initialized (device_stop d)"
  by (simp add: yoru_ops)

lemma device_start_initialized:
  "device_inv d \<Longrightarrow> dev_initialized (snd (device_start env d)) \<longleftrightarrow> fst (device_start env d) = None"
  by (auto simp: yoru_ops yoru_inv)

lemma audio_step_inv: "rm_inv rm \<Longrightarrow> rm_inv (audio_step_exec a rm)"
  by (cases a) (auto simp: yoru_inv yoru_ops)

lemma audio_steps_inv: "rm_inv rm \<Longrightarrow> rm_inv (audio_steps as rm)"
  unfolding audio_steps_def by (induction as arbitrary: rm) (auto simp: audio_step_inv)

lemma audio_step_active [simp, yoru_frame]: "rm_active (audio_step_exec a rm) = rm_active rm"
  by (cases a) (auto simp: yoru_ops)

lemma audio_steps_active [simp, yoru_frame]: "rm_active (audio_steps as rm) = rm_active rm"
  unfolding audio_steps_def by (induction as arbitrary: rm) auto

lemma rm_start_inv:
  "rm_inv rm \<Longrightarrow> rm_start pub env sid rm w = (r, rm', w') \<Longrightarrow> rm_inv rm'"
  using device_start_inv [of "rm_device rm" env] device_start_initialized [of "rm_device rm" env]
  by (auto simp: rm_start_def rm_inv_def Let_def split: if_splits prod.splits option.splits capture_error.splits)

lemma rm_stop_inv:
  assumes "rm_inv rm" and "rm_stop pub late rm w = (r, rm', w')"
  shows "rm_inv rm'"
proof (cases "rm_active rm")
  case None
  with assms show ?thesis by (simp add: rm_stop_def)
next
  case (Some sid)
  have "rm_inv (audio_steps late rm)" using assms(1) by (rule audio_steps_inv)
  with Some assms(2) show ?thesis
    by (auto simp: rm_stop_def rm_inv_def Let_def intro: device_stop_inv split: if_splits)
qed

lemma rm_stop_inactive: "rm_stop pub late rm w = (r, rm', w') \<Longrightarrow> rm_active rm' = None"
  by (auto simp: rm_stop_def Let_def split: option.splits if_splits)

lemma rm_start_active:
  "rm_start pub env sid rm w = (None, rm', w') \<Longrightarrow> rm_active rm' = Some sid"
  by (auto simp: rm_start_def Let_def split: if_splits prod.splits option.splits capture_error.splits)

lemma rm_start_failed_active:
  "rm_start pub env sid rm w = (Some e, rm', w') \<Longrightarrow> rm_active rm' = rm_active rm \<and> w' = w"
  by (auto simp: rm_start_def Let_def split: if_splits prod.splits option.splits capture_error.splits)

datatype rm_command = RmStart open_outcome session_id | RmStop "audio_step list" | RmAudio audio_step

fun rm_exec :: "rm_command \<Rightarrow> recording_manager \<Rightarrow> recording_manager" where
  "rm_exec (RmStart env sid) rm = fst (snd (rm_start (\<lambda>_ w. w) env sid rm ()))"
| "rm_exec (RmStop late) rm = fst (snd (rm_stop (\<lambda>_ w. w) late rm ()))"
| "rm_exec (RmAudio a) rm = audio_step_exec a rm"

lemma rm_exec_inv: "rm_inv rm \<Longrightarrow> rm_inv (rm_exec c rm)"
proof (cases c)
  case (RmStart env sid)
  assume "rm_inv rm"
  then show ?thesis using RmStart
    by (cases "rm_start (\<lambda>_ w. w) env sid rm ()") (auto dest: rm_start_inv)
next
  case (RmStop late)
  assume "rm_inv rm"
  then show ?thesis using RmStop
    by (cases "rm_stop (\<lambda>_ w. w) late rm ()") (auto dest: rm_stop_inv)
qed (auto simp: audio_step_inv)

text \<open>
  Over any history of starts, stops, captured buffers and device notifications (unplugs
  included), at most one miniaudio device is ever live, it is live exactly while a recording is
  active, so it is released exactly once per successful start and never leaked or released twice.
\<close>

theorem capture_device_never_leaks:
  "let rm = fold rm_exec cs new_recording_manager in
     dev_live (rm_device rm) = (if is_recording rm then 1 else 0) \<and>
     (dev_running (rm_device rm) \<longrightarrow> is_recording rm)"
proof -
  have "rm_inv rm \<Longrightarrow> rm_inv (fold rm_exec cs rm)" for rm
    by (induction cs arbitrary: rm) (auto simp: rm_exec_inv)
  then have "rm_inv (fold rm_exec cs new_recording_manager)" by simp
  then show ?thesis by (auto simp: yoru_inv is_recording_def Let_def)
qed

theorem capture_device_never_leaks_witness:
  "dev_live (rm_device (fold rm_exec
     [RmStart \<lparr>ma_init_ok = True, ma_start_ok = True, stopped_early = None\<rparr> 1, RmAudio (DeviceNotified NotifyStopped)]
     new_recording_manager)) = 1"
  using capture_device_never_leaks [of
      "[RmStart \<lparr>ma_init_ok = True, ma_start_ok = True, stopped_early = None\<rparr> 1, RmAudio (DeviceNotified NotifyStopped)]"]
  by (simp add: Let_def is_recording_def rm_start_def device_start_def new_recording_manager_def new_device_def)

section \<open>What a recording holds\<close>

fun captured_samples :: "audio_step list \<Rightarrow> sample list" where
  "captured_samples [] = []"
| "captured_samples (Captured throws xs # as) = (if throws then [] else xs) @ captured_samples as"
| "captured_samples (DeviceNotified NotifyStopped # as) = []"
| "captured_samples (DeviceNotified _ # as) = captured_samples as"

definition unplugged :: "audio_step list \<Rightarrow> bool" where
  "unplugged as \<longleftrightarrow> DeviceNotified NotifyStopped \<in> set as"

lemma audio_steps_silent:
  "\<not> dev_streaming (rm_device rm) \<Longrightarrow>
     rm_samples (audio_steps as rm) = rm_samples rm \<and> \<not> dev_streaming (rm_device (audio_steps as rm))"
  unfolding audio_steps_def
proof (induction as arbitrary: rm)
  case (Cons a as)
  have "rm_samples (audio_step_exec a rm) = rm_samples rm" "\<not> dev_streaming (rm_device (audio_step_exec a rm))"
    using Cons.prems by (cases a; auto simp: yoru_ops)+
  with Cons.IH [of "audio_step_exec a rm"] show ?case by simp
qed simp

lemma audio_steps_samples:
  "dev_streaming (rm_device rm) \<Longrightarrow>
     rm_samples (audio_steps as rm) = rm_samples rm @ captured_samples as \<and>
     dev_streaming (rm_device (audio_steps as rm)) = (\<not> unplugged as)"
proof (induction as arbitrary: rm rule: captured_samples.induct)
  case 1
  then show ?case by (simp add: audio_steps_def unplugged_def)
next
  case (2 throws xs as)
  have "dev_streaming (rm_device (audio_step_exec (Captured throws xs) rm))"
    using "2.prems" by (simp add: yoru_ops)
  from "2.IH" [OF this] "2.prems" show ?case
    by (auto simp: audio_steps_def unplugged_def yoru_ops)
next
  case (3 as)
  let ?rm = "audio_step_exec (DeviceNotified NotifyStopped) rm"
  have "\<not> dev_streaming (rm_device ?rm)" by (simp add: yoru_ops)
  with audio_steps_silent [of ?rm as] show ?case
    by (simp add: audio_steps_def unplugged_def)
next
  case "4_1"
  then show ?case using "4_1.IH" [of rm] by (simp add: audio_steps_def unplugged_def yoru_ops)
next
  case "4_2"
  then show ?case using "4_2.IH" [of rm] by (simp add: audio_steps_def unplugged_def yoru_ops)
qed

text \<open>A device that runs is seen to run until it is unplugged, whether it streams or not.\<close>

lemma audio_steps_running:
  "dev_running (rm_device (audio_steps as rm)) \<longleftrightarrow> dev_running (rm_device rm) \<and> \<not> unplugged as"
  unfolding audio_steps_def unplugged_def
proof (induction as arbitrary: rm)
  case (Cons a as)
  show ?case unfolding fold_simps comp_apply Cons.IH by (cases a) (auto simp: yoru_ops)
qed simp

lemma rm_start_streams:
  assumes "rm_start pub env sid rm w = (None, rm1, w1)" and "rm_inv rm"
  shows "dev_streaming (rm_device rm1) = (stopped_early env = None) \<and> dev_running (rm_device rm1) \<and>
         rm_samples rm1 = (case stopped_early env of Some xs \<Rightarrow> xs | None \<Rightarrow> []) \<and>
         w1 = pub (RecordingStarted sid) w"
  using assms
  by (auto simp: rm_start_def rm_inv_def device_inv_def device_start_def on_samples_def Let_def
        split: if_splits option.splits capture_error.splits)

text \<open>
  C26: a recording that was started and stopped holds exactly the samples the device delivered in
  between, in order, as 16 kHz mono, whatever was recorded before; it is published as
  RecordingFinished with the session's id, right after RecordingStarted. If the device reported a
  stop after \<^verbatim>\<open>start()\<close> had stored \<^verbatim>\<open>running = true\<close> (the microphone was unplugged), \<^verbatim>\<open>stop()\<close> reports the loss instead, publishes
  nothing, and discards the samples. A stop reported before that store is not noticed: the recording then ends as a
  success with what was delivered until then. In every case the manager is ready for the next recording.
\<close>

theorem recording_faithful:
  assumes start: "rm_start pub env sid rm w = (None, rm1, w1)"
    and inv: "rm_inv rm"
    and stop: "rm_stop pub late (audio_steps as rm1) w1 = (r, rm2, w2)"
  shows "rm_active rm2 = None \<and> rm_samples rm2 = [] \<and> dev_live (rm_device rm2) = 0 \<and>
    (if unplugged as
     then r = Inr (RecordingError ''capture device stopped unexpectedly (microphone disconnected?)'') \<and>
          w2 = pub (RecordingStarted sid) w
     else let rec = \<lparr>rec_samples = (case stopped_early env of
                                      None \<Rightarrow> captured_samples as @ captured_samples late
                                    | Some before \<Rightarrow> before),
                     rec_sample_rate = 16000, rec_channels = 1\<rparr>
          in r = Inl rec \<and> w2 = pub (RecordingFinished sid rec) (pub (RecordingStarted sid) w))"
proof -
  from rm_start_streams [OF start inv]
  have s: "dev_streaming (rm_device rm1) = (stopped_early env = None)" "dev_running (rm_device rm1)"
    "rm_samples rm1 = (case stopped_early env of Some xs \<Rightarrow> xs | None \<Rightarrow> [])"
    and w1: "w1 = pub (RecordingStarted sid) w" by auto
  from rm_start_active [OF start] have act: "rm_active rm1 = Some sid" .
  have "rm_inv rm1" using inv start by (rule rm_start_inv)
  then have "rm_inv (audio_steps as rm1)" by (rule audio_steps_inv)
  from rm_stop_inv [OF this stop] have inv2: "rm_inv rm2" .
  moreover from stop have "rm_active rm2 = None" by (rule rm_stop_inactive)
  ultimately have live: "dev_live (rm_device rm2) = 0" by (simp add: yoru_inv)
  have run: "dev_running (rm_device (audio_steps as rm1)) = (\<not> unplugged as)" using s(2) by (simp add: audio_steps_running)
  have smp: "rm_samples (audio_steps late (audio_steps as rm1)) =
      (case stopped_early env of None \<Rightarrow> captured_samples as @ captured_samples late | Some before \<Rightarrow> before)" if "\<not> unplugged as"
  proof (cases "stopped_early env")
    case None
    with s that audio_steps_samples [of rm1 as] audio_steps_samples [of "audio_steps as rm1" late] show ?thesis by simp
  next
    case (Some before)
    with s audio_steps_silent [of rm1 as] audio_steps_silent [of "audio_steps as rm1" late] show ?thesis by simp
  qed
  show ?thesis
    using stop live smp by (auto simp: rm_stop_def act run w1 Let_def kSampleRate_def kChannels_def)
qed

theorem recording_faithful_witness:
  "rm_stop record_event [] (audio_steps [Captured False [1/2, 1/4], Captured False [0]]
       (fst (snd (rm_start record_event \<lparr>ma_init_ok = True, ma_start_ok = True, stopped_early = None\<rparr>
          3 new_recording_manager [])))) [RecordingStarted 3] =
   (let rec = \<lparr>rec_samples = [1/2, 1/4, 0], rec_sample_rate = 16000, rec_channels = 1\<rparr>
    in (Inl rec, new_recording_manager, [RecordingStarted 3, RecordingFinished 3 rec]))"
proof -
  let ?env = "\<lparr>ma_init_ok = True, ma_start_ok = True, stopped_early = None\<rparr>"
  let ?as = "[Captured False [1/2, 1/4], Captured False [0 :: rat]]"
  define rm1 where "rm1 = fst (snd (rm_start record_event ?env 3 new_recording_manager []))"
  have start: "rm_start record_event ?env 3 new_recording_manager [] = (None, rm1, [RecordingStarted 3])"
    by (simp add: rm1_def rm_start_def device_start_def new_recording_manager_def new_device_def)
  obtain r rm2 w2 where stop:
    "rm_stop record_event [] (audio_steps ?as rm1) [RecordingStarted 3] = (r, rm2, w2)"
    by (cases "rm_stop record_event [] (audio_steps ?as rm1) [RecordingStarted 3]")
  have "rm2 = new_recording_manager"
    using stop by (auto simp: rm1_def rm_start_def device_start_def new_recording_manager_def new_device_def
        rm_stop_def audio_steps_def yoru_ops)
  with recording_faithful [OF start rm_inv_new stop] stop show ?thesis
    unfolding rm1_def [symmetric] by (simp add: unplugged_def Let_def)
qed

text \<open>
  The stop notification and the store \<^verbatim>\<open>running = true\<close> at the end of \<^verbatim>\<open>start()\<close> race: a device
  that stops in between leaves \<^verbatim>\<open>is_running()\<close> true although nothing streams.
\<close>

lemma early_stop_unnoticed:
  "let (err, d) = device_start \<lparr>ma_init_ok = True, ma_start_ok = True, stopped_early = Some xs\<rparr> new_device
   in err = None \<and> dev_running d \<and> \<not> dev_streaming d"
  by (simp add: yoru_ops new_device_def)

lemma samples_snapshot_drop: "samples_snapshot i rm = drop i (rm_samples rm)"
  by (simp add: samples_snapshot_def)

end
