(* ===== verification/Session_Manager.thy ===== *)
theory Session_Manager
  imports Queue_Threads Session_State Audio_Capture
begin

text \<open>
  \<^verbatim>\<open>SessionManager\<close> (\<^verbatim>\<open>src/domains/session/session_manager.cpp\<close>): the coordinator of the dictation
  cycle. The record holds the manager's own members and, in place of the references the C++ object
  keeps, the state of the recording manager and of the queue it owns. What the rest of the world
  decides is an argument: the outcome of opening the microphone, what the audio threads do while the
  device is being closed, the clock readings, and how many steps the transcription worker makes
  between two of its critical sections. Reading \<^verbatim>\<open>active_session_\<close> when it is empty is undefined
  behaviour in C++; \<open>stop_session\<close> answers \<open>None\<close> there, and the invariant shows it never does.
\<close>

datatype session_error = SessionError string

record 'cb session_manager =
  sm_recording_manager :: recording_manager
  sm_state :: service_state
  sm_active_session :: "session option"
  sm_next_session_id :: "64 word"
  sm_default_language :: string
  sm_transcription_prompt :: string
  sm_last_completed :: "session_id option"
  sm_last_failed :: "session_id option"
  sm_queue :: "'cb transcription_queue"

definition new_session_manager :: "recording_manager \<Rightarrow> configuration \<Rightarrow> nat \<Rightarrow> 'cb session_manager" where
  "new_session_manager rm initial queue_capacity =
     \<lparr>sm_recording_manager = rm, sm_state = Idle, sm_active_session = None, sm_next_session_id = 1,
      sm_default_language = default_language initial, sm_transcription_prompt = transcription_prompt initial,
      sm_last_completed = None, sm_last_failed = None, sm_queue = new_queue queue_capacity\<rparr>"

definition sm_on_configuration_changed :: "configuration \<Rightarrow> 'cb session_manager \<Rightarrow> 'cb session_manager" where
  "sm_on_configuration_changed c sm =
     sm\<lparr>sm_default_language := default_language c, sm_transcription_prompt := transcription_prompt c\<rparr>"

text \<open>\<open>s\<close> is \<^verbatim>\<open>*active_session_\<close>, which the caller has.\<close>

definition fail ::
  "(event, 'w) publisher \<Rightarrow> string \<Rightarrow> string \<Rightarrow> time_point \<Rightarrow> session \<Rightarrow> 'cb session_manager \<Rightarrow> 'w \<Rightarrow>
   'cb session_manager \<times> 'w" where
  "fail pub component message now s sm w =
     (sm\<lparr>sm_active_session := Some (snd (try_transition Failed now s)), sm_state := ErrorState\<rparr>,
      pub (ErrorOccurred (Some (sess_id s)) component message) w)"

definition start_session ::
  "(event, 'w) publisher \<Rightarrow> open_outcome \<Rightarrow> time_point \<Rightarrow> time_point \<Rightarrow> 'cb session_manager \<Rightarrow> 'w \<Rightarrow>
   session_error option \<times> 'cb session_manager \<times> 'w" where
  "start_session pub env now now' sm w =
     (if sm_state sm \<noteq> Idle then (Some (SessionError ''a session is already active''), sm, w)
      else if \<not> has_capacity (sm_queue sm) then
        (Some (SessionError ''transcription queue is full''), sm,
         pub (ErrorOccurred None ''queue'' ''transcription queue is full'') w)
      else
        let sid = sm_next_session_id sm;
            sm1 = sm\<lparr>sm_next_session_id := sid + 1\<rparr>
        in case rm_start pub env sid (sm_recording_manager sm1) w of
             (Some (RecordingError message), rm', w') \<Rightarrow>
               (Some (SessionError message), sm1\<lparr>sm_recording_manager := rm'\<rparr>,
                pub (ErrorOccurred None ''audio'' message) w')
           | (None, rm', w') \<Rightarrow>
               (None, sm1\<lparr>sm_recording_manager := rm',
                          sm_active_session := Some (snd (try_transition SessRecording now' (new_session sid now))),
                          sm_state := Recording\<rparr>, w'))"

definition stop_session ::
  "(event, 'w) publisher \<Rightarrow> audio_step list \<Rightarrow> time_point \<Rightarrow> time_point \<Rightarrow> time_point \<Rightarrow>
   'cb session_manager \<Rightarrow> 'w \<Rightarrow> (queued_job + session_error) option \<times> 'cb session_manager \<times> 'w" where
  "stop_session pub late now now' enqueued_at sm w =
     (if sm_state sm \<noteq> Recording then (Some (Inr (SessionError ''no session is recording'')), sm, w)
      else case sm_active_session sm of
        None \<Rightarrow> (None, sm, w)
      | Some s \<Rightarrow>
          (case rm_stop pub late (sm_recording_manager sm) w of
             (Inr (RecordingError message), rm', w') \<Rightarrow>
               let (sm', w'') = fail pub ''audio'' message now s (sm\<lparr>sm_recording_manager := rm'\<rparr>) w'
               in (Some (Inr (SessionError message)), sm', w'')
           | (Inl rec, rm', w') \<Rightarrow>
               let s1 = snd (try_transition SessProcessing now s);
                   sm1 = sm\<lparr>sm_recording_manager := rm', sm_active_session := Some s1\<rparr>;
                   job = \<lparr>job_session_id = sess_id s, job_samples = rec_samples rec,
                          job_request = \<lparr>req_language = sm_default_language sm,
                                         req_initial_prompt = sm_transcription_prompt sm\<rparr>,
                          job_enqueued_at = enqueued_at\<rparr>
               in case try_enqueue job (sm_queue sm1) of
                    (None, q') \<Rightarrow>
                      let (sm', w'') = fail pub ''queue'' ''transcription queue is full or shutting down'' now' s1
                                         (sm1\<lparr>sm_queue := q'\<rparr>) w'
                      in (Some (Inr (SessionError ''transcription queue is full or shutting down'')), sm', w'')
                  | (Some position, q') \<Rightarrow>
                      (Some (Inl \<lparr>qj_session_id = sess_id s, qj_position = position\<rparr>),
                       sm1\<lparr>sm_queue := q', sm_active_session := None, sm_state := Idle\<rparr>,
                       pub (TranscriptionQueued (sess_id s) position) w')))"

text \<open>One iteration of the loop over the results.\<close>

definition publish_result ::
  "(event, 'w) publisher \<Rightarrow> job_result \<Rightarrow> 'cb session_manager \<times> 'w \<Rightarrow> 'cb session_manager \<times> 'w" where
  "publish_result pub r s =
     (case s of (sm, w) \<Rightarrow>
        case res_result r of
          Inr (SpeechError message) \<Rightarrow>
            (sm\<lparr>sm_last_failed := Some (res_session_id r)\<rparr>,
             pub (ErrorOccurred (Some (res_session_id r)) ''speech'' message) w)
        | Inl t \<Rightarrow>
            (sm\<lparr>sm_last_completed := Some (res_session_id r)\<rparr>,
             pub (TranscriptionCompleted (res_session_id r) t) w))"

text \<open>\<open>n\<close> is how many steps the worker makes between the two drains.\<close>

definition poll_completed ::
  "(event, 'w) publisher \<Rightarrow> 'b speech_backend \<Rightarrow> nat \<Rightarrow> 'cb session_manager \<Rightarrow> 'b \<Rightarrow> 'w \<Rightarrow>
   nat \<times> 'cb session_manager \<times> 'b \<times> 'w" where
  "poll_completed pub be n sm b w =
     (let (results, q1) = drain_completed (sm_queue sm);
          (q2, b2) = worker_run be n (q1, b);
          (ids, q3) = drain_started q2;
          w1 = fold (\<lambda>i. pub (TranscriptionStarted i)) ids w;
          (sm', w') = fold (publish_result pub) results (sm\<lparr>sm_queue := q3\<rparr>, w1)
      in (length results, sm', b2, w'))"

definition cancel_session ::
  "(event, 'w) publisher \<Rightarrow> audio_step list \<Rightarrow> 'cb session_manager \<Rightarrow> 'w \<Rightarrow>
   session_error option \<times> 'cb session_manager \<times> 'w" where
  "cancel_session pub late sm w =
     (if sm_state sm = Idle then (Some (SessionError ''no session to cancel''), sm, w)
      else
        let (rm', w') = (if sm_state sm = Recording then snd (rm_stop pub late (sm_recording_manager sm) w)
                         else (sm_recording_manager sm, w));
            sm' = sm\<lparr>sm_recording_manager := rm', sm_active_session := None, sm_state := Idle\<rparr>
        in (None, sm',
            case sm_active_session sm of
              None \<Rightarrow> w'
            | Some s \<Rightarrow> pub (SessionCancelled (sess_id s)) w'))"

definition cancel_job ::
  "(event, 'w) publisher \<Rightarrow> session_id \<Rightarrow> 'cb session_manager \<Rightarrow> 'w \<Rightarrow> bool \<times> 'cb session_manager \<times> 'w" where
  "cancel_job pub sid sm w =
     (case cancel_pending sid (sm_queue sm) of
        (False, q') \<Rightarrow> (False, sm\<lparr>sm_queue := q'\<rparr>, w)
      | (True, q') \<Rightarrow> (True, sm\<lparr>sm_queue := q'\<rparr>, pub (SessionCancelled sid) w))"

definition sm_set_activity_callback :: "'cb option \<Rightarrow> 'cb session_manager \<Rightarrow> 'cb session_manager" where
  "sm_set_activity_callback cb sm = sm\<lparr>sm_queue := set_activity_callback cb (sm_queue sm)\<rparr>"

definition sm_shutdown ::
  "(event, 'w) publisher \<Rightarrow> 'b speech_backend \<Rightarrow> nat \<Rightarrow> 'cb session_manager \<Rightarrow> 'b \<Rightarrow> 'w \<Rightarrow>
   session_id list \<times> 'cb session_manager \<times> 'b \<times> 'w" where
  "sm_shutdown pub be n sm b w =
     (let (dropped, q', b') = queue_shutdown be n (sm_queue sm, b)
      in (dropped, sm\<lparr>sm_queue := q'\<rparr>, b',
          fold (\<lambda>i. pub (ErrorOccurred (Some i) ''queue'' ''dropped at shutdown before it could be transcribed''))
            dropped w))"

definition derive_state :: "service_state \<Rightarrow> queue_snapshot \<Rightarrow> service_state" where
  "derive_state capture_state q =
     (if capture_state \<noteq> Idle then capture_state
      else if snap_busy q \<or> snap_pending q > 0 then Processing else Idle)"

definition service_state_of :: "'cb session_manager \<Rightarrow> service_state" where
  "service_state_of sm = derive_state (sm_state sm) (queue_snapshot_of (sm_queue sm))"

definition status :: "'cb session_manager \<Rightarrow> session_status" where
  "status sm =
     (let q = queue_snapshot_of (sm_queue sm)
      in \<lparr>st_state = derive_state (sm_state sm) q, st_queued = snap_pending q, st_processing = snap_busy q,
          st_last_completed = sm_last_completed sm, st_last_failed = sm_last_failed sm\<rparr>)"

definition transcription_busy :: "'cb session_manager \<Rightarrow> bool" where
  "transcription_busy sm \<longleftrightarrow> outstanding_count (sm_queue sm) > 0"

definition active_session_id :: "'cb session_manager \<Rightarrow> session_id option" where
  "active_session_id sm = map_option sess_id (sm_active_session sm)"

section \<open>Histories\<close>

text \<open>
  Everything that can happen to the manager: its operations, called by the controlling thread one
  after the other, with steps of the worker and of the audio threads anywhere in between, and the
  calls the live preview makes to the backend the worker uses, which it does only while the queue owes
  nothing. The events published are recorded in order.
\<close>

datatype 'cb sm_command =
    CmdStart open_outcome time_point time_point
  | CmdStop "audio_step list" time_point time_point time_point
  | CmdPoll nat
  | CmdCancel "audio_step list"
  | CmdCancelJob session_id
  | CmdConfigure configuration
  | CmdCallback "'cb option"
  | CmdShutdown nat
  | PreviewCalls "sample list" transcription_request
  | WorkerMoves nat
  | AudioMoves audio_step

type_synonym ('cb, 'b) service = "'cb session_manager \<times> 'b \<times> event list"

fun sm_exec :: "'b speech_backend \<Rightarrow> 'cb sm_command \<Rightarrow> ('cb, 'b) service \<Rightarrow> ('cb, 'b) service" where
  "sm_exec be (CmdStart env now now') (sm, b, tr) =
     (let (_, sm', tr') = start_session record_event env now now' sm tr in (sm', b, tr'))"
| "sm_exec be (CmdStop late now now' enq) (sm, b, tr) =
     (let (_, sm', tr') = stop_session record_event late now now' enq sm tr in (sm', b, tr'))"
| "sm_exec be (CmdPoll n) (sm, b, tr) = snd (poll_completed record_event be n sm b tr)"
| "sm_exec be (CmdCancel late) (sm, b, tr) =
     (let (_, sm', tr') = cancel_session record_event late sm tr in (sm', b, tr'))"
| "sm_exec be (CmdCancelJob i) (sm, b, tr) =
     (let (_, sm', tr') = cancel_job record_event i sm tr in (sm', b, tr'))"
| "sm_exec be (CmdConfigure c) (sm, b, tr) = (sm_on_configuration_changed c sm, b, tr)"
| "sm_exec be (CmdCallback cb) (sm, b, tr) = (sm_set_activity_callback cb sm, b, tr)"
| "sm_exec be (CmdShutdown n) (sm, b, tr) = snd (sm_shutdown record_event be n sm b tr)"
| "sm_exec be (PreviewCalls window req) (sm, b, tr) =
     (if transcription_busy sm then (sm, b, tr) else (sm, snd (transcribe_partial be b window req), tr))"
| "sm_exec be (WorkerMoves n) (sm, b, tr) =
     (let (q', b') = worker_run be n (sm_queue sm, b) in (sm\<lparr>sm_queue := q'\<rparr>, b', tr))"
| "sm_exec be (AudioMoves a) (sm, b, tr) =
     (sm\<lparr>sm_recording_manager := audio_step_exec a (sm_recording_manager sm)\<rparr>, b, tr)"

definition sm_run :: "'b speech_backend \<Rightarrow> 'cb sm_command list \<Rightarrow> ('cb, 'b) service \<Rightarrow> ('cb, 'b) service" where
  "sm_run be cs s = fold (sm_exec be) cs s"

definition initial_service :: "configuration \<Rightarrow> nat \<Rightarrow> 'b \<Rightarrow> ('cb, 'b) service" where
  "initial_service c capacity b = (new_session_manager new_recording_manager c capacity, b, [])"

section \<open>The invariant\<close>

definition room_or_stopped :: "'cb transcription_queue \<Rightarrow> bool" where
  "room_or_stopped q \<longleftrightarrow> q_stopping q \<or> has_capacity q"

definition sm_inv :: "'cb session_manager \<Rightarrow> bool" where
  "sm_inv sm \<longleftrightarrow> rm_inv (sm_recording_manager sm) \<and> queue_inv (sm_queue sm) \<and>
     (case sm_state sm of
        Idle \<Rightarrow> sm_active_session sm = None \<and> rm_active (sm_recording_manager sm) = None
      | Recording \<Rightarrow> room_or_stopped (sm_queue sm) \<and>
          (\<exists>s. sm_active_session sm = Some s \<and> sess_state s = SessRecording \<and>
               rm_active (sm_recording_manager sm) = Some (sess_id s))
      | Processing \<Rightarrow> False
      | ErrorState \<Rightarrow> rm_active (sm_recording_manager sm) = None \<and>
          (\<exists>s. sm_active_session sm = Some s \<and> sess_state s = Failed))"

lemma sm_inv_new: "sm_inv (new_session_manager new_recording_manager c capacity)"
  by (simp add: sm_inv_def new_session_manager_def) (simp add: new_recording_manager_def)

lemma room_or_stopped_worker: "room_or_stopped (fst s) \<Longrightarrow> room_or_stopped (fst (worker_run be n s))"
proof (induction n arbitrary: s)
  case (Suc n)
  then show ?case
    using worker_step_room [of "fst s" be "snd s"] worker_step_stopping(1) [of "fst s" be "snd s"]
    by (simp add: room_or_stopped_def) blast
qed simp

lemma room_or_stopped_frame:
  "q_stopping q' = q_stopping q \<Longrightarrow> q_capacity q' = q_capacity q \<Longrightarrow> length (q_pending q') \<le> length (q_pending q) \<Longrightarrow>
     room_or_stopped q \<Longrightarrow> room_or_stopped q'"
  by (auto simp: room_or_stopped_def has_capacity_def)

lemma sm_inv_queue:
  "sm_inv sm \<Longrightarrow> queue_inv q' \<Longrightarrow> (room_or_stopped (sm_queue sm) \<Longrightarrow> room_or_stopped q') \<Longrightarrow> sm_inv (sm\<lparr>sm_queue := q'\<rparr>)"
  by (cases "sm_state sm") (auto simp: sm_inv_def)

lemma sm_inv_start:
  assumes "sm_inv sm" and "start_session pub env now now' sm w = (r, sm', w')"
  shows "sm_inv sm'"
proof (cases "sm_state sm = Idle \<and> has_capacity (sm_queue sm)")
  case True
  obtain r' rm' w'' where start: "rm_start pub env (sm_next_session_id sm) (sm_recording_manager sm) w = (r', rm', w'')"
    by (cases "rm_start pub env (sm_next_session_id sm) (sm_recording_manager sm) w")
  have "rm_inv rm'" using assms(1) start by (auto simp: sm_inv_def intro: rm_start_inv)
  show ?thesis
  proof (cases r')
    case None
    with start have "rm_active rm' = Some (sm_next_session_id sm)" by (auto dest: rm_start_active)
    with \<open>rm_inv rm'\<close> True assms start None show ?thesis
      by (auto simp: sm_inv_def start_session_def room_or_stopped_def try_transition_def Let_def)
  next
    case (Some e)
    with start have "rm_active rm' = rm_active (sm_recording_manager sm)" by (auto dest: rm_start_failed_active)
    with \<open>rm_inv rm'\<close> True assms start Some show ?thesis
      by (auto simp: sm_inv_def start_session_def Let_def split: recording_error.splits)
  qed
qed (use assms in \<open>auto simp: start_session_def split: if_splits\<close>)

lemma sm_inv_stop:
  assumes "sm_inv sm" and "stop_session pub late now now' enq sm w = (r, sm', w')"
  shows "sm_inv sm' \<and> r \<noteq> None"
proof (cases "sm_state sm = Recording")
  case True
  with assms(1) obtain s where s: "sm_active_session sm = Some s" "sess_state s = SessRecording"
    by (auto simp: sm_inv_def)
  obtain r' rm' w'' where stop: "rm_stop pub late (sm_recording_manager sm) w = (r', rm', w'')"
    by (cases "rm_stop pub late (sm_recording_manager sm) w")
  have "rm_inv rm'" using assms(1) stop by (auto simp: sm_inv_def intro: rm_stop_inv)
  moreover have "rm_active rm' = None" using stop by (rule rm_stop_inactive)
  moreover have "queue_inv (snd (try_enqueue j (sm_queue sm)))" for j
    using assms(1) by (simp add: sm_inv_def queue_inv_enqueue)
  then have "try_enqueue j (sm_queue sm) = (p, q) \<Longrightarrow> queue_inv q" for j p q by (metis snd_conv)
  ultimately show ?thesis
    using assms True s stop
    by (auto simp: sm_inv_def stop_session_def fail_def try_transition_def Let_def
         split: sum.splits recording_error.splits prod.splits option.splits)
qed (use assms in \<open>auto simp: stop_session_def\<close>)

lemma sm_inv_cancel:
  assumes "sm_inv sm" and "cancel_session pub late sm w = (r, sm', w')"
  shows "sm_inv sm'"
proof -
  obtain r' rm' w'' where stop: "rm_stop pub late (sm_recording_manager sm) w = (r', rm', w'')"
    by (cases "rm_stop pub late (sm_recording_manager sm) w")
  have "rm_inv rm'" using assms(1) stop by (auto simp: sm_inv_def intro: rm_stop_inv)
  moreover have "rm_active rm' = None" using stop by (rule rm_stop_inactive)
  ultimately show ?thesis
    using assms stop
    by (cases "sm_state sm") (auto simp: sm_inv_def cancel_session_def split: if_splits)
qed

lemma fold_record_event [simp]: "fold (\<lambda>i. record_event (f i)) xs tr = tr @ map f xs"
  by (induction xs arbitrary: tr) auto

lemma publish_result_step:
  "publish_result pub r (sm, w) =
     (sm\<lparr>sm_last_completed := (if isl (res_result r) then Some (res_session_id r) else sm_last_completed sm),
         sm_last_failed := (if isl (res_result r) then sm_last_failed sm else Some (res_session_id r))\<rparr>,
      pub (outcome_event r) w)"
  by (cases sm; cases "res_result r") (auto simp: publish_result_def outcome_event_def split: speech_error.splits)

lemma publish_results:
  "\<exists>c f. fold (publish_result pub) rs (sm, w) =
     (sm\<lparr>sm_last_completed := c, sm_last_failed := f\<rparr>, fold (\<lambda>r. pub (outcome_event r)) rs w)"
proof (induction rs arbitrary: sm w)
  case Nil
  show ?case by (intro exI [of _ "sm_last_completed sm"] exI [of _ "sm_last_failed sm"]) simp
next
  case (Cons r rs)
  obtain c f where "fold (publish_result pub) rs (publish_result pub r (sm, w)) =
      ((fst (publish_result pub r (sm, w)))\<lparr>sm_last_completed := c, sm_last_failed := f\<rparr>,
       fold (\<lambda>r. pub (outcome_event r)) rs (pub (outcome_event r) w))"
    using Cons by (metis fst_conv publish_result_step)
  then show ?case by (intro exI [of _ c] exI [of _ f]) (simp add: publish_result_step)
qed

definition polled_queue :: "'b speech_backend \<Rightarrow> nat \<Rightarrow> 'cb transcription_queue \<Rightarrow> 'b \<Rightarrow> 'cb transcription_queue \<times> 'b" where
  "polled_queue be n q b = worker_run be n (snd (drain_completed q), b)"

lemma poll_completed_result:
  "\<exists>c f. poll_completed pub be n sm b w =
     (length (q_completed (sm_queue sm)),
      sm\<lparr>sm_queue := snd (drain_started (fst (polled_queue be n (sm_queue sm) b))), sm_last_completed := c, sm_last_failed := f\<rparr>,
      snd (polled_queue be n (sm_queue sm) b),
      fold (\<lambda>r. pub (outcome_event r)) (q_completed (sm_queue sm))
        (fold (\<lambda>i. pub (TranscriptionStarted i)) (q_started (fst (polled_queue be n (sm_queue sm) b))) w))"
proof -
  let ?q = "fst (polled_queue be n (sm_queue sm) b)"
  obtain c f where "fold (publish_result pub) (q_completed (sm_queue sm))
      (sm\<lparr>sm_queue := snd (drain_started ?q)\<rparr>, fold (\<lambda>i. pub (TranscriptionStarted i)) (q_started ?q) w) =
    (sm\<lparr>sm_queue := snd (drain_started ?q), sm_last_completed := c, sm_last_failed := f\<rparr>,
     fold (\<lambda>r. pub (outcome_event r)) (q_completed (sm_queue sm)) (fold (\<lambda>i. pub (TranscriptionStarted i)) (q_started ?q) w))"
    using publish_results [of pub "q_completed (sm_queue sm)" "sm\<lparr>sm_queue := snd (drain_started ?q)\<rparr>"] by fastforce
  then show ?thesis
    by (cases "polled_queue be n (sm_queue sm) b")
       (auto simp: poll_completed_def Let_def drain_completed_def drain_started_def polled_queue_def)
qed

lemma sm_inv_last: "sm_inv (sm\<lparr>sm_last_completed := c, sm_last_failed := f\<rparr>) = sm_inv sm"
  by (cases "sm_state sm") (simp_all add: sm_inv_def)

lemma polled_queue_inv:
  assumes "queue_inv q"
  shows "queue_inv (fst (polled_queue be n q b))"
    and "room_or_stopped q \<Longrightarrow> room_or_stopped (fst (polled_queue be n q b))"
  unfolding polled_queue_def
  by (auto intro!: queue_inv_worker_run room_or_stopped_worker queue_inv_drain assms)
     (auto simp: drain_completed_def intro: room_or_stopped_frame)

lemma sm_inv_poll:
  assumes "sm_inv sm" and "poll_completed pub be n sm b w = (k, sm', b', w')"
  shows "sm_inv sm'"
proof -
  let ?q = "fst (polled_queue be n (sm_queue sm) b)"
  obtain c f where "sm' = sm\<lparr>sm_queue := snd (drain_started ?q), sm_last_completed := c, sm_last_failed := f\<rparr>"
    using poll_completed_result [of pub be n sm b w] assms(2) by auto
  moreover have "queue_inv (sm_queue sm)" using assms(1) by (simp add: sm_inv_def)
  then have "sm_inv (sm\<lparr>sm_queue := snd (drain_started ?q)\<rparr>)"
    by (intro sm_inv_queue assms(1) queue_inv_drain polled_queue_inv)
       (auto simp: drain_started_def intro: room_or_stopped_frame dest: polled_queue_inv(2))
  ultimately show ?thesis by (simp add: sm_inv_last)
qed

lemma sm_inv_cancel_job:
  assumes "sm_inv sm" and "cancel_job pub i sm w = (r, sm', w')"
  shows "sm_inv sm'"
proof -
  have sm': "sm' = sm\<lparr>sm_queue := snd (cancel_pending i (sm_queue sm))\<rparr>"
    using assms(2) by (auto simp: cancel_job_def split: prod.splits bool.splits)
  show ?thesis unfolding sm'
    using assms(1) erase_job_length [of i "q_pending (sm_queue sm)"]
    by (intro sm_inv_queue queue_inv_cancel)
       (auto simp: sm_inv_def cancel_pending_def elim!: room_or_stopped_frame [rotated 3] split: option.splits)
qed

lemma queue_inv_join_worker: "queue_inv (fst s) \<Longrightarrow> queue_inv (fst (join_worker be n s))"
proof (induction n arbitrary: s)
  case (Suc n)
  then show ?case using queue_inv_worker [of "fst s" be "snd s"] by simp
qed simp

lemma queue_shutdown_inv:
  assumes "queue_inv q" and "queue_shutdown be n (q, b) = (dropped, q', b')"
  shows "queue_inv q'"
proof -
  obtain q2 b2 where run: "worker_run be n (snd (begin_shutdown q), b) = (q2, b2)"
    by (cases "worker_run be n (snd (begin_shutdown q), b)")
  have "queue_inv q2"
    using queue_inv_worker_run [of "(snd (begin_shutdown q), b)" be n] run assms(1)
    by (simp add: queue_inv_begin_shutdown)
  moreover have "join_worker be 7 (q2, request_abort be b2) = (q', b')"
    using assms(2) run by (auto simp: queue_shutdown_def Let_def split: prod.splits)
  ultimately show ?thesis using queue_inv_join_worker [of "(q2, request_abort be b2)" be 7] by simp
qed

lemma sm_shutdown_result:
  assumes "sm_shutdown pub be n sm b w = (dropped, sm', b', w')"
  shows "\<exists>q'. queue_shutdown be n (sm_queue sm, b) = (dropped, q', b') \<and> sm' = sm\<lparr>sm_queue := q'\<rparr> \<and>
     w' = fold (\<lambda>i. pub (ErrorOccurred (Some i) ''queue'' ''dropped at shutdown before it could be transcribed'')) dropped w"
  using assms by (auto simp: sm_shutdown_def split: prod.splits)

lemma sm_inv_shutdown:
  assumes "sm_inv sm" and "sm_shutdown pub be n sm b w = (dropped, sm', b', w')"
  shows "sm_inv sm'"
proof -
  obtain q' where q: "queue_shutdown be n (sm_queue sm, b) = (dropped, q', b')" and sm': "sm' = sm\<lparr>sm_queue := q'\<rparr>"
    using sm_shutdown_result [OF assms(2)] by blast
  have "queue_inv q'" using assms(1) q by (auto simp: sm_inv_def intro: queue_shutdown_inv)
  moreover have "q_stopping q'" using q by (rule queue_shutdown_result)
  ultimately show ?thesis unfolding sm'
    by (intro sm_inv_queue assms(1)) (auto simp: room_or_stopped_def)
qed

lemma sm_inv_exec:
  assumes "sm_inv (fst s)"
  shows "sm_inv (fst (sm_exec be c s))"
proof -
  obtain sm b tr where s: "s = (sm, b, tr)" by (cases s)
  have inv: "sm_inv sm" using assms s by simp
  show ?thesis
  proof (cases c)
    case (WorkerMoves n)
    obtain q' b' where run: "worker_run be n (sm_queue sm, b) = (q', b')" by (cases "worker_run be n (sm_queue sm, b)")
    have "queue_inv (sm_queue sm)" using inv by (simp add: sm_inv_def)
    then have "sm_inv (sm\<lparr>sm_queue := q'\<rparr>)"
      using queue_inv_worker_run [of "(sm_queue sm, b)" be n] room_or_stopped_worker [of "(sm_queue sm, b)" be n] run
      by (intro sm_inv_queue inv) auto
    with run s WorkerMoves show ?thesis by simp
  next
    case (AudioMoves a)
    with inv s show ?thesis
      by (cases "sm_state sm") (auto simp: sm_inv_def audio_step_inv)
  next
    case (CmdConfigure cfg)
    with inv s show ?thesis by (cases "sm_state sm") (simp_all add: sm_inv_def sm_on_configuration_changed_def)
  next
    case (CmdCallback cb)
    have "queue_inv (set_activity_callback cb (sm_queue sm))"
      using inv by (auto simp: sm_inv_def queue_inv_callback)
    moreover have "room_or_stopped (sm_queue sm) \<Longrightarrow> room_or_stopped (set_activity_callback cb (sm_queue sm))"
      by (rule room_or_stopped_frame) (simp_all add: set_activity_callback_def)
    ultimately show ?thesis using CmdCallback inv s by (simp add: sm_set_activity_callback_def sm_inv_queue)
  next
    case (CmdPoll n)
    with inv s show ?thesis by (cases "poll_completed record_event be n sm b tr") (auto dest: sm_inv_poll)
  next
    case (CmdShutdown n)
    with inv s show ?thesis by (cases "sm_shutdown record_event be n sm b tr") (auto dest: sm_inv_shutdown)
  qed (use inv s in \<open>auto split: prod.splits dest: sm_inv_start sm_inv_stop sm_inv_cancel sm_inv_cancel_job\<close>)
qed

lemma sm_inv_run: "sm_inv (fst s) \<Longrightarrow> sm_inv (fst (sm_run be cs s))"
  unfolding sm_run_def by (induction cs arbitrary: s) (simp_all add: sm_inv_exec)

section \<open>The service's state machine\<close>

lemma start_transition:
  "start_session pub env now now' sm w = (r, sm', w') \<Longrightarrow>
     (r = None \<and> sm_state sm = Idle \<and> sm_state sm' = Recording) \<or> (r \<noteq> None \<and> sm_state sm' = sm_state sm)"
  by (auto simp: start_session_def Let_def split: if_splits prod.splits option.splits recording_error.splits)

lemma stop_transition:
  "stop_session pub late now now' enq sm w = (r, sm', w') \<Longrightarrow>
     sm_state sm' = sm_state sm \<or> (sm_state sm = Recording \<and> sm_state sm' \<in> {Idle, ErrorState})"
  by (auto simp: stop_session_def fail_def Let_def
      split: if_splits prod.splits option.splits recording_error.splits sum.splits)

lemma cancel_transition:
  "cancel_session pub late sm w = (r, sm', w') \<Longrightarrow> sm_state sm' = Idle"
  by (auto simp: cancel_session_def Let_def split: if_splits prod.splits)

lemma poll_keeps_state: "sm_state (fst (snd (poll_completed pub be n sm b w))) = sm_state sm"
  using poll_completed_result [of pub be n sm b w] by auto

lemma shutdown_keeps_state: "sm_state (fst (snd (sm_shutdown pub be n sm b w))) = sm_state sm"
  by (simp add: sm_shutdown_def split: prod.splits)

lemma cancel_job_keeps_state: "sm_state (fst (snd (cancel_job pub i sm w))) = sm_state sm"
  by (simp add: cancel_job_def split: prod.splits bool.splits)

lemma exec_transition:
  assumes "sm_inv (fst s)"
  shows "sm_state (fst (sm_exec be c s)) = sm_state (fst s) \<or>
         service_can_transition (sm_state (fst s)) (sm_state (fst (sm_exec be c s)))"
proof -
  obtain sm b tr where s: "s = (sm, b, tr)" by (cases s)
  show ?thesis
  proof (cases c)
    case (CmdStart env now now')
    with s show ?thesis
      using start_transition [of record_event env now now' sm tr] by (auto split: prod.splits)
  next
    case (CmdStop late now now' enq)
    with s show ?thesis
      using stop_transition [of record_event late now now' enq sm tr] by (auto split: prod.splits)
  next
    case (CmdCancel late)
    with s assms show ?thesis
      using cancel_transition [of record_event late sm tr]
      by (cases "sm_state sm") (auto simp: sm_inv_def split: prod.splits)
  next
    case (CmdCancelJob i)
    with s show ?thesis using cancel_job_keeps_state [of record_event i sm tr] by (auto split: prod.splits)
  qed (auto simp: s poll_keeps_state shutdown_keeps_state sm_on_configuration_changed_def
        sm_set_activity_callback_def split: prod.splits)
qed

text \<open>
  C23: over any history of commands, worker steps and audio callbacks, the stored service state is
  Idle, Recording or Error, and every change of it is one the transition table of
  \<^verbatim>\<open>service_state.cpp\<close> allows; there is an active session exactly outside Idle, the microphone is open
  exactly in Recording (for that session, and with exactly one device), and no command ever reads
  \<^verbatim>\<open>active_session_\<close> while it is empty.
\<close>

theorem service_state_machine:
  assumes "sm_run be cs (initial_service cfg capacity b) = (sm, b', tr)"
  shows "sm_state sm \<in> {Idle, Recording, ErrorState} \<and>
     (sm_state sm = Idle \<longleftrightarrow> active_session_id sm = None) \<and>
     rm_active (sm_recording_manager sm) = (if sm_state sm = Recording then active_session_id sm else None) \<and>
     dev_live (rm_device (sm_recording_manager sm)) = (if sm_state sm = Recording then 1 else 0) \<and>
     fst (stop_session pub late now now' enq sm w) \<noteq> None \<and>
     (let sm' = fst (sm_exec be c (sm, b', tr)) in
        sm_state sm' = sm_state sm \<or> service_can_transition (sm_state sm) (sm_state sm'))"
proof -
  have inv: "sm_inv sm"
    using sm_inv_run [of "initial_service cfg capacity b" be cs] assms
    by (simp add: initial_service_def sm_inv_new)
  moreover have "fst (stop_session pub late now now' enq sm w) \<noteq> None"
    using sm_inv_stop [OF inv, of pub late now now' enq w] by (cases "stop_session pub late now now' enq sm w") auto
  ultimately show ?thesis
    using exec_transition [of "(sm, b', tr)" be c]
    by (cases "sm_state sm") (auto simp: sm_inv_def rm_inv_def device_inv_def active_session_id_def Let_def)
qed

section \<open>Stopping a recording\<close>

lemma rm_stop_running:
  assumes "rm_active rm = Some sid" and "dev_running (rm_device rm)"
  shows "\<exists>rec rm'. rm_stop pub late rm w = (Inl rec, rm', pub (RecordingFinished sid rec) w) \<and>
           rec_samples rec = rm_samples (audio_steps late rm)"
  using assms by (simp add: rm_stop_def Let_def)

text \<open>
  C7: a recording in progress is never refused by the queue. In any reachable state in which a
  session is being recorded, the device is still running and the service was not shut down,
  \<^verbatim>\<open>stop_session\<close> queues exactly one job, at the end, with the session's id, the captured samples and
  the language and prompt in force; it returns the number of jobs ahead of it, publishes
  RecordingFinished and then TranscriptionQueued, and leaves the service ready for the next session.
\<close>

theorem stop_session_queues_the_recording:
  assumes "sm_run be cs (initial_service cfg capacity b) = (sm, b', tr)"
    and "sm_state sm = Recording" and "\<not> q_stopping (sm_queue sm)"
    and "dev_running (rm_device (sm_recording_manager sm))"
  shows "\<exists>sid rec sm' job. active_session_id sm = Some sid \<and>
     stop_session pub late now now' enq sm w =
       (Some (Inl \<lparr>qj_session_id = sid, qj_position = length (outstanding (sm_queue sm))\<rparr>), sm',
        pub (TranscriptionQueued sid (length (outstanding (sm_queue sm)))) (pub (RecordingFinished sid rec) w)) \<and>
     outstanding (sm_queue sm') = outstanding (sm_queue sm) @ [job] \<and>
     job_session_id job = sid \<and> job_samples job = rec_samples rec \<and>
     rec_samples rec = rm_samples (audio_steps late (sm_recording_manager sm)) \<and>
     req_language (job_request job) = sm_default_language sm \<and>
     req_initial_prompt (job_request job) = sm_transcription_prompt sm \<and>
     sm_state sm' = Idle \<and> active_session_id sm' = None"
proof -
  have inv: "sm_inv sm"
    using sm_inv_run [of "initial_service cfg capacity b" be cs] assms(1)
    by (simp add: initial_service_def sm_inv_new)
  then obtain s where s: "sm_active_session sm = Some s" "rm_active (sm_recording_manager sm) = Some (sess_id s)"
    and q: "queue_inv (sm_queue sm)" "has_capacity (sm_queue sm)"
    using assms(2,3) by (auto simp: sm_inv_def room_or_stopped_def)
  obtain rec rm' where stop: "rm_stop pub late (sm_recording_manager sm) w = (Inl rec, rm', pub (RecordingFinished (sess_id s) rec) w)"
    and samples: "rec_samples rec = rm_samples (audio_steps late (sm_recording_manager sm))"
    using rm_stop_running [OF s(2) assms(4), of pub late w] by blast
  have "try_enqueue job (sm_queue sm) = (Some (length (outstanding (sm_queue sm))),
      (sm_queue sm)\<lparr>q_pending := q_pending (sm_queue sm) @ [job]\<rparr>)" for job
    using q outstanding_count_length [OF q(1)] by (auto simp: try_enqueue_def has_capacity_def outstanding_count_def)
  then show ?thesis
    using assms(2) s stop samples
    by (auto simp: stop_session_def active_session_id_def Let_def outstanding_def)
qed

section \<open>Refinement of the two-thread system\<close>

text \<open>The events that report the worker's activity.\<close>

fun is_result :: "event \<Rightarrow> bool" where
  "is_result (TranscriptionStarted _) = True"
| "is_result (TranscriptionCompleted _ _) = True"
| "is_result (ErrorOccurred (Some _) component _) = (component = ''speech'')"
| "is_result _ = False"

text \<open>The ids of the sessions whose recording started, in order.\<close>

fun started_ids :: "event list \<Rightarrow> session_id list" where
  "started_ids [] = []"
| "started_ids (RecordingStarted i # tr) = i # started_ids tr"
| "started_ids (_ # tr) = started_ids tr"

lemma started_ids_append [simp]: "started_ids (xs @ ys) = started_ids xs @ started_ids ys"
  by (induction xs rule: started_ids.induct) simp_all

definition ids_ok :: "'cb session_manager \<Rightarrow> session_id set \<Rightarrow> bool" where
  "ids_ok sm used \<longleftrightarrow> (\<forall>i \<in> used. i < sm_next_session_id sm) \<and>
     (sm_state sm = Recording \<longrightarrow>
        (\<forall>a. active_session_id sm = Some a \<longrightarrow> a \<notin> used \<and> a < sm_next_session_id sm))"

definition sim :: "('cb, 'b) service \<Rightarrow> ('cb, 'b) threads \<Rightarrow> bool" where
  "sim s t \<longleftrightarrow> (case s of (sm, b, tr) \<Rightarrow>
     t_queue t = sm_queue sm \<and> t_backend t = b \<and> t_owner t = OwnerIdle \<and>
     t_trace t = filter is_result tr \<and> ids_ok sm (t_used t))"

lemma is_result_maps [simp]:
  "filter is_result (map TranscriptionStarted ids) = map TranscriptionStarted ids"
  "filter is_result (map outcome_event rs) = map outcome_event rs"
  "filter is_result (map (\<lambda>i. ErrorOccurred (Some i) ''queue'' m) ids) = []"
  by (auto simp: outcome_event_def intro!: filter_True split: sum.splits speech_error.splits)

lemma reachable_worker_run:
  "threads_reachable be c b0 t \<Longrightarrow> worker_run be n (t_queue t, t_backend t) = (q', b') \<Longrightarrow>
     threads_reachable be c b0 (t\<lparr>t_queue := q', t_backend := b'\<rparr>)"
proof (induction n arbitrary: t)
  case (Suc n)
  let ?t = "t\<lparr>t_queue := fst (fst (worker_step be (t_queue t, t_backend t))),
             t_backend := snd (fst (worker_step be (t_queue t, t_backend t)))\<rparr>"
  have "threads_reachable be c b0 ?t" using Suc.prems(1) thread_step_worker by (rule threads_reachable.step)
  from Suc.IH [OF this] Suc.prems(2) show ?case by simp
qed auto

lemma reachable_join_worker:
  "threads_reachable be c b0 t \<Longrightarrow> join_worker be n (t_queue t, t_backend t) = (q', b') \<Longrightarrow>
     threads_reachable be c b0 (t\<lparr>t_queue := q', t_backend := b'\<rparr>)"
proof (induction n arbitrary: t)
  case (Suc n)
  let ?t = "t\<lparr>t_queue := fst (fst (worker_step be (t_queue t, t_backend t))),
             t_backend := snd (fst (worker_step be (t_queue t, t_backend t)))\<rparr>"
  have "threads_reachable be c b0 ?t" using Suc.prems(1) thread_step_worker by (rule threads_reachable.step)
  from Suc.IH [OF this] Suc.prems show ?case by (cases "q_worker (t_queue t) = Exited") auto
qed auto

lemma sim_poll:
  assumes "threads_reachable be c b0 t" and "sim (sm, b, tr) t"
    and "poll_completed record_event be n sm b tr = (k, sm', b', tr')"
  shows "\<exists>t'. threads_reachable be c b0 t' \<and> sim (sm', b', tr') t'"
proof -
  let ?rs = "q_completed (sm_queue sm)" and ?p = "polled_queue be n (sm_queue sm) b"
  from assms(2) have t: "t_queue t = sm_queue sm" "t_backend t = b" "t_owner t = OwnerIdle"
    "t_trace t = filter is_result tr" "ids_ok sm (t_used t)" by (auto simp: sim_def)
  obtain lc lf where res: "sm' = sm\<lparr>sm_queue := snd (drain_started (fst ?p)), sm_last_completed := lc, sm_last_failed := lf\<rparr>"
    "b' = snd ?p" "tr' = tr @ map TranscriptionStarted (q_started (fst ?p)) @ map outcome_event ?rs"
    using poll_completed_result [of record_event be n sm b tr] assms(3) by auto
  let ?t1 = "t\<lparr>t_queue := snd (drain_completed (sm_queue sm)), t_owner := OwnerPolling ?rs\<rparr>"
  have "threads_reachable be c b0 ?t1"
    using assms(1) by (rule threads_reachable.step) (rule poll_results, auto simp: t drain_completed_def)
  then have "threads_reachable be c b0 (?t1\<lparr>t_queue := fst ?p, t_backend := snd ?p\<rparr>)" (is "threads_reachable _ _ _ ?t2")
    by (rule reachable_worker_run [where n = n]) (simp add: t polled_queue_def)
  then have "threads_reachable be c b0 (?t2\<lparr>t_queue := snd (drain_started (fst ?p)), t_owner := OwnerIdle,
       t_announced := t_announced ?t2 @ q_started (fst ?p), t_delivered := t_delivered ?t2 @ map res_session_id ?rs,
       t_trace := t_trace ?t2 @ map TranscriptionStarted (q_started (fst ?p)) @ map outcome_event ?rs\<rparr>)" (is "threads_reachable _ _ _ ?t3")
    by (rule threads_reachable.step) (rule poll_publish, auto simp: drain_started_def)
  moreover have "sim (sm', b', tr') ?t3"
    using t by (simp add: sim_def res ids_ok_def active_session_id_def)
  ultimately show ?thesis by blast
qed

lemma sim_shutdown:
  assumes "threads_reachable be c b0 t" and "sim (sm, b, tr) t"
    and "sm_shutdown record_event be n sm b tr = (dropped, sm', b', tr')"
  shows "\<exists>t'. threads_reachable be c b0 t' \<and> sim (sm', b', tr') t'"
proof -
  from assms(2) have t: "t_queue t = sm_queue sm" "t_backend t = b" "t_owner t = OwnerIdle"
    "t_trace t = filter is_result tr" "ids_ok sm (t_used t)" by (auto simp: sim_def)
  obtain q' where q: "queue_shutdown be n (sm_queue sm, b) = (dropped, q', b')" and sm': "sm' = sm\<lparr>sm_queue := q'\<rparr>"
    and tr': "tr' = tr @ map (\<lambda>i. ErrorOccurred (Some i) ''queue'' ''dropped at shutdown before it could be transcribed'') dropped"
    using sm_shutdown_result [OF assms(3)] by auto
  let ?q1 = "snd (begin_shutdown (sm_queue sm))"
  obtain q2 b2 where run: "worker_run be n (?q1, b) = (q2, b2)" by (cases "worker_run be n (?q1, b)")
  have join: "join_worker be 7 (q2, request_abort be b2) = (q', b')"
    using q run by (auto simp: queue_shutdown_def Let_def split: prod.splits)
  let ?t1 = "t\<lparr>t_queue := ?q1, t_owner := OwnerStopping,
     t_accepted := filter (\<lambda>k. k \<notin> set (fst (begin_shutdown (sm_queue sm)))) (t_accepted t)\<rparr>"
  have "threads_reachable be c b0 ?t1"
    using assms(1) by (rule threads_reachable.step) (rule shutdown_begin, auto simp: t)
  then have "threads_reachable be c b0 (?t1\<lparr>t_queue := q2, t_backend := b2\<rparr>)" (is "threads_reachable _ _ _ ?t2")
    by (rule reachable_worker_run [where n = n]) (simp add: t run)
  then have "threads_reachable be c b0 (?t2\<lparr>t_owner := OwnerJoining, t_backend := request_abort be (t_backend ?t2)\<rparr>)"
    (is "threads_reachable _ _ _ ?t3")
    by (rule threads_reachable.step) (rule shutdown_abort, simp)
  then have "threads_reachable be c b0 (?t3\<lparr>t_queue := q', t_backend := b'\<rparr>)" (is "threads_reachable _ _ _ ?t4")
    by (rule reachable_join_worker [where n = 7]) (simp add: join)
  then have "threads_reachable be c b0 (?t4\<lparr>t_owner := OwnerIdle\<rparr>)" (is "threads_reachable _ _ _ ?t5")
    by (rule threads_reachable.step) (rule shutdown_join, auto simp: queue_shutdown_result(2) [OF q])
  moreover have "sim (sm', b', tr') ?t5"
    using t by (simp add: sim_def sm' tr' ids_ok_def active_session_id_def)
  ultimately show ?thesis by blast
qed

lemma rm_start_trace:
  "rm_start record_event env sid rm tr = (r, rm', w) \<Longrightarrow> w = tr \<or> (r = None \<and> w = tr @ [RecordingStarted sid])"
  by (auto simp: rm_start_def Let_def split: if_splits prod.splits option.splits capture_error.splits)

lemma rm_stop_trace:
  "rm_stop record_event late rm tr = (r, rm', w) \<Longrightarrow> w = tr \<or> (\<exists>sid rec. w = tr @ [RecordingFinished sid rec])"
  by (auto simp: rm_stop_def Let_def split: if_splits option.splits)

lemma start_session_effect:
  assumes "start_session record_event env now now' sm tr = (r, sm', tr')"
  shows "sm_queue sm' = sm_queue sm" and "filter is_result tr' = filter is_result tr"
    and "(sm_next_session_id sm' = sm_next_session_id sm \<and> sm_state sm' = sm_state sm \<and>
          active_session_id sm' = active_session_id sm \<and> started_ids tr' = started_ids tr) \<or>
         (sm_next_session_id sm' = sm_next_session_id sm + 1 \<and> sm_state sm = Idle \<and> sm_state sm' = Idle \<and>
          active_session_id sm' = active_session_id sm \<and> started_ids tr' = started_ids tr) \<or>
         (sm_next_session_id sm' = sm_next_session_id sm + 1 \<and> sm_state sm = Idle \<and> sm_state sm' = Recording \<and>
          active_session_id sm' = Some (sm_next_session_id sm) \<and>
          (started_ids tr' = started_ids tr \<or> started_ids tr' = started_ids tr @ [sm_next_session_id sm]))"
proof -
  let ?sid = "sm_next_session_id sm"
  obtain r' rm' w where start: "rm_start record_event env ?sid (sm_recording_manager sm) tr = (r', rm', w)"
    by (cases "rm_start record_event env ?sid (sm_recording_manager sm) tr")
  have w: "w = tr \<or> (r' = None \<and> w = tr @ [RecordingStarted ?sid])"
    using start by (rule rm_start_trace)
  show "sm_queue sm' = sm_queue sm" "filter is_result tr' = filter is_result tr"
    using assms start w
    by (auto simp: start_session_def Let_def split: if_splits option.splits recording_error.splits)
  show "(sm_next_session_id sm' = sm_next_session_id sm \<and> sm_state sm' = sm_state sm \<and>
          active_session_id sm' = active_session_id sm \<and> started_ids tr' = started_ids tr) \<or>
         (sm_next_session_id sm' = sm_next_session_id sm + 1 \<and> sm_state sm = Idle \<and> sm_state sm' = Idle \<and>
          active_session_id sm' = active_session_id sm \<and> started_ids tr' = started_ids tr) \<or>
         (sm_next_session_id sm' = sm_next_session_id sm + 1 \<and> sm_state sm = Idle \<and> sm_state sm' = Recording \<and>
          active_session_id sm' = Some (sm_next_session_id sm) \<and>
          (started_ids tr' = started_ids tr \<or> started_ids tr' = started_ids tr @ [sm_next_session_id sm]))"
    using assms start w
    by (auto simp: start_session_def active_session_id_def Let_def split: if_splits option.splits recording_error.splits)
qed

lemma sim_start:
  assumes "sim (sm, b, tr) t" and "unat (sm_next_session_id sm) < 2 ^ 64 - 1"
    and "start_session record_event env now now' sm tr = (r, sm', tr')"
  shows "sim (sm', b, tr') t"
proof -
  note eff = start_session_effect [OF assms(3)]
  have next_up: "sm_next_session_id sm < sm_next_session_id sm + 1"
    using assms(2) by (simp add: word_less_nat_alt unat_word_ariths)
  have ok: "ids_ok sm (t_used t)" using assms(1) by (simp add: sim_def)
  from eff(3) have "ids_ok sm' (t_used t)"
  proof (elim disjE)
    assume *: "sm_next_session_id sm' = sm_next_session_id sm + 1 \<and> sm_state sm = Idle \<and> sm_state sm' = Idle \<and>
          active_session_id sm' = active_session_id sm \<and> started_ids tr' = started_ids tr"
    with ok next_up show ?thesis unfolding ids_ok_def by (auto intro: less_trans)
  next
    assume "sm_next_session_id sm' = sm_next_session_id sm + 1 \<and> sm_state sm = Idle \<and> sm_state sm' = Recording \<and>
          active_session_id sm' = Some (sm_next_session_id sm) \<and>
          (started_ids tr' = started_ids tr \<or> started_ids tr' = started_ids tr @ [sm_next_session_id sm])"
    with ok next_up show ?thesis unfolding ids_ok_def by (auto intro: less_trans)
  qed (use ok in \<open>simp add: ids_ok_def\<close>)
  with assms(1) eff(1,2) show ?thesis by (simp add: sim_def)
qed

lemma stop_session_effect:
  assumes "stop_session record_event late now now' enq sm tr = (r, sm', tr')"
  shows "sm_next_session_id sm' = sm_next_session_id sm" and "filter is_result tr' = filter is_result tr"
    and "started_ids tr' = started_ids tr"
    and "(sm_queue sm' = sm_queue sm \<and> (sm' = sm \<or> sm_state sm' = ErrorState)) \<or>
         (\<exists>s job p. sm_state sm = Recording \<and> sm_active_session sm = Some s \<and> job_session_id job = sess_id s \<and>
            try_enqueue job (sm_queue sm) = (Some p, sm_queue sm') \<and> sm_state sm' = Idle)"
proof -
  obtain r' rm' w where stop: "rm_stop record_event late (sm_recording_manager sm) tr = (r', rm', w)"
    by (cases "rm_stop record_event late (sm_recording_manager sm) tr")
  have w: "w = tr \<or> (\<exists>sid rec. w = tr @ [RecordingFinished sid rec])" using stop by (rule rm_stop_trace)
  have refused: "q = sm_queue sm" if "try_enqueue job (sm_queue sm) = (None, q)" for job q
    using that by (auto simp: try_enqueue_def split: if_splits)
  show "sm_next_session_id sm' = sm_next_session_id sm" "filter is_result tr' = filter is_result tr"
    "started_ids tr' = started_ids tr"
    using assms stop w
    by (auto simp: stop_session_def fail_def Let_def split: if_splits prod.splits option.splits sum.splits recording_error.splits)
  show "(sm_queue sm' = sm_queue sm \<and> (sm' = sm \<or> sm_state sm' = ErrorState)) \<or>
         (\<exists>s job p. sm_state sm = Recording \<and> sm_active_session sm = Some s \<and> job_session_id job = sess_id s \<and>
            try_enqueue job (sm_queue sm) = (Some p, sm_queue sm') \<and> sm_state sm' = Idle)"
    using assms stop
    by (auto simp: stop_session_def fail_def Let_def dest: refused
          split: if_splits prod.splits option.splits sum.splits recording_error.splits)
qed

lemma sim_stop:
  assumes "threads_reachable be c b0 t" and "sim (sm, b, tr) t"
    and "stop_session record_event late now now' enq sm tr = (r, sm', tr')"
  shows "\<exists>t'. threads_reachable be c b0 t' \<and> sim (sm', b, tr') t'"
proof -
  note eff = stop_session_effect [OF assms(3)]
  from assms(2) have t: "t_queue t = sm_queue sm" "t_backend t = b" "t_owner t = OwnerIdle"
    "t_trace t = filter is_result tr" "ids_ok sm (t_used t)" by (auto simp: sim_def)
  from eff(4) show ?thesis
  proof (elim disjE exE conjE)
    fix s job p
    assume s: "sm_state sm = Recording" "sm_active_session sm = Some s" "job_session_id job = sess_id s"
      "try_enqueue job (sm_queue sm) = (Some p, sm_queue sm')" "sm_state sm' = Idle"
    with t(5) have fresh: "sess_id s \<notin> t_used t" "sess_id s < sm_next_session_id sm"
      by (auto simp: ids_ok_def active_session_id_def)
    have "thread_step be t (t\<lparr>t_queue := sm_queue sm', t_used := insert (job_session_id job) (t_used t),
       t_accepted := t_accepted t @ [job_session_id job]\<rparr>)" (is "thread_step be t ?t'")
      by (rule enqueue [where p = p]) (simp_all add: t s fresh)
    with assms(1) have "threads_reachable be c b0 ?t'" by (rule threads_reachable.step)
    moreover have "sim (sm', b, tr') ?t'"
      using t eff s fresh by (auto simp: sim_def ids_ok_def)
    ultimately show ?thesis by blast
  qed (use assms(1) t eff in \<open>auto simp: sim_def ids_ok_def intro!: exI [of _ t]\<close>)
qed

lemma cancel_session_effect:
  assumes "cancel_session record_event late sm tr = (r, sm', tr')"
  shows "sm_queue sm' = sm_queue sm \<and> sm_next_session_id sm' = sm_next_session_id sm \<and> sm_state sm' = Idle \<and>
     filter is_result tr' = filter is_result tr \<and> started_ids tr' = started_ids tr"
proof -
  obtain r' rm' w where stop: "rm_stop record_event late (sm_recording_manager sm) tr = (r', rm', w)"
    by (cases "rm_stop record_event late (sm_recording_manager sm) tr")
  have "w = tr \<or> (\<exists>sid rec. w = tr @ [RecordingFinished sid rec])" using stop by (rule rm_stop_trace)
  with assms stop show ?thesis
    by (auto simp: cancel_session_def Let_def split: if_splits option.splits)
qed

lemma sim_cancel_job:
  assumes "threads_reachable be c b0 t" and "sim (sm, b, tr) t"
    and "cancel_job record_event i sm tr = (r, sm', tr')"
  shows "\<exists>t'. threads_reachable be c b0 t' \<and> sim (sm', b, tr') t'"
proof -
  from assms(2) have t: "t_queue t = sm_queue sm" "t_backend t = b" "t_owner t = OwnerIdle"
    "t_trace t = filter is_result tr" "ids_ok sm (t_used t)" by (auto simp: sim_def)
  show ?thesis
  proof (cases "cancel_pending i (sm_queue sm)")
    case (Pair ok q)
    show ?thesis
    proof (cases ok)
      case True
      have "thread_step be t (t\<lparr>t_queue := q, t_accepted := filter (\<lambda>k. k \<noteq> i) (t_accepted t)\<rparr>)" (is "thread_step be t ?t'")
        by (rule cancel) (use t Pair True in simp_all)
      with assms(1) have "threads_reachable be c b0 ?t'" by (rule threads_reachable.step)
      moreover have "sim (sm', b, tr') ?t'"
        using assms(3) Pair True t by (auto simp: sim_def cancel_job_def ids_ok_def active_session_id_def)
      ultimately show ?thesis by blast
    next
      case False
      with Pair have "q = sm_queue sm" by (auto simp: cancel_pending_def split: option.splits)
      with False Pair assms show ?thesis by (auto simp: cancel_job_def)
    qed
  qed
qed

lemma sim_worker:
  assumes "threads_reachable be c b0 t" and "sim (sm, b, tr) t"
    and "worker_run be n (sm_queue sm, b) = (q', b')"
  shows "\<exists>t'. threads_reachable be c b0 t' \<and> sim (sm\<lparr>sm_queue := q'\<rparr>, b', tr) t'"
proof -
  have "threads_reachable be c b0 (t\<lparr>t_queue := q', t_backend := b'\<rparr>)"
    using assms(1) by (rule reachable_worker_run [where n = n]) (use assms in \<open>simp add: sim_def\<close>)
  moreover have "sim (sm\<lparr>sm_queue := q'\<rparr>, b', tr) (t\<lparr>t_queue := q', t_backend := b'\<rparr>)"
    using assms(2) by (simp add: sim_def ids_ok_def active_session_id_def)
  ultimately show ?thesis by blast
qed

lemma sim_callback:
  assumes "threads_reachable be c b0 t" and "sim (sm, b, tr) t"
  shows "\<exists>t'. threads_reachable be c b0 t' \<and> sim (sm_set_activity_callback cb sm, b, tr) t'"
proof -
  have "thread_step be t (t\<lparr>t_queue := set_activity_callback cb (t_queue t)\<rparr>)" (is "thread_step be t ?t'")
    by (rule set_callback) (use assms(2) in \<open>simp add: sim_def\<close>)
  with assms(1) have "threads_reachable be c b0 ?t'" by (rule threads_reachable.step)
  moreover have "sim (sm_set_activity_callback cb sm, b, tr) ?t'"
    using assms(2) by (simp add: sim_def ids_ok_def active_session_id_def sm_set_activity_callback_def)
  ultimately show ?thesis by blast
qed

lemma sim_preview:
  assumes "threads_reachable be c b0 t" and "sim (sm, b, tr) t"
  shows "\<exists>t'. threads_reachable be c b0 t' \<and> sim (sm_exec be (PreviewCalls window req) (sm, b, tr)) t'"
proof (cases "transcription_busy sm")
  case True
  with assms show ?thesis by auto
next
  case False
  let ?t1 = "t\<lparr>t_owner := OwnerPreview\<rparr>"
  let ?t2 = "?t1\<lparr>t_owner := OwnerIdle, t_backend := snd (transcribe_partial be (t_backend ?t1) window req)\<rparr>"
  have "thread_step be t ?t1"
    by (rule preview_enter) (use assms(2) False in \<open>simp_all add: sim_def transcription_busy_def\<close>)
  with assms(1) have "threads_reachable be c b0 ?t1" by (rule threads_reachable.step)
  then have "threads_reachable be c b0 ?t2" by (rule threads_reachable.step) (rule preview_return, simp)
  moreover have "sim (sm_exec be (PreviewCalls window req) (sm, b, tr)) ?t2"
    using assms(2) False by (simp add: sim_def)
  ultimately show ?thesis by blast
qed

lemma sim_exec:
  assumes "threads_reachable be c b0 t" and "sim (sm, b, tr) t" and "unat (sm_next_session_id sm) < 2 ^ 64 - 1"
  shows "\<exists>t'. threads_reachable be c b0 t' \<and> sim (sm_exec be cmd (sm, b, tr)) t'"
proof (cases cmd)
  case (CmdStart env now now')
  with assms show ?thesis
    by (cases "start_session record_event env now now' sm tr") (auto dest: sim_start)
next
  case (CmdStop late now now' enq)
  with assms show ?thesis
    by (cases "stop_session record_event late now now' enq sm tr") (auto dest: sim_stop)
next
  case (CmdPoll n)
  with assms show ?thesis by (cases "poll_completed record_event be n sm b tr") (auto dest: sim_poll)
next
  case (CmdCancel late)
  with assms cancel_session_effect [of late sm tr] show ?thesis
    by (cases "cancel_session record_event late sm tr") (auto simp: sim_def ids_ok_def)
next
  case (CmdCancelJob i)
  with assms show ?thesis by (cases "cancel_job record_event i sm tr") (auto dest: sim_cancel_job)
next
  case (CmdConfigure cfg)
  with assms show ?thesis
    by (auto simp: sim_def ids_ok_def active_session_id_def sm_on_configuration_changed_def intro!: exI [of _ t])
next
  case (CmdCallback cb)
  with assms sim_callback show ?thesis by simp
next
  case (CmdShutdown n)
  with assms show ?thesis by (cases "sm_shutdown record_event be n sm b tr") (auto dest: sim_shutdown)
next
  case (PreviewCalls window req)
  show ?thesis unfolding PreviewCalls by (rule sim_preview [OF assms(1,2)])
next
  case (WorkerMoves n)
  with assms show ?thesis by (cases "worker_run be n (sm_queue sm, b)") (auto dest: sim_worker)
next
  case (AudioMoves a)
  with assms show ?thesis
    by (auto simp: sim_def ids_ok_def active_session_id_def intro!: exI [of _ t])
qed

section \<open>Session ids\<close>

fun is_start :: "'cb sm_command \<Rightarrow> bool" where
  "is_start (CmdStart _ _ _) = True"
| "is_start _ = False"

definition start_count :: "'cb sm_command list \<Rightarrow> nat" where
  "start_count cs = length (filter is_start cs)"

lemma exec_next_id:
  "sm_next_session_id (fst (sm_exec be c s)) = sm_next_session_id (fst s) \<and> started_ids (snd (snd (sm_exec be c s))) = started_ids (snd (snd s)) \<or>
   (is_start c \<and> sm_next_session_id (fst (sm_exec be c s)) = sm_next_session_id (fst s) + 1 \<and>
    (started_ids (snd (snd (sm_exec be c s))) = started_ids (snd (snd s)) \<or>
     started_ids (snd (snd (sm_exec be c s))) = started_ids (snd (snd s)) @ [sm_next_session_id (fst s)]))"
proof -
  obtain sm b tr where s: "s = (sm, b, tr)" by (cases s)
  have errors: "started_ids (map (\<lambda>i. ErrorOccurred (Some i) x y) ids) = []"
    "started_ids (map TranscriptionStarted ids) = []" "started_ids (map outcome_event rs) = []" for ids x y rs
  proof -
    show "started_ids (map (\<lambda>i. ErrorOccurred (Some i) x y) ids) = []" "started_ids (map TranscriptionStarted ids) = []"
      by (induction ids) simp_all
    show "started_ids (map outcome_event rs) = []"
      by (induction rs) (auto simp: outcome_event_def split: sum.splits speech_error.splits)
  qed
  show ?thesis
  proof (cases c)
    case (CmdStart env now now')
    with s show ?thesis using start_session_effect(3) [of env now now' sm tr]
      by (cases "start_session record_event env now now' sm tr") auto
  next
    case (CmdStop late now now' enq)
    with s show ?thesis using stop_session_effect(1,3) [of late now now' enq sm tr]
      by (cases "stop_session record_event late now now' enq sm tr") auto
  next
    case (CmdCancel late)
    with s show ?thesis using cancel_session_effect [of late sm tr]
      by (cases "cancel_session record_event late sm tr") auto
  next
    case (CmdPoll n)
    with s show ?thesis using poll_completed_result [of record_event be n sm b tr] by (auto simp: errors)
  qed (auto simp: s errors cancel_job_def sm_on_configuration_changed_def sm_set_activity_callback_def sm_shutdown_def
        split: prod.splits bool.splits)
qed

lemma sm_run_snoc: "sm_run be (cs @ [c]) s = sm_exec be c (sm_run be cs s)"
  by (simp add: sm_run_def)

lemma run_next_id:
  "unat (sm_next_session_id (fst (sm_run be cs (initial_service cfg k b)))) \<le> 1 + start_count cs"
proof (induction cs rule: rev_induct)
  case Nil
  show ?case by (simp add: sm_run_def initial_service_def new_session_manager_def)
next
  case (snoc c cs)
  let ?s = "sm_run be cs (initial_service cfg k b)"
  have "unat (sm_next_session_id (fst ?s) + 1) \<le> unat (sm_next_session_id (fst ?s)) + 1"
    by (simp add: unat_word_ariths)
  with snoc exec_next_id [of be c ?s] show ?case
    by (auto simp: sm_run_snoc start_count_def)
qed

lemma run_sim:
  "start_count cs < 2 ^ 64 - 2 \<Longrightarrow>
     \<exists>t. threads_reachable be k b t \<and> sim (sm_run be cs (initial_service cfg k b)) t"
proof (induction cs rule: rev_induct)
  case Nil
  have "sim (initial_service cfg k b) (init_threads k b)"
    by (simp add: sim_def initial_service_def init_threads_def ids_ok_def new_session_manager_def)
  then show ?case using threads_reachable.start [of be k b] by (auto simp: sm_run_def)
next
  case (snoc c cs)
  then have "start_count cs < 2 ^ 64 - 2" by (simp add: start_count_def)
  moreover have "unat (sm_next_session_id (fst (sm_run be cs (initial_service cfg k b)))) < 2 ^ 64 - 1"
    using run_next_id [of be cs cfg k b] calculation by linarith
  ultimately show ?case
    using snoc.IH sim_exec [of be k b _ "fst (sm_run be cs (initial_service cfg k b))"]
    unfolding sm_run_snoc by (metis prod.collapse)
qed

text \<open>
  Session ids are never reused. The ids of the recordings that start are strictly increasing
  (so pairwise distinct) over any history with fewer than \<open>2^64 - 2\<close> calls of \<^verbatim>\<open>start_session\<close>, the
  bound at which the 64-bit counter could wrap around.
\<close>

theorem session_ids_strictly_increase:
  assumes "sm_run be cs (initial_service cfg capacity b) = (sm, b', tr)" and "start_count cs < 2 ^ 64 - 2"
  shows "sorted_wrt (<) (started_ids tr) \<and> (\<forall>i \<in> set (started_ids tr). i < sm_next_session_id sm)"
proof -
  let ?ok = "\<lambda>s. sorted_wrt (<) (started_ids (snd (snd s))) \<and>
     (\<forall>i \<in> set (started_ids (snd (snd s))). i < sm_next_session_id (fst s))"
  have "?ok (sm_run be cs (initial_service cfg capacity b))" using assms(2)
  proof (induction cs rule: rev_induct)
    case Nil
    show ?case by (simp add: sm_run_def initial_service_def)
  next
    case (snoc c cs)
    let ?s = "sm_run be cs (initial_service cfg capacity b)"
    have bound: "start_count cs < 2 ^ 64 - 2" using snoc.prems by (simp add: start_count_def)
    with run_next_id [of be cs cfg capacity b] have "unat (sm_next_session_id (fst ?s)) < 2 ^ 64 - 1" by linarith
    then have up: "sm_next_session_id (fst ?s) < sm_next_session_id (fst ?s) + 1"
      by (simp add: word_less_nat_alt unat_word_ariths)
    then have up': "i < sm_next_session_id (fst ?s) \<Longrightarrow> i < sm_next_session_id (fst ?s) + 1" for i
      by (rule less_trans [rotated])
    have "?ok ?s" using snoc.IH bound by blast
    with up up' exec_next_id [of be c ?s] show ?case
      unfolding sm_run_snoc by (auto simp: sorted_wrt_append)
  qed
  with assms(1) show ?thesis by simp
qed

lemma run_announced:
  assumes "sm_run be cs (initial_service cfg capacity b) = (sm, b', tr)" and "start_count cs < 2 ^ 64 - 2"
  shows "distinct (outcomes (filter is_result tr)) \<and>
    (\<forall>earlier ev later i. tr = earlier @ ev # later \<longrightarrow> is_result ev \<longrightarrow> outcome_of ev = Some i \<longrightarrow>
       TranscriptionStarted i \<in> set earlier)"
proof -
  from run_sim [OF assms(2), of be capacity b cfg] assms(1)
  obtain t where t: "threads_reachable be capacity b t" and "sim (sm, b', tr) t" by auto
  then have trace: "t_trace t = filter is_result tr" by (simp add: sim_def)
  from reachable_invs [OF t] have inv: "order_inv t" "fresh_inv t" "trace_inv t" by auto
  then have "distinct (t_accepted t)" "t_accepted t = answered t @ pending_ids (t_queue t)"
    by (simp_all add: order_inv_def fresh_inv_def)
  with inv trace have "distinct (outcomes (filter is_result tr))"
    by (auto simp: answered_def trace_inv_def)
  moreover have "TranscriptionStarted i \<in> set earlier"
    if tr: "tr = earlier @ ev # later" "is_result ev" "outcome_of ev = Some i" for earlier ev later i
  proof -
    have "well_announced (filter is_result earlier @ ev # filter is_result later)"
      using inv(3) trace tr by (simp add: trace_inv_def)
    then have "i \<in> starts (filter is_result earlier)"
      using tr(3) unfolding well_announced_append by (auto dest!: spec [of _ "0 :: nat"])
    then show ?thesis by (simp add: starts_def)
  qed
  ultimately show ?thesis by blast
qed

text \<open>
  What clients see of the worker, end to end. In the event sequence of any history with fewer
  than \<open>2^64 - 2\<close> starts, every result (a completed transcript, or the speech error of a session) is
  preceded by TranscriptionStarted for the same session, and no session gets two results.
\<close>

theorem results_announced_and_unique:
  assumes "sm_run be cs (initial_service cfg capacity b) = (sm, b', tr)" and "start_count cs < 2 ^ 64 - 2"
  shows "distinct (outcomes (filter is_result tr)) \<and>
    (\<forall>earlier ev later i. tr = earlier @ ev # later \<longrightarrow> is_result ev \<longrightarrow> outcome_of ev = Some i \<longrightarrow>
       TranscriptionStarted i \<in> set earlier)"
  using assms by (rule run_announced)

section \<open>No session is lost\<close>

text \<open>The sessions whose end was published: a transcript, an error, or a cancellation.\<close>

fun settles :: "event \<Rightarrow> session_id set" where
  "settles (TranscriptionCompleted i _) = {i}"
| "settles (ErrorOccurred (Some i) _ _) = {i}"
| "settles (SessionCancelled i) = {i}"
| "settles _ = {}"

definition settled :: "event list \<Rightarrow> session_id set" where
  "settled tr = (\<Union>ev \<in> set tr. settles ev)"

definition queue_ids :: "'cb transcription_queue \<Rightarrow> session_id set" where
  "queue_ids q = set (completed_ids q) \<union> set (held_ids q) \<union> set (pending_ids q)"

definition tracked :: "('cb, 'b) service \<Rightarrow> session_id set" where
  "tracked s = (case s of (sm, b, tr) \<Rightarrow>
     set_option (active_session_id sm) \<union> queue_ids (sm_queue sm) \<union> settled tr)"

lemma settled_append [simp]: "settled (xs @ ys) = settled xs \<union> settled ys"
  by (simp add: settled_def)

lemma settled_simps [simp]:
  "settled [] = {}" "settled [ev] = settles ev"
  "settled (map outcome_event rs) = set (map res_session_id rs)"
  "settled (map TranscriptionStarted ids) = {}"
  "settled (map (\<lambda>i. ErrorOccurred (Some i) x y) ids) = set ids"
  by (auto simp: settled_def outcome_event_def split: sum.splits speech_error.splits)

lemma queue_ids_worker_run: "queue_inv (fst s) \<Longrightarrow> queue_ids (fst (worker_run be n s)) = queue_ids (fst s)"
proof (induction n arbitrary: s)
  case (Suc n)
  let ?q = "fst (fst (worker_step be s))"
  from worker_step_history [OF Suc.prems, of be "snd s"] obtain new where
    "completed_ids ?q @ held_ids ?q = completed_ids (fst s) @ held_ids (fst s) @ new"
    "pending_ids (fst s) = new @ pending_ids ?q" by auto
  then have "set (completed_ids ?q @ held_ids ?q @ pending_ids ?q) =
      set (completed_ids (fst s) @ held_ids (fst s) @ pending_ids (fst s))"
    by (metis append.assoc)
  then have "queue_ids ?q = queue_ids (fst s)" by (simp add: queue_ids_def Un_assoc)
  moreover have "queue_inv ?q" using queue_inv_worker [OF Suc.prems, of be "snd s"] by simp
  ultimately show ?case using Suc.IH [of "fst (worker_step be s)"] by simp
qed simp

lemma tracked_poll:
  assumes "sm_inv sm" and "poll_completed record_event be n sm b tr = (k, sm', b', tr')"
  shows "tracked (sm, b, tr) \<subseteq> tracked (sm', b', tr')"
proof -
  let ?q = "fst (polled_queue be n (sm_queue sm) b)"
  obtain c f where res: "sm' = sm\<lparr>sm_queue := snd (drain_started ?q), sm_last_completed := c, sm_last_failed := f\<rparr>"
    "tr' = tr @ map TranscriptionStarted (q_started ?q) @ map outcome_event (q_completed (sm_queue sm))"
    using poll_completed_result [of record_event be n sm b tr] assms(2) by auto
  have "queue_inv (snd (drain_completed (sm_queue sm)))" using assms(1) by (simp add: sm_inv_def queue_inv_drain)
  then have "queue_ids ?q = queue_ids (snd (drain_completed (sm_queue sm)))"
    unfolding polled_queue_def using queue_ids_worker_run [of "(snd (drain_completed (sm_queue sm)), b)"] by simp
  then show ?thesis
    by (auto simp: tracked_def res queue_ids_def drain_completed_def drain_started_def completed_ids_def active_session_id_def)
qed

lemma tracked_shutdown:
  assumes "sm_shutdown record_event be n sm b tr = (dropped, sm', b', tr')"
  shows "tracked (sm, b, tr) \<subseteq> tracked (sm', b', tr')"
proof -
  obtain q' where q: "queue_shutdown be n (sm_queue sm, b) = (dropped, q', b')" and sm': "sm' = sm\<lparr>sm_queue := q'\<rparr>"
    and tr': "tr' = tr @ map (\<lambda>i. ErrorOccurred (Some i) ''queue'' ''dropped at shutdown before it could be transcribed'') dropped"
    using sm_shutdown_result [OF assms] by auto
  have "settled tr' = settled tr \<union> set dropped" by (simp add: tr')
  with queue_shutdown_result(1,5) [OF q] show ?thesis
    by (auto simp: tracked_def sm' queue_ids_def active_session_id_def)
qed

lemma tracked_start:
  assumes "sm_inv sm" and "start_session record_event env now now' sm tr = (r, sm', tr')"
  shows "tracked (sm, b, tr) \<subseteq> tracked (sm', b, tr')" and "set (started_ids tr') \<subseteq> set (started_ids tr) \<union> tracked (sm', b, tr')"
proof -
  obtain r' rm' w where start: "rm_start record_event env (sm_next_session_id sm) (sm_recording_manager sm) tr = (r', rm', w)"
    by (cases "rm_start record_event env (sm_next_session_id sm) (sm_recording_manager sm) tr")
  have settled: "settled tr' = settled tr"
    using assms(2) start rm_start_trace [OF start]
    by (auto simp: start_session_def Let_def split: if_splits option.splits recording_error.splits)
  have idle: "sm_state sm = Idle \<Longrightarrow> active_session_id sm = None"
    using assms(1) by (simp add: sm_inv_def active_session_id_def)
  note eff = start_session_effect(1,3) [OF assms(2)]
  from eff(2) show "tracked (sm, b, tr) \<subseteq> tracked (sm', b, tr')"
    by (elim disjE conjE) (auto simp add: tracked_def settled eff(1) idle)
  from eff(2) show "set (started_ids tr') \<subseteq> set (started_ids tr) \<union> tracked (sm', b, tr')"
    by (elim disjE conjE) (auto simp add: tracked_def)
qed

lemma tracked_stop:
  assumes "sm_inv sm" and "stop_session record_event late now now' enq sm tr = (r, sm', tr')"
  shows "tracked (sm, b, tr) \<subseteq> tracked (sm', b, tr')"
proof -
  obtain r' rm' w where stop: "rm_stop record_event late (sm_recording_manager sm) tr = (r', rm', w)"
    by (cases "rm_stop record_event late (sm_recording_manager sm) tr")
  have w: "settled w = settled tr" using rm_stop_trace [OF stop] by auto
  have enq: "queue_ids q = queue_ids (sm_queue sm) \<union> (if p = None then {} else {job_session_id job})"
    if "try_enqueue job (sm_queue sm) = (p, q)" for job p q
    using that by (auto simp: try_enqueue_def queue_ids_def completed_ids_def split: if_splits)
  show ?thesis
    using assms(2) stop w
    by (auto simp: stop_session_def fail_def Let_def tracked_def active_session_id_def dest!: enq
        split: if_splits prod.splits option.splits sum.splits recording_error.splits)
qed

lemma tracked_cancel:
  assumes "cancel_session record_event late sm tr = (r, sm', tr')"
  shows "tracked (sm, b, tr) \<subseteq> tracked (sm', b, tr')"
proof -
  obtain r' rm' w where stop: "rm_stop record_event late (sm_recording_manager sm) tr = (r', rm', w)"
    by (cases "rm_stop record_event late (sm_recording_manager sm) tr")
  have "settled w = settled tr" using rm_stop_trace [OF stop] by auto
  with assms stop show ?thesis
    by (auto simp: cancel_session_def tracked_def active_session_id_def Let_def split: if_splits option.splits)
qed

lemma tracked_cancel_job:
  assumes "cancel_job record_event i sm tr = (r, sm', tr')"
  shows "tracked (sm, b, tr) \<subseteq> tracked (sm', b, tr')"
  using assms
  by (auto simp: cancel_job_def cancel_pending_def tracked_def active_session_id_def queue_ids_def completed_ids_def erase_job_Some
      split: option.splits prod.splits bool.splits)

lemma tracked_exec:
  assumes "sm_inv (fst s)" and "set (started_ids (snd (snd s))) \<subseteq> tracked s"
  shows "set (started_ids (snd (snd (sm_exec be c s)))) \<subseteq> tracked (sm_exec be c s)"
proof -
  obtain sm b tr where s: "s = (sm, b, tr)" by (cases s)
  have mono: "tracked s \<subseteq> tracked (sm_exec be c s)"
  proof (cases c)
    case (CmdPoll n)
    with s assms(1) tracked_poll [of sm be n b tr] show ?thesis
      by (cases "poll_completed record_event be n sm b tr") simp
  next
    case (CmdShutdown n)
    with s tracked_shutdown [of be n sm b tr] show ?thesis
      by (cases "sm_shutdown record_event be n sm b tr") simp
  next
    case (WorkerMoves n)
    have "queue_ids (fst (worker_run be n (sm_queue sm, b))) = queue_ids (sm_queue sm)"
      using assms(1) s queue_ids_worker_run [of "(sm_queue sm, b)"] by (simp add: sm_inv_def)
    with WorkerMoves s show ?thesis by (auto simp: tracked_def active_session_id_def split: prod.splits)
  next
    case (CmdStart env now now')
    with s assms(1) tracked_start(1) [of sm env now now' tr _ _ _ b] show ?thesis
      by (cases "start_session record_event env now now' sm tr") simp
  next
    case (CmdStop late now now' enq)
    with s assms(1) tracked_stop [of sm late now now' enq tr _ _ _ b] show ?thesis
      by (cases "stop_session record_event late now now' enq sm tr") simp
  next
    case (CmdCancel late)
    with s tracked_cancel [of late sm tr _ _ _ b] show ?thesis
      by (cases "cancel_session record_event late sm tr") simp
  next
    case (CmdCancelJob i)
    with s tracked_cancel_job [of i sm tr _ _ _ b] show ?thesis
      by (cases "cancel_job record_event i sm tr") simp
  next
    case (PreviewCalls window req)
    with s show ?thesis by (auto simp: tracked_def)
  qed (simp_all add: s tracked_def active_session_id_def queue_ids_def completed_ids_def
         sm_on_configuration_changed_def sm_set_activity_callback_def set_activity_callback_def)
  moreover have "set (started_ids (snd (snd (sm_exec be c s)))) \<subseteq> set (started_ids (snd (snd s))) \<union> tracked (sm_exec be c s)"
  proof (cases c)
    case (CmdStart env now now')
    with s assms(1) tracked_start(2) [of sm env now now' tr _ _ _ b] show ?thesis
      by (cases "start_session record_event env now now' sm tr") simp
  qed (use exec_next_id [of be c s] in auto)
  ultimately show ?thesis using assms(2) by blast
qed

lemma run_tracked:
  "set (started_ids (snd (snd (sm_run be cs (initial_service cfg capacity b))))) \<subseteq> tracked (sm_run be cs (initial_service cfg capacity b))"
proof (induction cs rule: rev_induct)
  case Nil
  show ?case by (simp add: sm_run_def initial_service_def)
next
  case (snoc c cs)
  have "sm_inv (fst (sm_run be cs (initial_service cfg capacity b)))"
    by (intro sm_inv_run) (simp add: initial_service_def sm_inv_new)
  with snoc tracked_exec show ?case unfolding sm_run_snoc by blast
qed

lemma settles_iff:
  "i \<in> settles ev \<longleftrightarrow> (\<exists>t. ev = TranscriptionCompleted i t) \<or> (\<exists>c m. ev = ErrorOccurred (Some i) c m) \<or> ev = SessionCancelled i"
  by (cases ev rule: settles.cases) auto

text \<open>
  No dictation is ever lost silently. Over any history, every session whose recording started
  is the active one, or one the queue still owes a result, or one whose result waits to be
  published, or its end has been published (a transcript, an error naming it, or a cancellation).
  In particular, once the service was shut down and its results polled, every session that is not
  active has a published outcome.
\<close>

theorem no_session_lost:
  assumes "sm_run be cs (initial_service cfg capacity b) = (sm, b', tr)" and "i \<in> set (started_ids tr)"
  shows "active_session_id sm = Some i \<or> i \<in> set (map job_session_id (outstanding (sm_queue sm))) \<or>
         i \<in> set (map res_session_id (q_completed (sm_queue sm))) \<or>
         (\<exists>ev \<in> set tr. (\<exists>t. ev = TranscriptionCompleted i t) \<or> (\<exists>c m. ev = ErrorOccurred (Some i) c m) \<or>
            ev = SessionCancelled i)"
proof -
  have "i \<in> tracked (sm, b', tr)" using run_tracked [of be cs cfg capacity b] assms by auto
  then show ?thesis
    by (auto simp: tracked_def settled_def settles_iff queue_ids_def completed_ids_def outstanding_def)
qed

section \<open>The status snapshot\<close>

text \<open>
  A status reply never contradicts itself. In any reachable state it says "processing" exactly
  when nothing is being recorded or failed and the queue owes at least one result; "idle" exactly
  when a new session could be started and nothing is outstanding; the numbers add up to the jobs
  the queue owes; and the preview is kept out of the backend exactly while there are any.
\<close>

theorem status_consistent:
  assumes "sm_run be cs (initial_service cfg capacity b) = (sm, b', tr)"
  shows "(st_state (status sm) = Processing \<longleftrightarrow> active_session_id sm = None \<and> outstanding (sm_queue sm) \<noteq> []) \<and>
     (st_state (status sm) = Idle \<longleftrightarrow> active_session_id sm = None \<and> outstanding (sm_queue sm) = []) \<and>
     st_queued (status sm) + (if st_processing (status sm) then 1 else 0) = length (outstanding (sm_queue sm)) \<and>
     st_queued (status sm) \<le> q_capacity (sm_queue sm) \<and>
     service_state_of sm = st_state (status sm) \<and>
     (transcription_busy sm \<longleftrightarrow> outstanding (sm_queue sm) \<noteq> [])"
proof -
  have inv: "sm_inv sm"
    using sm_inv_run [of "initial_service cfg capacity b" be cs] assms
    by (simp add: initial_service_def sm_inv_new)
  then have q: "queue_inv (sm_queue sm)" by (simp add: sm_inv_def)
  have idle: "active_session_id sm = None \<longleftrightarrow> sm_state sm = Idle"
    using inv by (cases "sm_state sm") (auto simp: sm_inv_def active_session_id_def)
  have no_processing: "sm_state sm \<noteq> Processing" using inv by (auto simp: sm_inv_def)
  have busy: "q_busy (sm_queue sm) \<longleftrightarrow> held_job (q_worker (sm_queue sm)) \<noteq> []" and
    cap: "length (q_pending (sm_queue sm)) \<le> q_capacity (sm_queue sm)" using q by (simp_all add: queue_inv_def)
  show ?thesis
    using outstanding_count_length [OF q] idle no_processing busy cap
    by (auto simp: status_def service_state_of_def derive_state_def queue_snapshot_of_def transcription_busy_def
        outstanding_count_def outstanding_def Let_def)
qed

section \<open>Witnesses\<close>

definition mic_ok :: open_outcome where
  "mic_ok = \<lparr>ma_init_ok = True, ma_start_ok = True, stopped_early = None\<rparr>"

definition demo_commands :: "unit sm_command list" where
  "demo_commands = [CmdStart mic_ok 0 0, AudioMoves (Captured False [1/2])]"

definition demo_service :: "(unit, nat whisper_backend) service" where
  "demo_service = sm_run (whisper_vtable demo_api) demo_commands (initial_service default_configuration 2 demo_backend)"

lemma demo_service_eval:
  "\<exists>sm. demo_service = (sm, demo_backend, [RecordingStarted 1]) \<and> sm_state sm = Recording \<and>
     \<not> q_stopping (sm_queue sm) \<and> dev_running (rm_device (sm_recording_manager sm)) \<and>
     rm_samples (sm_recording_manager sm) = [1/2] \<and> active_session_id sm = Some 1 \<and>
     outstanding (sm_queue sm) = [] \<and> q_completed (sm_queue sm) = []"
  by (simp add: demo_service_def demo_commands_def sm_run_def initial_service_def new_session_manager_def
      start_session_def rm_start_def device_start_def new_recording_manager_def new_device_def mic_ok_def
      has_capacity_def new_queue_def active_session_id_def outstanding_def yoru_ops try_transition_def)

lemma demo_start_count: "start_count demo_commands < 2 ^ 64 - 2"
  by (simp add: start_count_def demo_commands_def)

theorem service_state_machine_witness:
  "\<exists>sm. demo_service = (sm, demo_backend, [RecordingStarted 1]) \<and>
     dev_live (rm_device (sm_recording_manager sm)) = 1"
proof -
  obtain sm where d: "demo_service = (sm, demo_backend, [RecordingStarted 1])" "sm_state sm = Recording"
    using demo_service_eval by blast
  from service_state_machine [OF d(1) [unfolded demo_service_def], of record_event "[]" 0 0 0 "[]" "CmdPoll 0"] d show ?thesis by auto
qed

theorem stop_session_queues_the_recording_witness:
  "\<exists>sm. demo_service = (sm, demo_backend, [RecordingStarted 1]) \<and>
     fst (stop_session record_event [] 5 6 7 sm []) = Some (Inl \<lparr>qj_session_id = 1, qj_position = 0\<rparr>)"
proof -
  obtain sm where d: "demo_service = (sm, demo_backend, [RecordingStarted 1])" "sm_state sm = Recording"
    "\<not> q_stopping (sm_queue sm)" "dev_running (rm_device (sm_recording_manager sm))"
    "active_session_id sm = Some 1" "outstanding (sm_queue sm) = []"
    using demo_service_eval by blast
  from stop_session_queues_the_recording [OF d(1) [unfolded demo_service_def] d(2-4), of record_event "[]" 5 6 7 "[]"] d
  show ?thesis by auto
qed

theorem session_ids_strictly_increase_witness:
  "\<exists>sm tr. demo_service = (sm, demo_backend, tr) \<and> started_ids tr = [1] \<and> 1 < sm_next_session_id sm"
proof -
  obtain sm where d: "demo_service = (sm, demo_backend, [RecordingStarted 1])" using demo_service_eval by blast
  from session_ids_strictly_increase [OF d [unfolded demo_service_def] demo_start_count] d show ?thesis
    by (intro exI [of _ sm] exI [of _ "[RecordingStarted 1]"]) simp
qed

theorem no_session_lost_witness:
  "\<exists>sm tr. demo_service = (sm, demo_backend, tr) \<and> 1 \<in> set (started_ids tr) \<and> active_session_id sm = Some 1"
proof -
  obtain sm where d: "demo_service = (sm, demo_backend, [RecordingStarted 1])" "outstanding (sm_queue sm) = []"
    "q_completed (sm_queue sm) = []" using demo_service_eval by blast
  from no_session_lost [OF d(1) [unfolded demo_service_def], of 1] d show ?thesis
    by (intro exI [of _ sm] exI [of _ "[RecordingStarted 1]"]) simp
qed

theorem status_consistent_witness:
  "\<exists>sm tr. demo_service = (sm, demo_backend, tr) \<and> st_queued (status sm) = 0 \<and> \<not> transcription_busy sm"
proof -
  obtain sm where d: "demo_service = (sm, demo_backend, [RecordingStarted 1])" "outstanding (sm_queue sm) = []"
    using demo_service_eval by blast
  from status_consistent [OF d(1) [unfolded demo_service_def]] d show ?thesis by auto
qed

text \<open>A whole dictation: recorded, queued, transcribed, and its transcript published.\<close>

definition demo_dictation :: "unit sm_command list" where
  "demo_dictation = demo_commands @ [CmdStop [] 5 6 7, WorkerMoves 4, CmdPoll 0]"

lemma demo_dictation_trace:
  "\<exists>sm b' rec t. sm_run (whisper_vtable demo_api) demo_dictation (initial_service default_configuration 2 demo_backend) =
     (sm, b', [RecordingStarted 1, RecordingFinished 1 rec, TranscriptionQueued 1 0, TranscriptionStarted 1] @
       TranscriptionCompleted 1 t # [])"
  by (simp add: demo_dictation_def demo_commands_def sm_run_def initial_service_def new_session_manager_def
      start_session_def rm_start_def device_start_def new_recording_manager_def new_device_def mic_ok_def
      new_queue_def yoru_ops try_transition_def stop_session_def audio_steps_def nat_four
      worker_step.simps queue_ops whisper_defs demo_backend_def new_whisper_backend_def demo_api_def
      poll_completed_def publish_result_def)

theorem results_announced_and_unique_witness:
  "\<exists>sm b' tr. sm_run (whisper_vtable demo_api) demo_dictation (initial_service default_configuration 2 demo_backend) =
     (sm, b', tr) \<and> outcomes (filter is_result tr) = [1] \<and> TranscriptionStarted 1 \<in> set (butlast tr)"
proof -
  obtain sm b' rec t where d: "sm_run (whisper_vtable demo_api) demo_dictation (initial_service default_configuration 2 demo_backend) =
     (sm, b', [RecordingStarted 1, RecordingFinished 1 rec, TranscriptionQueued 1 0, TranscriptionStarted 1] @
       TranscriptionCompleted 1 t # [])" using demo_dictation_trace by blast
  have "start_count demo_dictation < 2 ^ 64 - 2"
    by (simp add: start_count_def demo_dictation_def demo_commands_def)
  then have "TranscriptionStarted 1 \<in> set [RecordingStarted 1, RecordingFinished 1 rec, TranscriptionQueued 1 0, TranscriptionStarted 1]"
    by (rule results_announced_and_unique [OF d, THEN conjunct2, rule_format, OF _ refl]) simp_all
  with d show ?thesis by (auto simp: outcomes_def map_filter_simps)
qed

end
