(* ===== verification/Live_Transcriber.thy ===== *)
theory Live_Transcriber
  imports Session_Manager
begin

text \<open>
  \<^verbatim>\<open>LiveTranscriber\<close> (\<^verbatim>\<open>src/domains/session/live_transcriber.cpp\<close>): the preview shown while the user is
  still speaking. The text functions come first, in the order of the source, then the object's state
  and \<open>tick\<close>, which is composed of the steps the C++ function performs in sequence. Samples are
  exact binary32 values; \<open>rnd\<close> is the rounding every float operation applies. Clock readings are in
  nanoseconds. \<open>late\<close> is what the audio thread appends between two snapshots of the recording.
\<close>

section \<open>Words\<close>

text \<open>\<^verbatim>\<open>stream >> word\<close>: skip white space, then read up to the next white space.\<close>

function split_words :: "string \<Rightarrow> string list" where
  "split_words s =
     (let t = dropWhile isspace s
      in if t = [] then []
         else takeWhile (\<lambda>c. \<not> isspace c) t # split_words (dropWhile (\<lambda>c. \<not> isspace c) t))"
  by pat_completeness auto

lemma split_words_decreases:
  assumes "dropWhile isspace s \<noteq> []"
  shows "length (dropWhile (\<lambda>c. \<not> isspace c) (dropWhile isspace s)) < length s"
proof -
  obtain c t where t: "dropWhile isspace s = c # t" using assms by (cases "dropWhile isspace s") auto
  then have "\<not> isspace c" by (metis dropWhile_eq_Cons_conv)
  then have "length (dropWhile (\<lambda>c. \<not> isspace c) (c # t)) \<le> length t" by (simp add: length_dropWhile_le)
  moreover have "length (c # t) \<le> length s" using length_dropWhile_le [of isspace s] t by simp
  ultimately show ?thesis using t by simp
qed

termination split_words
  by (relation "measure length") (auto simp: split_words_decreases)

declare split_words.simps [simp del]

definition append_word :: "string \<Rightarrow> string \<Rightarrow> string" where
  "append_word word joined = (if joined \<noteq> [] then joined @ '' '' else joined) @ word"

definition join_words :: "string list \<Rightarrow> nat \<Rightarrow> nat \<Rightarrow> string" where
  "join_words words from_index to_index = fold append_word (drop from_index (take to_index words)) ''''"

definition strip_trailing_punctuation :: "string \<Rightarrow> string" where
  "strip_trailing_punctuation word = rev (dropWhile ispunct (rev word))"

definition words_match :: "string \<Rightarrow> string \<Rightarrow> bool" where
  "words_match a b \<longleftrightarrow> strip_trailing_punctuation a = strip_trailing_punctuation b"

fun common_prefix_length :: "string list \<Rightarrow> string list \<Rightarrow> nat" where
  "common_prefix_length (a # as) (b # bs) = (if words_match a b then Suc (common_prefix_length as bs) else 0)"
| "common_prefix_length _ _ = 0"

definition overlap_matches :: "string list \<Rightarrow> string list \<Rightarrow> nat \<Rightarrow> bool" where
  "overlap_matches previous new k =
     list_all (\<lambda>i. words_match (previous ! (length previous - k + i)) (new ! i)) [0..<k]"

fun overlap_loop :: "string list \<Rightarrow> string list \<Rightarrow> nat \<Rightarrow> nat" where
  "overlap_loop previous new 0 = 0"
| "overlap_loop previous new (Suc k) =
     (if overlap_matches previous new (Suc k) then Suc k else overlap_loop previous new k)"

definition overlap_prefix_length :: "string list \<Rightarrow> string list \<Rightarrow> nat" where
  "overlap_prefix_length previous new = overlap_loop previous new (min (length previous) (length new))"

section \<open>Voice activity\<close>

text \<open>\<^verbatim>\<open>static_cast<std::size_t>(d.count()) * audio::kSampleRate / 1000\<close>, in 64 bits.\<close>

definition samples_in :: "milliseconds \<Rightarrow> nat" where
  "samples_in d = nat (d mod 2 ^ 64) * unat kSampleRate mod 2 ^ 64 div 1000"

fun energy_loop :: "(rat \<Rightarrow> rat) \<Rightarrow> nat \<Rightarrow> nat \<Rightarrow> sample list \<Rightarrow> rat \<Rightarrow> rat \<Rightarrow> rat \<times> rat" where
  "energy_loop rnd first i [] energy_all energy_trailing = (energy_all, energy_trailing)"
| "energy_loop rnd first i (x # xs) energy_all energy_trailing =
     energy_loop rnd first (Suc i) xs (rnd (energy_all + \<bar>x\<bar>))
       (if i \<ge> first then rnd (energy_trailing + \<bar>x\<bar>) else energy_trailing)"

definition has_trailing_silence :: "(rat \<Rightarrow> rat) \<Rightarrow> sample list \<Rightarrow> milliseconds \<Rightarrow> rat \<Rightarrow> bool" where
  "has_trailing_silence rnd window trailing_duration threshold =
     (let trailing_samples = samples_in trailing_duration
      in if length window \<le> trailing_samples \<or> trailing_samples = 0 then False
         else let (energy_all, energy_trailing) =
                    energy_loop rnd (length window - trailing_samples) 0 window 0 0;
                  energy_all = rnd (energy_all / rnd (of_nat (length window)));
                  energy_trailing = rnd (energy_trailing / rnd (of_nat trailing_samples))
              in energy_trailing \<le> rnd (threshold * energy_all))"

section \<open>State\<close>

record live_transcriber_config =
  min_interval :: milliseconds
  max_segment_duration :: milliseconds
  keep_duration :: milliseconds
  vad_trailing_duration :: milliseconds
  vad_threshold :: rat

text \<open>\<^verbatim>\<open>0.6F\<close> is the nearest binary32 value, \<open>5033165 / 2^23\<close>.\<close>

definition default_live_config :: live_transcriber_config where
  "default_live_config =
     \<lparr>min_interval = 1000, max_segment_duration = 5000, keep_duration = 200,
      vad_trailing_duration = 1000, vad_threshold = 5033165 / 8388608\<rparr>"

record live_transcriber =
  lt_config :: live_transcriber_config
  lt_last_tick_at :: "time_point option"
  lt_paused_for_worker :: bool
  lt_committed_sample_count :: nat
  lt_committed_word_count :: nat
  lt_committed_text :: string
  lt_tail_text :: string
  lt_previous_words :: "string list"
  lt_carried_words :: "string list"
  lt_default_language :: string
  lt_transcription_prompt :: string

definition new_live_transcriber :: "configuration \<Rightarrow> live_transcriber_config \<Rightarrow> live_transcriber" where
  "new_live_transcriber initial cfg =
     \<lparr>lt_config = cfg, lt_last_tick_at = None, lt_paused_for_worker = False, lt_committed_sample_count = 0,
      lt_committed_word_count = 0, lt_committed_text = '''', lt_tail_text = '''', lt_previous_words = [],
      lt_carried_words = [], lt_default_language = default_language initial,
      lt_transcription_prompt = transcription_prompt initial\<rparr>"

definition lt_on_configuration_changed :: "configuration \<Rightarrow> live_transcriber \<Rightarrow> live_transcriber" where
  "lt_on_configuration_changed c lt =
     lt\<lparr>lt_default_language := default_language c, lt_transcription_prompt := transcription_prompt c\<rparr>"

text \<open>\<^verbatim>\<open>reset()\<close>, also the handler of \<^verbatim>\<open>RecordingStarted\<close>.\<close>

definition lt_reset :: "live_transcriber \<Rightarrow> live_transcriber" where
  "lt_reset lt =
     lt\<lparr>lt_last_tick_at := None, lt_paused_for_worker := False, lt_committed_sample_count := 0,
        lt_committed_word_count := 0, lt_committed_text := '''', lt_tail_text := '''',
        lt_previous_words := [], lt_carried_words := []\<rparr>"

section \<open>The tick\<close>

definition commit :: "string list \<Rightarrow> nat \<Rightarrow> nat \<Rightarrow> live_transcriber \<Rightarrow> live_transcriber" where
  "commit words from_index to_index lt =
     (let new_text = join_words words from_index to_index
      in if new_text = '''' then lt
         else lt\<lparr>lt_committed_text := append_word new_text (lt_committed_text lt)\<rparr>)"

text \<open>The cap on the window after a pause; the second snapshot sees what arrived in between.\<close>

definition cap_window ::
  "recording_manager \<Rightarrow> sample list \<Rightarrow> live_transcriber \<Rightarrow> sample list \<times> live_transcriber" where
  "cap_window rm window lt =
     (if lt_paused_for_worker lt then
        let lt1 = lt\<lparr>lt_paused_for_worker := False\<rparr>;
            max_window_samples = samples_in (max_segment_duration (lt_config lt))
        in if length window > max_window_samples then
             let lt2 = lt1\<lparr>lt_committed_sample_count := lt_committed_sample_count lt + (length window - max_window_samples),
                           lt_committed_word_count := 0, lt_previous_words := [], lt_carried_words := []\<rparr>
             in (samples_snapshot (lt_committed_sample_count lt2) rm, lt2)
           else (window, lt1)
      else (window, lt))"

definition skip_overlap :: "string list \<Rightarrow> live_transcriber \<Rightarrow> live_transcriber" where
  "skip_overlap current_words lt =
     (if lt_committed_word_count lt = 0 \<and> lt_previous_words lt = [] \<and> lt_carried_words lt \<noteq> []
      then lt\<lparr>lt_committed_word_count := overlap_prefix_length (lt_carried_words lt) current_words,
              lt_carried_words := []\<rparr>
      else lt)"

definition must_force :: "(rat \<Rightarrow> rat) \<Rightarrow> sample list \<Rightarrow> live_transcriber_config \<Rightarrow> bool" where
  "must_force rnd window cfg \<longleftrightarrow>
     int (length window * 1000 div unat kSampleRate) \<ge> max_segment_duration cfg \<or>
     has_trailing_silence rnd window (vad_trailing_duration cfg) (vad_threshold cfg)"

definition force_commit :: "nat \<Rightarrow> string list \<Rightarrow> live_transcriber \<Rightarrow> live_transcriber" where
  "force_commit window_size current_words lt =
     (let lt1 = commit current_words (lt_committed_word_count lt) (length current_words) lt;
          keep_samples = samples_in (keep_duration (lt_config lt))
      in lt1\<lparr>lt_tail_text := '''', lt_carried_words := current_words,
             lt_committed_sample_count := lt_committed_sample_count lt1 +
               (if window_size > keep_samples then window_size - keep_samples else window_size),
             lt_committed_word_count := 0, lt_previous_words := []\<rparr>)"

definition agree_commit :: "string list \<Rightarrow> live_transcriber \<Rightarrow> live_transcriber" where
  "agree_commit current_words lt =
     (let agreement = common_prefix_length (lt_previous_words lt) current_words;
          safe_upper = (if current_words = [] then 0 else min agreement (length current_words - 1));
          lt1 = (if safe_upper > lt_committed_word_count lt
                 then (commit current_words (lt_committed_word_count lt) safe_upper lt)
                        \<lparr>lt_committed_word_count := safe_upper\<rparr>
                 else lt)
      in lt1\<lparr>lt_tail_text := join_words current_words (lt_committed_word_count lt1) (length current_words),
             lt_previous_words := current_words\<rparr>)"

definition absorb_words :: "(rat \<Rightarrow> rat) \<Rightarrow> sample list \<Rightarrow> string list \<Rightarrow> live_transcriber \<Rightarrow> live_transcriber" where
  "absorb_words rnd window current_words lt =
     (let lt1 = skip_overlap current_words lt
      in if must_force rnd window (lt_config lt1) then force_commit (length window) current_words lt1
         else agree_commit current_words lt1)"

definition tick ::
  "(event, 'w) publisher \<Rightarrow> (rat \<Rightarrow> rat) \<Rightarrow> 'b speech_backend \<Rightarrow> time_point \<Rightarrow> audio_step list \<Rightarrow>
   'cb session_manager \<Rightarrow> live_transcriber \<Rightarrow> 'b \<Rightarrow> 'w \<Rightarrow> live_transcriber \<times> 'b \<times> 'w" where
  "tick pub rnd be now late sm lt b w =
     (if service_state_of sm \<noteq> Recording then (lt, b, w)
      else if transcription_busy sm then (lt\<lparr>lt_paused_for_worker := True\<rparr>, b, w)
      else case active_session_id sm of
        None \<Rightarrow> (lt, b, w)
      | Some sid \<Rightarrow>
          if (case lt_last_tick_at lt of None \<Rightarrow> False | Some t \<Rightarrow> now - t < min_interval (lt_config lt) * 1000000)
          then (lt, b, w)
          else let first_window = samples_snapshot (lt_committed_sample_count lt) (sm_recording_manager sm)
               in if first_window = [] then (lt, b, w)
                  else let (window, lt1) = cap_window (audio_steps late (sm_recording_manager sm)) first_window lt
                       in if window = [] then (lt1, b, w)
                          else let lt2 = lt1\<lparr>lt_last_tick_at := Some now\<rparr>;
                                   (result, b') = transcribe_partial be b window
                                     \<lparr>req_language = lt_default_language lt2, req_initial_prompt = lt_transcription_prompt lt2\<rparr>
                               in case result of
                                    Inr e \<Rightarrow> (lt2, b', w)
                                  | Inl t \<Rightarrow>
                                      let lt3 = absorb_words rnd window (split_words (transcript_text t)) lt2
                                      in if lt_committed_text lt3 = lt_committed_text lt2 \<and> lt_tail_text lt3 = lt_tail_text lt2
                                         then (lt3, b', w)
                                         else (lt3, b', pub (TranscriptionPartial sid (lt_committed_text lt3) (lt_tail_text lt3)) w))"

section \<open>Words and text\<close>

lemma chunks_dropWhile: "chunks P (dropWhile P s) = chunks P s"
  by (induction s) (simp_all add: chunks_def)

lemma chunks_takeWhile:
  assumes "t \<noteq> []" and "\<not> P (hd t)"
  shows "chunks P t = takeWhile (\<lambda>c. \<not> P c) t # chunks P (dropWhile (\<lambda>c. \<not> P c) t)"
proof -
  let ?w = "takeWhile (\<lambda>c. \<not> P c) t" and ?r = "dropWhile (\<lambda>c. \<not> P c) t"
  have word: "chunk_word P ?w"
    using assms by (cases t) (auto simp: chunk_word_def dest: set_takeWhileD)
  show ?thesis
  proof (cases ?r)
    case Nil
    then have "?w = t" by (metis append_Nil2 takeWhile_dropWhile_id)
    with Nil word show ?thesis by (metis chunks_Nil chunks_word)
  next
    case (Cons c r)
    then have "P c" by (metis dropWhile_eq_Cons_conv)
    have t: "t = ?w @ c # r" using Cons by (metis takeWhile_dropWhile_id)
    have "chunks P t = [?w] @ chunks P r"
      by (subst t) (use \<open>P c\<close> word in \<open>simp add: chunks_append_sep chunks_word\<close>)
    moreover have "chunks P (c # r) = chunks P r" using \<open>P c\<close> by (simp add: chunks_def)
    ultimately show ?thesis using Cons by simp
  qed
qed

lemma split_words_chunks: "split_words s = chunks isspace s"
proof (induction s rule: split_words.induct)
  case (1 s)
  let ?t = "dropWhile isspace s"
  show ?case
  proof (cases "?t = []")
    case True
    then have "chunks isspace s = []" using chunks_dropWhile [of isspace s] by (metis chunks_Nil)
    with True show ?thesis by (simp add: split_words.simps [of s])
  next
    case False
    then have "\<not> isspace (hd ?t)" by (rule hd_dropWhile)
    with False have "chunks isspace ?t = takeWhile (\<lambda>c. \<not> isspace c) ?t # chunks isspace (dropWhile (\<lambda>c. \<not> isspace c) ?t)"
      by (rule chunks_takeWhile)
    moreover have "split_words s = takeWhile (\<lambda>c. \<not> isspace c) ?t # split_words (dropWhile (\<lambda>c. \<not> isspace c) ?t)"
      using False by (simp only: split_words.simps [of s] Let_def if_False)
    ultimately show ?thesis using "1.IH" [OF refl False] by (simp only: chunks_dropWhile)
  qed
qed

definition is_word :: "string \<Rightarrow> bool" where
  "is_word w \<longleftrightarrow> chunk_word isspace w"

lemma split_words_are_words: "list_all is_word (split_words s)"
  by (auto simp: list_all_iff is_word_def split_words_chunks dest: chunks_sound)

lemma split_words_Nil [simp]: "split_words '''' = []"
  by (simp add: split_words_chunks)

lemma split_append_word: "split_words (append_word w joined) = split_words joined @ split_words w"
proof -
  have "isspace CHR '' ''" by (simp add: isspace_def char_code_def)
  then show ?thesis
    using chunks_append_sep [of isspace "CHR '' ''" joined w] by (simp add: append_word_def split_words_chunks)
qed

lemma split_word: "is_word w \<Longrightarrow> split_words w = [w]"
  by (simp add: is_word_def split_words_chunks chunks_word)

lemma split_fold_append:
  "list_all is_word ws \<Longrightarrow> split_words (fold append_word ws joined) = split_words joined @ ws"
  by (induction ws arbitrary: joined) (simp_all add: split_append_word split_word)

lemma list_all_slice: "list_all P ws \<Longrightarrow> list_all P (drop i (take j ws))"
  by (auto simp: list_all_iff dest!: in_set_dropD in_set_takeD)

text \<open>Joining and splitting are inverse on words.\<close>

lemma split_join_words: "list_all is_word ws \<Longrightarrow> split_words (join_words ws i j) = drop i (take j ws)"
  by (simp add: join_words_def split_fold_append list_all_slice)

lemma commit_words:
  "list_all is_word ws \<Longrightarrow>
     split_words (lt_committed_text (commit ws i j lt)) = split_words (lt_committed_text lt) @ drop i (take j ws)"
  using split_join_words [of ws i j] by (auto simp: commit_def Let_def split_append_word)

lemma prefix_append_word: "prefix joined (append_word w joined)"
  by (simp add: append_word_def)

lemma commit_prefix: "prefix (lt_committed_text lt) (lt_committed_text (commit ws i j lt))"
  by (simp add: commit_def Let_def prefix_append_word)

lemma commit_frame [simp]:
  "lt_config (commit ws i j lt) = lt_config lt"
  "lt_committed_sample_count (commit ws i j lt) = lt_committed_sample_count lt"
  "lt_committed_word_count (commit ws i j lt) = lt_committed_word_count lt"
  "lt_tail_text (commit ws i j lt) = lt_tail_text lt"
  "lt_previous_words (commit ws i j lt) = lt_previous_words lt"
  "lt_last_tick_at (commit ws i j lt) = lt_last_tick_at lt"
  by (simp_all add: commit_def Let_def)

lemma skip_overlap_frame [simp]:
  "lt_config (skip_overlap ws lt) = lt_config lt"
  "lt_committed_sample_count (skip_overlap ws lt) = lt_committed_sample_count lt"
  "lt_committed_text (skip_overlap ws lt) = lt_committed_text lt"
  "lt_tail_text (skip_overlap ws lt) = lt_tail_text lt"
  "lt_previous_words (skip_overlap ws lt) = lt_previous_words lt"
  by (simp_all add: skip_overlap_def)

section \<open>Overlap and agreement\<close>

lemma overlap_loop_le: "overlap_loop p n k \<le> k"
  by (induction k) (auto intro: le_SucI)

lemma overlap_loop_matches: "0 < overlap_loop p n k \<Longrightarrow> overlap_matches p n (overlap_loop p n k)"
  by (induction k) auto

lemma overlap_loop_greatest: "j \<le> k \<Longrightarrow> overlap_matches p n j \<Longrightarrow> j \<le> overlap_loop p n k"
  by (induction k) (auto simp: le_Suc_eq)

lemma overlap_matches_list:
  assumes "k \<le> length p" and "k \<le> length n"
  shows "overlap_matches p n k \<longleftrightarrow> list_all2 words_match (drop (length p - k) p) (take k n)"
  using assms by (auto simp: overlap_matches_def list_all_iff list_all2_conv_all_nth)

text \<open>
  C29: The overlap that is skipped at a segment boundary is the longest one. It is the greatest
  number of words such that the previous segment's last words and the new segment's first words
  agree one by one up to trailing punctuation (zero always qualifies).
\<close>

theorem overlap_is_longest:
  "overlap_prefix_length previous new =
     Max {k. k \<le> length previous \<and> k \<le> length new \<and>
             list_all2 words_match (drop (length previous - k) previous) (take k new)}"
proof -
  let ?m = "min (length previous) (length new)"
  let ?S = "{k. k \<le> length previous \<and> k \<le> length new \<and>
             list_all2 words_match (drop (length previous - k) previous) (take k new)}"
  let ?k = "overlap_loop previous new ?m"
  have S: "?S = {k. k \<le> ?m \<and> overlap_matches previous new k}"
    by (auto simp: overlap_matches_list)
  have "finite {k. k \<le> ?m \<and> overlap_matches previous new k}" by (rule finite_subset [of _ "{..?m}"]) auto
  moreover have "overlap_matches previous new 0" by (simp add: overlap_matches_def)
  then have "overlap_matches previous new ?k" by (cases "?k = 0") (auto intro: overlap_loop_matches)
  then have "?k \<in> {k. k \<le> ?m \<and> overlap_matches previous new k}"
    using overlap_loop_le [of previous new ?m] by simp
  ultimately have "Max {k. k \<le> ?m \<and> overlap_matches previous new k} = ?k"
    by (auto intro!: Max_eqI overlap_loop_greatest)
  then show ?thesis unfolding S overlap_prefix_length_def by simp
qed

lemma common_prefix_iff:
  "k \<le> common_prefix_length a b \<longleftrightarrow> k \<le> length a \<and> k \<le> length b \<and> list_all2 words_match (take k a) (take k b)"
proof (induction a b arbitrary: k rule: common_prefix_length.induct)
  case (1 a as b bs)
  then show ?case by (cases k) auto
qed auto

lemma common_prefix_is_longest:
  "common_prefix_length a b =
     Max {k. k \<le> length a \<and> k \<le> length b \<and> list_all2 words_match (take k a) (take k b)}"
proof -
  have "{k. k \<le> length a \<and> k \<le> length b \<and> list_all2 words_match (take k a) (take k b)} = {..common_prefix_length a b}"
    by (auto simp: common_prefix_iff)
  moreover have "Max {..n} = n" for n :: nat by (rule Max_eqI) auto
  ultimately show ?thesis by simp
qed

lemma common_prefix_self: "common_prefix_length ws ws = length ws"
  by (induction ws) (simp_all add: words_match_def)

section \<open>One tick\<close>

lemma agree_commit_effect:
  fixes lt :: live_transcriber
  assumes "list_all is_word cur"
  defines "lt' \<equiv> agree_commit cur lt"
    and "u \<equiv> max (lt_committed_word_count lt) (min (common_prefix_length (lt_previous_words lt) cur) (length cur - 1))"
  shows "split_words (lt_committed_text lt') = split_words (lt_committed_text lt) @ drop (lt_committed_word_count lt) (take u cur)"
    and "split_words (lt_tail_text lt') = drop u cur"
    and "lt_committed_word_count lt' = u" and "lt_previous_words lt' = cur"
proof -
  have u: "(if cur = [] then 0 else min (common_prefix_length (lt_previous_words lt) cur) (length cur - 1)) =
      min (common_prefix_length (lt_previous_words lt) cur) (length cur - 1)" by simp
  show "split_words (lt_committed_text lt') = split_words (lt_committed_text lt) @ drop (lt_committed_word_count lt) (take u cur)"
    using assms(1) unfolding lt'_def u_def agree_commit_def Let_def u by (auto simp: commit_words max_def)
  show count: "lt_committed_word_count lt' = u" unfolding lt'_def u_def agree_commit_def Let_def u by (auto simp: max_def)
  have "split_words (lt_tail_text lt') = drop (lt_committed_word_count lt') cur"
    using assms(1) by (simp add: lt'_def agree_commit_def Let_def split_join_words)
  then show "split_words (lt_tail_text lt') = drop u cur" by (simp add: count)
  show "lt_previous_words lt' = cur" by (simp add: lt'_def agree_commit_def Let_def)
qed

lemma force_commit_effect:
  fixes lt :: live_transcriber and n :: nat
  assumes "list_all is_word cur"
  defines "lt' \<equiv> force_commit n cur lt"
  shows "split_words (lt_committed_text lt') =
           split_words (lt_committed_text lt) @ drop (lt_committed_word_count lt) cur"
    and "lt_tail_text lt' = ''''" and "lt_carried_words lt' = cur"
    and "lt_committed_word_count lt' = 0" and "lt_previous_words lt' = []"
    and "lt_committed_sample_count lt \<le> lt_committed_sample_count lt'"
    and "lt_committed_sample_count lt' \<le> lt_committed_sample_count lt + n"
  using assms(1) by (simp_all add: lt'_def force_commit_def Let_def commit_words)

text \<open>
  C30: What a decoded window does to the preview. Let \<open>cur\<close> be the words of the window and \<open>c\<close> how many of them are
  already committed, or skipped as the longest overlap with the previous segment when this is the first decoding of
  a segment. When the segment is closed, all words after the first \<open>c\<close> are committed and the tail is empty.
  Otherwise let the agreement be the length of the longest prefix on which this decoding and the previous one match
  word by word: the words committed now are exactly those after the first \<open>c\<close> up to the agreement, without the last
  word of the window, and the tail is exactly the rest. No word is dropped or repeated.
\<close>

theorem absorb_words_local_agreement:
  fixes rnd :: "rat \<Rightarrow> rat" and window :: "sample list" and lt :: live_transcriber and decoded :: string
  defines "cur \<equiv> split_words decoded"
    and "c \<equiv> (if lt_committed_word_count lt = 0 \<and> lt_previous_words lt = [] \<and> lt_carried_words lt \<noteq> []
             then overlap_prefix_length (lt_carried_words lt) (split_words decoded) else lt_committed_word_count lt)"
    and "agreement \<equiv> Max {k. k \<le> length (lt_previous_words lt) \<and> k \<le> length (split_words decoded) \<and>
             list_all2 words_match (take k (lt_previous_words lt)) (take k (split_words decoded))}"
    and "lt' \<equiv> absorb_words rnd window (split_words decoded) lt"
  shows "if must_force rnd window (lt_config lt)
     then split_words (lt_committed_text lt') = split_words (lt_committed_text lt) @ drop c cur \<and> lt_tail_text lt' = ''''
     else (let u = max c (min agreement (length cur - 1))
           in split_words (lt_committed_text lt') = split_words (lt_committed_text lt) @ drop c (take u cur) \<and>
              split_words (lt_tail_text lt') = drop u cur \<and> lt_committed_word_count lt' = u \<and> lt_previous_words lt' = cur)"
proof -
  have c: "lt_committed_word_count (skip_overlap cur lt) = c" by (simp add: skip_overlap_def c_def cur_def)
  show ?thesis
  proof (cases "must_force rnd window (lt_config lt)")
    case True
    with force_commit_effect(1,2) [OF split_words_are_words, where lt = "skip_overlap cur lt"] c show ?thesis
      by (simp add: lt'_def cur_def absorb_words_def Let_def)
  next
    case False
    then have lt': "lt' = agree_commit cur (skip_overlap cur lt)"
      by (simp add: lt'_def cur_def absorb_words_def Let_def)
    have a: "agreement = common_prefix_length (lt_previous_words lt) cur"
      by (simp add: agreement_def cur_def common_prefix_is_longest)
    from agree_commit_effect [OF split_words_are_words [of decoded], folded cur_def, where lt = "skip_overlap cur lt"] False
    show ?thesis unfolding lt' by (simp add: c a Let_def)
  qed
qed

lemma absorb_words_prefix: "prefix (lt_committed_text lt) (lt_committed_text (absorb_words rnd window cur lt))"
  using commit_prefix [of "skip_overlap cur lt"]
  by (simp add: absorb_words_def force_commit_def agree_commit_def Let_def)

lemma cap_window_frame:
  assumes "cap_window rm window lt = (window', lt')"
  shows "lt_committed_text lt' = lt_committed_text lt" "lt_tail_text lt' = lt_tail_text lt" "lt_config lt' = lt_config lt"
    "lt_last_tick_at lt' = lt_last_tick_at lt"
  using assms by (auto simp: cap_window_def Let_def split: if_splits)

text \<open>The guards of a tick, in the order of the code.\<close>

definition tick_due :: "time_point \<Rightarrow> 'cb session_manager \<Rightarrow> live_transcriber \<Rightarrow> bool" where
  "tick_due now sm lt \<longleftrightarrow>
     sm_state sm = Recording \<and> \<not> transcription_busy sm \<and> active_session_id sm \<noteq> None \<and>
     (\<forall>t. lt_last_tick_at lt = Some t \<longrightarrow> min_interval (lt_config lt) * 1000000 \<le> now - t) \<and>
     lt_committed_sample_count lt < length (rm_samples (sm_recording_manager sm))"

lemma service_recording_iff: "service_state_of sm = Recording \<longleftrightarrow> sm_state sm = Recording"
  by (auto simp: service_state_of_def derive_state_def)

lemma snapshot_empty_iff: "samples_snapshot i rm = [] \<longleftrightarrow> length (rm_samples rm) \<le> i"
  by (auto simp: samples_snapshot_def)

lemma tick_not_due:
  assumes "\<not> tick_due now sm lt" and "tick pub rnd be now late sm lt b w = (lt', b', w')"
  shows "b' = b \<and> w' = w \<and> (lt' = lt \<or> lt' = lt\<lparr>lt_paused_for_worker := True\<rparr>)"
  using assms
  by (auto simp: tick_def tick_due_def service_recording_iff snapshot_empty_iff Let_def split: if_splits option.splits)

lemma tick_eval:
  assumes "tick_due now sm lt" and "active_session_id sm = Some sid"
    and "cap_window (audio_steps late (sm_recording_manager sm))
           (samples_snapshot (lt_committed_sample_count lt) (sm_recording_manager sm)) lt = (window, lt1)"
    and "transcribe_partial be b window
           \<lparr>req_language = lt_default_language lt1, req_initial_prompt = lt_transcription_prompt lt1\<rparr> = (r, b1)"
  shows "tick pub rnd be now late sm lt b w =
     (if window = [] then (lt1, b, w)
      else let lt2 = lt1\<lparr>lt_last_tick_at := Some now\<rparr> in
        case r of
          Inr e \<Rightarrow> (lt2, b1, w)
        | Inl t \<Rightarrow>
            let lt3 = absorb_words rnd window (split_words (transcript_text t)) lt2
            in if lt_committed_text lt3 = lt_committed_text lt \<and> lt_tail_text lt3 = lt_tail_text lt
               then (lt3, b1, w)
               else (lt3, b1, pub (TranscriptionPartial sid (lt_committed_text lt3) (lt_tail_text lt3)) w))"
proof -
  have due: "service_state_of sm = Recording" "\<not> transcription_busy sm"
    "samples_snapshot (lt_committed_sample_count lt) (sm_recording_manager sm) \<noteq> []"
    "\<not> (case lt_last_tick_at lt of None \<Rightarrow> False | Some t \<Rightarrow> now - t < min_interval (lt_config lt) * 1000000)"
    using assms(1) by (auto simp: tick_due_def service_recording_iff snapshot_empty_iff split: option.splits)
  show ?thesis
    using assms(4) cap_window_frame [OF assms(3)]
    by (cases r) (simp_all add: tick_def due assms(2,3) Let_def)
qed

lemma tick_result:
  assumes "tick pub rnd be now late sm lt b w = (lt', b', w')"
  shows "(w' = w \<and> lt_committed_text lt' = lt_committed_text lt \<and> lt_tail_text lt' = lt_tail_text lt) \<or>
    (\<exists>sid. active_session_id sm = Some sid \<and> tick_due now sm lt \<and>
       (lt_committed_text lt', lt_tail_text lt') \<noteq> (lt_committed_text lt, lt_tail_text lt) \<and>
       prefix (lt_committed_text lt) (lt_committed_text lt') \<and>
       w' = pub (TranscriptionPartial sid (lt_committed_text lt') (lt_tail_text lt')) w)"
proof (cases "tick_due now sm lt")
  case False
  from tick_not_due [OF this assms] show ?thesis by auto
next
  case True
  then obtain sid where sid: "active_session_id sm = Some sid" by (auto simp: tick_due_def)
  obtain window lt1 where cap: "cap_window (audio_steps late (sm_recording_manager sm))
      (samples_snapshot (lt_committed_sample_count lt) (sm_recording_manager sm)) lt = (window, lt1)" by fastforce
  obtain r b1 where r: "transcribe_partial be b window
      \<lparr>req_language = lt_default_language lt1, req_initial_prompt = lt_transcription_prompt lt1\<rparr> = (r, b1)" by fastforce
  note frame = cap_window_frame [OF cap]
  have "prefix (lt_committed_text lt) (lt_committed_text (absorb_words rnd window ws (lt1\<lparr>lt_last_tick_at := Some now\<rparr>)))" for ws
    using absorb_words_prefix [of "lt1\<lparr>lt_last_tick_at := Some now\<rparr>"] frame by simp
  with assms True sid frame show ?thesis
    unfolding tick_eval [OF True sid cap r] by (auto simp: Let_def split: if_splits sum.splits)
qed

section \<open>A whole session\<close>

text \<open>
  The ticks of one recording: each with its clock reading, the samples that arrive meanwhile and
  the session manager as it is then. The preview is not reset in between.
\<close>

type_synonym 'cb tick_input = "time_point \<times> audio_step list \<times> 'cb session_manager"

definition tick_at ::
  "(rat \<Rightarrow> rat) \<Rightarrow> 'b speech_backend \<Rightarrow> 'cb tick_input \<Rightarrow> live_transcriber \<times> 'b \<times> event list \<Rightarrow>
   live_transcriber \<times> 'b \<times> event list" where
  "tick_at rnd be i s = (case i of (now, late, sm) \<Rightarrow> case s of (lt, b, tr) \<Rightarrow> tick record_event rnd be now late sm lt b tr)"

definition shown :: "live_transcriber \<Rightarrow> string \<times> string" where
  "shown lt = (lt_committed_text lt, lt_tail_text lt)"

fun partials :: "event list \<Rightarrow> (string \<times> string) list" where
  "partials [] = []"
| "partials (TranscriptionPartial _ c t # tr) = (c, t) # partials tr"
| "partials (_ # tr) = partials tr"

lemma partials_append [simp]: "partials (xs @ ys) = partials xs @ partials ys"
  by (induction xs rule: partials.induct) simp_all

definition extends :: "string \<times> string \<Rightarrow> string \<times> string \<Rightarrow> bool" where
  "extends p q \<longleftrightarrow> p \<noteq> q \<and> prefix (fst p) (fst q)"

lemma tick_partials:
  assumes "tick record_event rnd be now late sm lt b tr = (lt', b', tr')"
  shows "\<exists>new. tr' = tr @ new \<and> ((new = [] \<and> shown lt' = shown lt) \<or> (partials new = [shown lt'] \<and> extends (shown lt) (shown lt')))"
  using tick_result [OF assms] by (auto simp: shown_def extends_def)

lemma ticks_partials:
  assumes "fold (tick_at rnd be) ins (lt, b, tr) = (lt', b', tr')"
  shows "\<exists>new. tr' = tr @ new \<and> successively extends (shown lt # partials new) \<and>
           last (shown lt # partials new) = shown lt'"
  using assms
proof (induction ins arbitrary: lt b tr)
  case Nil
  then show ?case by simp
next
  case (Cons i ins)
  obtain now late sm where i: "i = (now, late, sm)" by (cases i)
  obtain lt1 b1 tr1 where t: "tick record_event rnd be now late sm lt b tr = (lt1, b1, tr1)"
    by (cases "tick record_event rnd be now late sm lt b tr")
  from tick_partials [OF t] obtain new1 where new1: "tr1 = tr @ new1"
    "(new1 = [] \<and> shown lt1 = shown lt) \<or> (partials new1 = [shown lt1] \<and> extends (shown lt) (shown lt1))" by blast
  have "fold (tick_at rnd be) ins (lt1, b1, tr1) = (lt', b', tr')"
    using Cons.prems by (simp add: i tick_at_def [of rnd be "(now, late, sm)"] t)
  from Cons.IH [OF this] obtain new where "tr' = tr1 @ new" "successively extends (shown lt1 # partials new)"
    "last (shown lt1 # partials new) = shown lt'" by blast
  with new1 show ?case by (intro exI [of _ "new1 @ new"]) auto
qed

text \<open>
  C31: Committed text is permanent. Over any sequence of ticks of a recording, whatever the decoder
  answers and however the ticks interleave with the worker and the audio thread, each committed
  text published extends all the earlier ones, no update repeats the one before it, and the last
  one published is what the preview holds.
\<close>

theorem preview_only_grows:
  assumes "fold (tick_at rnd be) ins (lt, b, []) = (lt', b', tr)"
  shows "sorted_wrt prefix (lt_committed_text lt # map fst (partials tr)) \<and>
     distinct_adj (shown lt # partials tr) \<and>
     last (shown lt # partials tr) = (lt_committed_text lt', lt_tail_text lt')"
proof -
  from ticks_partials [OF assms] have chain: "successively extends (shown lt # partials tr)"
    and last: "last (shown lt # partials tr) = shown lt'" by auto
  have "successively (\<lambda>p q. prefix (fst p) (fst q)) (shown lt # partials tr)"
    using chain by (rule successively_mono) (simp add: extends_def)
  then have "successively prefix (map fst (shown lt # partials tr))" by (simp only: successively_map)
  moreover have "transp (prefix :: string \<Rightarrow> string \<Rightarrow> bool)" by (auto intro: transpI prefix_order.trans)
  ultimately have "sorted_wrt prefix (map fst (shown lt # partials tr))"
    using successively_iff_sorted_wrt_strong [of "map fst (shown lt # partials tr)" prefix] by (auto dest: transpD)
  moreover have "distinct_adj (shown lt # partials tr)"
    unfolding distinct_adj_def using chain by (rule successively_mono) (simp add: extends_def)
  ultimately show ?thesis using last by (simp add: shown_def)
qed

section \<open>When the backend is called, and on which audio\<close>

lemma audio_step_grows: "prefix (rm_samples rm) (rm_samples (audio_step_exec a rm))"
  by (cases a) (auto simp: yoru_ops)

lemma audio_steps_grow: "prefix (rm_samples rm) (rm_samples (audio_steps as rm))"
  unfolding audio_steps_def
proof (induction as arbitrary: rm)
  case (Cons a as)
  from prefix_order.trans [OF audio_step_grows Cons] show ?case by simp
qed simp

text \<open>
  A tick is a no-op for the backend, the clients and the shown text unless a session is being
  recorded, the transcription worker has nothing queued or running, the minimum interval has passed
  since the last tick that decoded, and there is audio beyond the last commit. A tick that is due
  hands the backend only audio of this recording starting at the (possibly advanced) commit point,
  and remembers its time, so the next one waits.
\<close>

theorem tick_waits_its_turn:
  assumes "tick pub rnd be now late sm lt b w = (lt', b', w')"
  shows "if tick_due now sm lt
     then \<exists>n window req. lt_committed_sample_count lt \<le> n \<and>
            window \<in> {drop n (rm_samples (sm_recording_manager sm)),
                      drop n (rm_samples (audio_steps late (sm_recording_manager sm)))} \<and>
            (window = [] \<and> b' = b \<or>
             b' = snd (transcribe_partial be b window req) \<and> lt_last_tick_at lt' = Some now)
     else b' = b \<and> w' = w \<and> shown lt' = shown lt \<and> lt_last_tick_at lt' = lt_last_tick_at lt"
proof (cases "tick_due now sm lt")
  case False
  with tick_not_due [OF False assms] show ?thesis by (auto simp: shown_def)
next
  case True
  let ?rm = "sm_recording_manager sm"
  from True obtain sid where sid: "active_session_id sm = Some sid" by (auto simp: tick_due_def)
  obtain window lt1 where cap: "cap_window (audio_steps late ?rm)
      (samples_snapshot (lt_committed_sample_count lt) ?rm) lt = (window, lt1)" by fastforce
  obtain r b1 where r: "transcribe_partial be b window
      \<lparr>req_language = lt_default_language lt1, req_initial_prompt = lt_transcription_prompt lt1\<rparr> = (r, b1)"
    (is "transcribe_partial be b window ?req = _") by fastforce
  have win: "lt_committed_sample_count lt \<le> lt_committed_sample_count lt1 \<and>
      window \<in> {drop (lt_committed_sample_count lt1) (rm_samples ?rm),
                drop (lt_committed_sample_count lt1) (rm_samples (audio_steps late ?rm))}"
    using cap by (auto simp: cap_window_def samples_snapshot_drop Let_def split: if_splits)
  have time: "lt_last_tick_at (absorb_words rnd window ws (lt1\<lparr>lt_last_tick_at := Some now\<rparr>)) = Some now" for ws
    by (simp add: absorb_words_def skip_overlap_def force_commit_def agree_commit_def Let_def)
  have "window = [] \<and> b' = b \<or> b' = snd (transcribe_partial be b window ?req) \<and> lt_last_tick_at lt' = Some now"
    using assms time r unfolding tick_eval [OF True sid cap r] by (auto simp: Let_def split: if_splits sum.splits)
  with True win show ?thesis by (simp only: if_True) blast
qed

text \<open>The commit point does not move back, and stays within what was captured.\<close>

lemma tick_commit_point:
  assumes "tick pub rnd be now late sm lt b w = (lt', b', w')"
  shows "lt_committed_sample_count lt \<le> lt_committed_sample_count lt' \<and>
    (lt_committed_sample_count lt \<le> length (rm_samples (sm_recording_manager sm)) \<longrightarrow>
       lt_committed_sample_count lt' \<le> length (rm_samples (audio_steps late (sm_recording_manager sm))))"
proof (cases "tick_due now sm lt")
  case False
  with tick_not_due [OF False assms] prefix_length_le [OF audio_steps_grow, of "sm_recording_manager sm" late]
  show ?thesis by auto
next
  case True
  let ?rm = "sm_recording_manager sm"
  have grow: "length (rm_samples ?rm) \<le> length (rm_samples (audio_steps late ?rm))"
    by (rule prefix_length_le [OF audio_steps_grow])
  from True obtain sid where sid: "active_session_id sm = Some sid" by (auto simp: tick_due_def)
  obtain window lt1 where cap: "cap_window (audio_steps late ?rm)
      (samples_snapshot (lt_committed_sample_count lt) ?rm) lt = (window, lt1)" by fastforce
  obtain r b1 where r: "transcribe_partial be b window
      \<lparr>req_language = lt_default_language lt1, req_initial_prompt = lt_transcription_prompt lt1\<rparr> = (r, b1)" by fastforce
  have win: "lt_committed_sample_count lt \<le> lt_committed_sample_count lt1"
    "lt_committed_sample_count lt \<le> length (rm_samples ?rm) \<Longrightarrow>
       lt_committed_sample_count lt1 + length window \<le> length (rm_samples (audio_steps late ?rm))"
    using cap grow by (auto simp: cap_window_def samples_snapshot_drop Let_def split: if_splits)
  have "lt_committed_sample_count lt1 \<le> lt_committed_sample_count (absorb_words rnd window ws (lt1\<lparr>lt_last_tick_at := Some now\<rparr>)) \<and>
      lt_committed_sample_count (absorb_words rnd window ws (lt1\<lparr>lt_last_tick_at := Some now\<rparr>))
        \<le> lt_committed_sample_count lt1 + length window" for ws
    by (simp add: absorb_words_def force_commit_def agree_commit_def Let_def)
  with assms win show ?thesis
    unfolding tick_eval [OF True sid cap r]
    by (auto simp: Let_def split: if_splits sum.splits) (meson le_trans)+
qed

text \<open>After a pause the window is cut to one segment, plus what arrives while it is being cut.\<close>

lemma capped_after_pause:
  assumes "lt_paused_for_worker lt" and "cap_window (audio_steps late rm) (samples_snapshot (lt_committed_sample_count lt) rm) lt = (window, lt')"
  shows "length window \<le> samples_in (max_segment_duration (lt_config lt)) +
           (length (rm_samples (audio_steps late rm)) - length (rm_samples rm))"
  using assms prefix_length_le [OF audio_steps_grow, of rm late]
  by (auto simp: cap_window_def samples_snapshot_drop Let_def split: if_splits)

lemma samples_in_small: "0 \<le> d \<Longrightarrow> d < 2 ^ 50 \<Longrightarrow> samples_in d = nat d * 16"
proof -
  assume d: "0 \<le> d" "d < 2 ^ 50"
  then have "nat d * 16000 < 2 ^ 64" by simp
  with d show ?thesis by (simp add: samples_in_def kSampleRate_def)
qed

section \<open>Witnesses\<close>

definition demo_preview :: "live_transcriber" where
  "demo_preview = (new_live_transcriber default_configuration default_live_config)
     \<lparr>lt_previous_words := [''bom'', ''dia...''], lt_committed_word_count := 1, lt_committed_text := ''bom''\<rparr>"

lemma demo_words: "split_words ''bom dia a todos'' = [''bom'', ''dia'', ''a'', ''todos'']"
  by (simp add: split_words_chunks chunks_def isspace_def char_code_def)

lemma demo_no_force: "\<not> must_force id [0] (lt_config demo_preview)"
  by (simp add: must_force_def demo_preview_def new_live_transcriber_def default_live_config_def kSampleRate_def
      has_trailing_silence_def samples_in_small)

text \<open>The second word is committed, the last two are not yet.\<close>

theorem absorb_words_local_agreement_witness:
  "split_words (lt_committed_text (absorb_words id [0] (split_words ''bom dia a todos'') demo_preview)) = [''bom'', ''dia''] \<and>
   split_words (lt_tail_text (absorb_words id [0] (split_words ''bom dia a todos'') demo_preview)) = [''a'', ''todos'']"
proof -
  have "common_prefix_length (lt_previous_words demo_preview) [''bom'', ''dia'', ''a'', ''todos''] = 2"
    by (simp add: demo_preview_def words_match_def strip_trailing_punctuation_def ispunct_def isspace_def islower_def isupper_def isdigit_def char_code_def)
  moreover have "lt_committed_word_count demo_preview = 1" "split_words (lt_committed_text demo_preview) = [''bom'']"
    by (simp_all add: demo_preview_def split_words_chunks chunks_def isspace_def char_code_def)
  ultimately show ?thesis
    using absorb_words_local_agreement [of id "[0]" demo_preview "''bom dia a todos''", folded common_prefix_is_longest] demo_no_force
    by (simp add: demo_words Let_def)
qed

theorem preview_only_grows_witness:
  "\<exists>sm. demo_service = (sm, demo_backend, [RecordingStarted 1]) \<and>
     (\<exists>lt' b' tr. fold (tick_at id (whisper_vtable demo_api)) [(0, [], sm), (1, [], sm)] (demo_preview, demo_backend, []) = (lt', b', tr) \<and>
        sorted_wrt prefix (''bom'' # map fst (partials tr)))"
proof -
  obtain sm where sm: "demo_service = (sm, demo_backend, [RecordingStarted 1])" using demo_service_eval by blast
  obtain lt' b' tr where run:
    "fold (tick_at id (whisper_vtable demo_api)) [(0, [], sm), (1, [], sm)] (demo_preview, demo_backend, []) = (lt', b', tr)"
    by (cases "fold (tick_at id (whisper_vtable demo_api)) [(0, [], sm), (1, [], sm)] (demo_preview, demo_backend, [])")
  from preview_only_grows [OF run] have "sorted_wrt prefix (''bom'' # map fst (partials tr))"
    by (simp add: demo_preview_def)
  with sm run show ?thesis by blast
qed

theorem tick_waits_its_turn_witness:
  "\<exists>sm lt' b' w'. demo_service = (sm, demo_backend, [RecordingStarted 1]) \<and>
     tick record_event id (whisper_vtable demo_api) 5 [] sm (demo_preview\<lparr>lt_last_tick_at := Some 4\<rparr>) demo_backend [] = (lt', b', w') \<and>
     b' = demo_backend \<and> w' = []"
proof -
  obtain sm where sm: "demo_service = (sm, demo_backend, [RecordingStarted 1])" using demo_service_eval by blast
  let ?lt = "demo_preview\<lparr>lt_last_tick_at := Some 4\<rparr>"
  obtain lt' b' w' where t: "tick record_event id (whisper_vtable demo_api) 5 [] sm ?lt demo_backend [] = (lt', b', w')"
    by (cases "tick record_event id (whisper_vtable demo_api) 5 [] sm ?lt demo_backend []")
  have "\<not> tick_due 5 sm ?lt"
    by (simp add: tick_due_def demo_preview_def new_live_transcriber_def default_live_config_def)
  with tick_waits_its_turn [OF t] sm t show ?thesis by auto
qed

end
