(* ===== verification/Paths.thy ===== *)
theory Paths
  imports Yoru_Prelude
begin

text \<open>
  What the code uses of \<^verbatim>\<open>std::filesystem::path\<close> (POSIX paths as strings) and of the environment:
  appending, file names, extensions and stems, and the three default locations, which honour the XDG
  variables: \<^verbatim>\<open>default_config_path\<close>, \<^verbatim>\<open>default_models_path\<close>, \<^verbatim>\<open>default_socket_path\<close>.
\<close>

type_synonym path = string
type_synonym environment = "string \<Rightarrow> string option"

definition is_absolute :: "path \<Rightarrow> bool" where
  "is_absolute p \<longleftrightarrow> (case p of [] \<Rightarrow> False | c # _ \<Rightarrow> c = CHR ''/'')"

text \<open>\<^verbatim>\<open>path::operator/\<close>\<close>

definition path_append :: "path \<Rightarrow> path \<Rightarrow> path" where
  "path_append a b =
     (if is_absolute b then b
      else if a = [] \<or> last a = CHR ''/'' then a @ b
      else a @ ''/'' @ b)"

definition filename :: "path \<Rightarrow> string" where
  "filename p = rev (takeWhile (\<lambda>c. c \<noteq> CHR ''/'') (rev p))"

text \<open>
  The extension starts at the last dot of the file name, unless that is its first character or the
  name is \<^verbatim>\<open>"."\<close> or \<^verbatim>\<open>".."\<close>.
\<close>

definition extension :: "path \<Rightarrow> string" where
  "extension p =
     (let f = filename p; tail = rev (takeWhile (\<lambda>c. c \<noteq> CHR ''.'') (rev f))
      in if f = ''.'' \<or> f = ''..'' \<or> length f \<le> length tail + 1 then [] else CHR ''.'' # tail)"

definition stem :: "path \<Rightarrow> string" where
  "stem p = (let f = filename p in take (length f - length (extension p)) f)"

section \<open>Default locations\<close>

definition home_directory :: "environment \<Rightarrow> path" where
  "home_directory env = (case env ''HOME'' of Some home \<Rightarrow> home | None \<Rightarrow> [])"

definition default_config_path :: "environment \<Rightarrow> path" where
  "default_config_path env =
     (let base = (case env ''XDG_CONFIG_HOME'' of
                    Some xdg \<Rightarrow> xdg
                  | None \<Rightarrow> path_append (home_directory env) ''.config'')
      in path_append (path_append base ''yoru-speech'') ''config.toml'')"

definition default_models_path :: "environment \<Rightarrow> path" where
  "default_models_path env =
     (let base = (case env ''XDG_DATA_HOME'' of
                    Some xdg \<Rightarrow> xdg
                  | None \<Rightarrow> path_append (path_append (home_directory env) ''.local'') ''share'')
      in path_append (path_append base ''yoru-speech'') ''models'')"

definition default_socket_path :: "environment \<Rightarrow> path" where
  "default_socket_path env =
     (case env ''XDG_RUNTIME_DIR'' of
        Some dir \<Rightarrow> path_append dir ''yoru-speech.sock''
      | None \<Rightarrow> ''/tmp/yoru-speech.sock'')"

section \<open>Lemmas\<close>

lemma takeWhile_rev_suffix: "\<exists>p. xs = p @ rev (takeWhile P (rev xs))"
proof -
  have "rev xs = takeWhile P (rev xs) @ dropWhile P (rev xs)" by simp
  then have "xs = rev (dropWhile P (rev xs)) @ rev (takeWhile P (rev xs))"
    by (metis rev_append rev_rev_ident)
  then show ?thesis by blast
qed

lemma extension_suffix: "\<exists>p. filename q = p @ extension q"
proof -
  define f where "f = filename q"
  define tl where "tl = takeWhile (\<lambda>c. c \<noteq> CHR ''.'') (rev f)"
  define dr where "dr = dropWhile (\<lambda>c. c \<noteq> CHR ''.'') (rev f)"
  have split: "rev f = tl @ dr" by (simp add: tl_def dr_def)
  have "extension q = [] \<or> f = rev (tail) @ extension q" if "dr = CHR ''.'' # tail" for tail
    using that split unfolding extension_def Let_def f_def [symmetric] tl_def [symmetric]
    by (auto simp: rev_swap)
  moreover have "dr = [] \<Longrightarrow> extension q = []"
    using split unfolding extension_def Let_def f_def [symmetric] tl_def [symmetric]
    by (auto simp flip: length_rev [of f])
  moreover have "dr \<noteq> [] \<Longrightarrow> hd dr = CHR ''.''"
    unfolding dr_def using hd_dropWhile by blast
  ultimately show ?thesis unfolding f_def [symmetric]
    by (metis append_Nil2 list.collapse)
qed

text \<open>A file name is its stem followed by its extension.\<close>

lemma stem_extension: "stem p @ extension p = filename p"
proof -
  obtain q where "filename p = q @ extension p" using extension_suffix by blast
  then show ?thesis by (metis add_diff_cancel_right' append_eq_conv_conj length_append stem_def)
qed

lemma default_config_path_examples:
  "default_config_path [''HOME'' \<mapsto> ''/home/u''] = ''/home/u/.config/yoru-speech/config.toml''"
  "default_config_path [''XDG_CONFIG_HOME'' \<mapsto> ''/x''] = ''/x/yoru-speech/config.toml''"
  "default_config_path (\<lambda>_. None) = ''.config/yoru-speech/config.toml''"
  by (simp_all add: default_config_path_def path_append_def home_directory_def is_absolute_def)

end
