(* ===== verification/Configuration.thy ===== *)
theory Configuration
  imports Domain_Model Paths "HOL-Library.Countable"
begin

text \<open>
  The configuration domain: the TOML codec (\<^verbatim>\<open>src/domains/config/toml_codec.cpp\<close>) and the
  \<^verbatim>\<open>ConfigurationManager\<close> (\<^verbatim>\<open>configuration_manager.cpp\<close>). toml++ is not part of the repository: its
  parser, printer and value accessors are the fields of \<open>toml_lib\<close>, an argument of the codec, over
  its type \<open>'n\<close> of nodes; \<open>toml_faithful\<close> names what the codec relies on. The file system is a map
  from paths to contents, and what the system calls answer is an argument (\<open>config_io\<close>). A write
  returns every state another process can observe while it runs.
\<close>

section \<open>The codec\<close>

record validation_error =
  ve_field :: string
  ve_message :: string

record 'n toml_lib =
  toml_parse :: "string \<Rightarrow> (string \<Rightarrow> 'n option) + string"
  toml_print :: "(string \<times> 'n) list \<Rightarrow> string"
  node_of_string :: "string \<Rightarrow> 'n"
  node_of_bool :: "bool \<Rightarrow> 'n"
  value_string :: "'n \<Rightarrow> string option"
  value_bool :: "'n \<Rightarrow> bool option"

definition kLanguageCodeMessage :: string where
  "kLanguageCodeMessage = ''must be \"auto\" or a 2-letter language code''"

definition kModelNameMessage :: string where
  "kModelNameMessage = ''must not be empty''"

definition kModelLoadPolicyMessage :: string where
  "kModelLoadPolicyMessage = ''must be \"on_demand\" or \"always_loaded\"''"

definition is_valid_language_code :: "string \<Rightarrow> bool" where
  "is_valid_language_code v =
     (if v = ''auto'' then True
      else if length v \<noteq> 2 then False
      else islower (v ! 0) \<and> islower (v ! 1))"

definition is_valid_model_name :: "string \<Rightarrow> bool" where
  "is_valid_model_name v \<longleftrightarrow> v \<noteq> ''''"

fun policy_to_string :: "model_load_policy \<Rightarrow> string" where
  "policy_to_string OnDemand = ''on_demand''"
| "policy_to_string AlwaysLoaded = ''always_loaded''"

definition parse_model_load_policy :: "string \<Rightarrow> model_load_policy option" where
  "parse_model_load_policy v =
     (if v = ''on_demand'' then Some OnDemand
      else if v = ''always_loaded'' then Some AlwaysLoaded
      else None)"

definition validate :: "configuration \<Rightarrow> validation_error list" where
  "validate c =
     (if is_valid_language_code (default_language c) then []
      else [\<lparr>ve_field = ''default_language'', ve_message = kLanguageCodeMessage\<rparr>]) @
     (if is_valid_model_name (selected_model c) then []
      else [\<lparr>ve_field = ''selected_model'', ve_message = kModelNameMessage\<rparr>])"

definition encode_toml :: "'n toml_lib \<Rightarrow> configuration \<Rightarrow> string" where
  "encode_toml T c =
     toml_print T
       [(''default_language'', node_of_string T (default_language c)),
        (''selected_model'', node_of_string T (selected_model c)),
        (''auto_clipboard'', node_of_bool T (auto_clipboard c)),
        (''model_load_policy'', node_of_string T (policy_to_string (model_load_policy_of c))),
        (''transcription_prompt'', node_of_string T (transcription_prompt c))]"

type_synonym decoded_configuration = "configuration \<times> validation_error list"

text \<open>
  One field: absent keeps the configuration, a value of the wrong type is reported, and a value of
  the right type is handed to \<open>accept\<close>, which sets the field or reports what is wrong with it.
\<close>

definition decode_field ::
  "(string \<Rightarrow> 'n option) \<Rightarrow> string \<Rightarrow> ('n \<Rightarrow> 'v option) \<Rightarrow> string \<Rightarrow>
   ('v \<Rightarrow> configuration \<Rightarrow> configuration + string) \<Rightarrow> decoded_configuration \<Rightarrow> decoded_configuration" where
  "decode_field tbl key get expected accept d =
     (case d of (c, errors) \<Rightarrow>
        case tbl key of
          None \<Rightarrow> (c, errors)
        | Some n \<Rightarrow>
            (case get n of
               None \<Rightarrow> (c, errors @ [\<lparr>ve_field = key, ve_message = expected\<rparr>])
             | Some v \<Rightarrow>
                 (case accept v c of
                    Inl c' \<Rightarrow> (c', errors)
                  | Inr m \<Rightarrow> (c, errors @ [\<lparr>ve_field = key, ve_message = m\<rparr>]))))"

definition accept_policy :: "string \<Rightarrow> configuration \<Rightarrow> configuration + string" where
  "accept_policy v c =
     (case parse_model_load_policy v of
        Some p \<Rightarrow> Inl (c\<lparr>model_load_policy_of := p\<rparr>)
      | None \<Rightarrow> Inr kModelLoadPolicyMessage)"

definition decode_toml :: "'n toml_lib \<Rightarrow> string \<Rightarrow> configuration \<Rightarrow> decoded_configuration" where
  "decode_toml T source defaults =
     (case toml_parse T source of
        Inr description \<Rightarrow> (defaults, [\<lparr>ve_field = ''<file>'', ve_message = description\<rparr>])
      | Inl tbl \<Rightarrow>
          let d0 = (defaults, []);
              d1 = decode_field tbl ''default_language'' (value_string T) ''expected a string''
                     (\<lambda>v c. Inl (c\<lparr>default_language := v\<rparr>)) d0;
              d2 = decode_field tbl ''selected_model'' (value_string T) ''expected a string''
                     (\<lambda>v c. Inl (c\<lparr>selected_model := v\<rparr>)) d1;
              d3 = decode_field tbl ''auto_clipboard'' (value_bool T) ''expected a boolean''
                     (\<lambda>v c. Inl (c\<lparr>auto_clipboard := v\<rparr>)) d2;
              d4 = decode_field tbl ''model_load_policy'' (value_string T) ''expected a string'' accept_policy d3;
              (c5, e5) = decode_field tbl ''transcription_prompt'' (value_string T) ''expected a string''
                     (\<lambda>v c. Inl (c\<lparr>transcription_prompt := v\<rparr>)) d4;
              (c6, e6) = (if \<not> is_valid_language_code (default_language c5)
                          then (c5\<lparr>default_language := default_language defaults\<rparr>,
                                e5 @ [\<lparr>ve_field = ''default_language'', ve_message = kLanguageCodeMessage\<rparr>])
                          else (c5, e5))
          in if \<not> is_valid_model_name (selected_model c6)
             then (c6\<lparr>selected_model := selected_model defaults\<rparr>,
                   e6 @ [\<lparr>ve_field = ''selected_model'', ve_message = kModelNameMessage\<rparr>])
             else (c6, e6))"

section \<open>The manager\<close>

type_synonym file_system = "path \<Rightarrow> string option"

record config_io =
  io_pid :: nat
  io_mkdir_error :: "string option"
  io_exists_error :: "string option"
  io_open_read_fails :: bool
  io_read_fails :: "nat option"  \<comment> \<open>reading fails after this many characters\<close>
  io_open_temp_fails :: bool
  io_progress :: "nat list"      \<comment> \<open>how much of the temporary file is visible while it is written\<close>
  io_write_fails :: "nat option" \<comment> \<open>writing fails after this many characters\<close>
  io_rename_error :: "string option"
  io_remove_fails :: bool

text \<open>
  \<^verbatim>\<open>contents << stream.rdbuf()\<close> extracts from the buffer of \<open>stream\<close>, not from \<open>stream\<close>: when a read fails, the
  inserter stops and marks \<open>contents\<close>, and the state of \<open>stream\<close>, which is what \<^verbatim>\<open>stream.bad()\<close> reads, stays as opening
  left it.
\<close>

record input_stream =
  is_bad :: bool
  is_buffer :: string                \<comment> \<open>what reading up to the end would give\<close>
  is_read_fails :: "nat option"

definition insert_rdbuf :: "input_stream \<Rightarrow> string \<times> input_stream" where
  "insert_rdbuf stream =
     (case is_read_fails stream of
        None \<Rightarrow> (is_buffer stream, stream)
      | Some n \<Rightarrow> (take n (is_buffer stream), stream))"

definition read_file :: "config_io \<Rightarrow> path \<Rightarrow> file_system \<Rightarrow> string + string" where
  "read_file io p fs =
     (if io_open_read_fails io then Inr ''failed to open file for reading''
      else case fs p of
        None \<Rightarrow> Inr ''failed to open file for reading''
      | Some bytes \<Rightarrow>
          let (contents, stream) = insert_rdbuf \<lparr>is_bad = False, is_buffer = bytes, is_read_fails = io_read_fails io\<rparr>
          in if is_bad stream then Inr ''failed to read file contents'' else Inl contents)"

text \<open>The error, if any, and the states of the file system that can be observed, in order.\<close>

definition write_file_atomically ::
  "config_io \<Rightarrow> path \<Rightarrow> string \<Rightarrow> file_system \<Rightarrow> string option \<times> file_system list" where
  "write_file_atomically io p contents fs =
     (let temp = p @ ''.tmp.'' @ to_string_nat (io_pid io);
          opened = fs(temp \<mapsto> '''');
          writing = map (\<lambda>n. fs(temp \<mapsto> take n contents)) (io_progress io)
      in if io_open_temp_fails io then (Some ''failed to open temporary file for writing'', [fs])
         else case io_write_fails io of
           Some n \<Rightarrow> (Some ''failed to write temporary file'', [fs, opened] @ writing @ [fs(temp \<mapsto> take n contents)])
         | None \<Rightarrow>
             let written = fs(temp \<mapsto> contents)
             in case io_rename_error io of
                  Some m \<Rightarrow> (Some (''failed to move temporary file into place: '' @ m),
                             [fs, opened] @ writing @ [written, if io_remove_fails io then written else written(temp := None)])
                | None \<Rightarrow> (None, [fs, opened] @ writing @ [written, (written(temp := None))(p \<mapsto> contents)]))"

record configuration_manager =
  cm_config_path :: path
  cm_configuration :: configuration

definition new_configuration_manager :: "path \<Rightarrow> configuration_manager" where
  "new_configuration_manager p = \<lparr>cm_config_path = p, cm_configuration = default_configuration\<rparr>"

definition file_error :: "string \<Rightarrow> validation_error" where
  "file_error m = \<lparr>ve_field = ''<file>'', ve_message = m\<rparr>"

definition cm_load ::
  "'n toml_lib \<Rightarrow> config_io \<Rightarrow> configuration_manager \<Rightarrow> file_system \<Rightarrow>
   validation_error list \<times> configuration_manager \<times> file_system list" where
  "cm_load T io cm fs =
     (let defaulted = cm\<lparr>cm_configuration := default_configuration\<rparr>
      in case io_mkdir_error io of
        Some m \<Rightarrow> ([file_error (''failed to create config directory: '' @ m)], defaulted, [fs])
      | None \<Rightarrow>
          (case io_exists_error io of
             Some m \<Rightarrow> ([file_error (''failed to check config file: '' @ m)], defaulted, [fs])
           | None \<Rightarrow>
               if fs (cm_config_path cm) = None then
                 let (err, trace) = write_file_atomically io (cm_config_path cm) (encode_toml T default_configuration) fs
                 in (case err of Some m \<Rightarrow> [file_error m] | None \<Rightarrow> [], defaulted, trace)
               else case read_file io (cm_config_path cm) fs of
                 Inr m \<Rightarrow> ([file_error m], defaulted, [fs])
               | Inl contents \<Rightarrow>
                   let (c, errors) = decode_toml T contents default_configuration
                   in (errors, cm\<lparr>cm_configuration := c\<rparr>, [fs])))"

definition cm_update ::
  "(event, 'w) publisher \<Rightarrow> 'n toml_lib \<Rightarrow> config_io \<Rightarrow> configuration \<Rightarrow> configuration_manager \<Rightarrow> file_system \<Rightarrow> 'w \<Rightarrow>
   validation_error list \<times> configuration_manager \<times> file_system list \<times> 'w" where
  "cm_update pub T io next cm fs w =
     (let errors = validate next
      in if errors \<noteq> [] then (errors, cm, [fs], w)
         else case write_file_atomically io (cm_config_path cm) (encode_toml T next) fs of
           (Some m, trace) \<Rightarrow> ([file_error m], cm, trace, w)
         | (None, trace) \<Rightarrow> ([], cm\<lparr>cm_configuration := next\<rparr>, trace, pub (ConfigurationChanged next) w))"

section \<open>What the codec relies on\<close>

text \<open>
  toml++ reads back the strings and booleans it was given, and parses what it prints to the same
  table, as long as every key is distinct and every string is well-formed UTF-8 (a TOML document
  has to be).
\<close>

definition toml_faithful :: "'n toml_lib \<Rightarrow> bool" where
  "toml_faithful T \<longleftrightarrow>
     (\<forall>s. value_string T (node_of_string T s) = Some s) \<and>
     (\<forall>b. value_bool T (node_of_bool T b) = Some b) \<and>
     (\<forall>kvs. distinct (map fst kvs) \<and>
        (\<forall>(k, n) \<in> set kvs. valid_utf8 k \<and>
           ((\<exists>s. n = node_of_string T s \<and> valid_utf8 s) \<or> (\<exists>b. n = node_of_bool T b))) \<longrightarrow>
        toml_parse T (toml_print T kvs) = Inl (map_of kvs))"

definition utf8_configuration :: "configuration \<Rightarrow> bool" where
  "utf8_configuration c \<longleftrightarrow>
     valid_utf8 (default_language c) \<and> valid_utf8 (selected_model c) \<and> valid_utf8 (transcription_prompt c)"

section \<open>Round trip\<close>

lemma parse_policy_inverse [simp]: "parse_model_load_policy (policy_to_string p) = Some p"
  by (cases p) (simp_all add: parse_model_load_policy_def)

lemma policy_utf8 [simp]: "valid_utf8 (policy_to_string p)"
  by (cases p) (simp_all add: valid_utf8_def char_code_def)

lemma validate_Nil: "validate c = [] \<longleftrightarrow> is_valid_language_code (default_language c) \<and> is_valid_model_name (selected_model c)"
  by (simp add: validate_def)

lemma decode_field_present [simp]:
  "tbl k = Some n \<Longrightarrow> get n = Some v \<Longrightarrow> accept v c = Inl c' \<Longrightarrow> decode_field tbl k get ex accept (c, es) = (c', es)"
  by (simp add: decode_field_def)

lemma parse_encoded:
  assumes "toml_faithful T" and "utf8_configuration c"
  shows "toml_parse T (encode_toml T c) = Inl (map_of
       [(''default_language'', node_of_string T (default_language c)),
        (''selected_model'', node_of_string T (selected_model c)),
        (''auto_clipboard'', node_of_bool T (auto_clipboard c)),
        (''model_load_policy'', node_of_string T (policy_to_string (model_load_policy_of c))),
        (''transcription_prompt'', node_of_string T (transcription_prompt c))])"
proof -
  let ?kvs = "[(''default_language'', node_of_string T (default_language c)),
        (''selected_model'', node_of_string T (selected_model c)),
        (''auto_clipboard'', node_of_bool T (auto_clipboard c)),
        (''model_load_policy'', node_of_string T (policy_to_string (model_load_policy_of c))),
        (''transcription_prompt'', node_of_string T (transcription_prompt c))]"
  have "distinct (map fst ?kvs)" by simp
  moreover have "\<forall>(k, n) \<in> set ?kvs. valid_utf8 k \<and>
      ((\<exists>s. n = node_of_string T s \<and> valid_utf8 s) \<or> (\<exists>b. n = node_of_bool T b))"
    using assms(2) by (auto simp: utf8_configuration_def valid_utf8_def char_code_def)
       (metis policy_utf8 valid_utf8_def char_code_def)+
  ultimately show ?thesis
    using assms(1) unfolding toml_faithful_def encode_toml_def by blast
qed

lemma toml_round_trip_aux:
  assumes "toml_faithful T" and "validate c = []" and "utf8_configuration c"
  shows "decode_toml T (encode_toml T c) defaults = (c, [])"
proof -
  have acc: "value_string T (node_of_string T s) = Some s" "value_bool T (node_of_bool T b) = Some b" for s b
    using assms(1) by (simp_all add: toml_faithful_def)
  have "decode_toml T (encode_toml T c) defaults =
      (defaults\<lparr>default_language := default_language c, selected_model := selected_model c, auto_clipboard := auto_clipboard c,
        model_load_policy_of := model_load_policy_of c, transcription_prompt := transcription_prompt c\<rparr>, [])"
    using assms(2) unfolding validate_Nil
    by (simp add: decode_toml_def parse_encoded [OF assms(1,3)] decode_field_def acc accept_policy_def)
  then show ?thesis by (cases c; cases defaults) simp
qed

text \<open>
  A valid configuration survives being saved and read back: decoding the document the codec
  writes gives the same configuration with no error, whatever the defaults are.
\<close>

theorem toml_round_trip:
  assumes "toml_faithful T" and "validate c = []" and "utf8_configuration c"
  shows "decode_toml T (encode_toml T c) defaults = (c, [])"
  using assms by (rule toml_round_trip_aux)

lemma decode_field_errors: "decode_field tbl k get ex accept (c, es) = (c', es') \<Longrightarrow> es' = [] \<Longrightarrow> es = []"
  by (auto simp: decode_field_def split: option.splits sum.splits)

text \<open>A field read without an error has the document's value if the document mentions it.\<close>

lemma decode_field_value:
  assumes "decode_field tbl k get ex accept (c, es) = (c', [])" and "upd unchanged c = c"
    and "\<And>v d. accept v c = Inl d \<Longrightarrow> \<exists>x. d = upd x c \<and> shows_value v x"
  obtains x where "c' = upd x c" and "\<forall>n. tbl k = Some n \<longrightarrow> (\<exists>v. get n = Some v \<and> shows_value v x)"
proof (cases "tbl k")
  case None
  with assms(1,2) have "c' = upd unchanged c" by (simp add: decode_field_def)
  with None that show thesis by simp
next
  case (Some n)
  with assms(1) obtain v where v: "get n = Some v" "accept v c = Inl c'"
    by (auto simp: decode_field_def split: option.splits sum.splits)
  with assms(3) obtain x where "c' = upd x c" "shows_value v x" by blast
  with Some v that show thesis by simp
qed

lemma policy_parsed: "accept_policy v c = Inl d \<Longrightarrow> \<exists>p. d = c\<lparr>model_load_policy_of := p\<rparr> \<and> v = policy_to_string p"
  by (auto simp: accept_policy_def parse_model_load_policy_def split: option.splits if_splits)

lemma decode_valid_aux:
  assumes "validate defaults = []" and "decode_toml T source defaults = (c, errors)"
  shows "validate c = []"
  using assms unfolding validate_Nil
  by (auto simp: decode_toml_def Let_def split: sum.splits if_splits prod.splits)

text \<open>A document without an error: the result has the value of every field it mentions.\<close>

lemma decode_toml_fields:
  assumes Inl: "toml_parse T source = Inl tbl" and "decode_toml T source defaults = (c, [])"
  shows "(\<forall>n. tbl ''default_language'' = Some n \<longrightarrow> value_string T n = Some (default_language c)) \<and>
     (\<forall>n. tbl ''selected_model'' = Some n \<longrightarrow> value_string T n = Some (selected_model c)) \<and>
     (\<forall>n. tbl ''auto_clipboard'' = Some n \<longrightarrow> value_bool T n = Some (auto_clipboard c)) \<and>
     (\<forall>n. tbl ''model_load_policy'' = Some n \<longrightarrow> value_string T n = Some (policy_to_string (model_load_policy_of c))) \<and>
     (\<forall>n. tbl ''transcription_prompt'' = Some n \<longrightarrow> value_string T n = Some (transcription_prompt c))"
proof -
  obtain c1 e1 where f1: "decode_field tbl ''default_language'' (value_string T) ''expected a string''
      (\<lambda>v c. Inl (c\<lparr>default_language := v\<rparr>)) (defaults, []) = (c1, e1)" by fastforce
  obtain c2 e2 where f2: "decode_field tbl ''selected_model'' (value_string T) ''expected a string''
      (\<lambda>v c. Inl (c\<lparr>selected_model := v\<rparr>)) (c1, e1) = (c2, e2)" by fastforce
  obtain c3 e3 where f3: "decode_field tbl ''auto_clipboard'' (value_bool T) ''expected a boolean''
      (\<lambda>v c. Inl (c\<lparr>auto_clipboard := v\<rparr>)) (c2, e2) = (c3, e3)" by fastforce
  obtain c4 e4 where f4: "decode_field tbl ''model_load_policy'' (value_string T) ''expected a string'' accept_policy (c3, e3) = (c4, e4)"
    by fastforce
  obtain c5 e5 where f5: "decode_field tbl ''transcription_prompt'' (value_string T) ''expected a string''
      (\<lambda>v c. Inl (c\<lparr>transcription_prompt := v\<rparr>)) (c4, e4) = (c5, e5)" by fastforce
  note result = assms(2) [unfolded decode_toml_def Inl sum.simps Let_def f1 f2 f3 f4 f5 prod.case]
  from result have c: "c = c5" and e5: "e5 = []" by (auto split: if_splits)
  have e4: "e4 = []" by (rule decode_field_errors [OF f5 e5])
  have e3: "e3 = []" by (rule decode_field_errors [OF f4 e4])
  have e2: "e2 = []" by (rule decode_field_errors [OF f3 e3])
  have e1: "e1 = []" by (rule decode_field_errors [OF f2 e2])
  note e = e1 e2 e3 e4 e5
  obtain l where l: "c1 = defaults\<lparr>default_language := l\<rparr>"
    "\<forall>n. tbl ''default_language'' = Some n \<longrightarrow> (\<exists>v. value_string T n = Some v \<and> v = l)"
    by (rule decode_field_value [OF f1 [unfolded e], where upd = "\<lambda>v c. c\<lparr>default_language := v\<rparr>" and unchanged = "default_language defaults"
          and shows_value = "(=)"]) (auto dest: policy_parsed)
  obtain m where m: "c2 = c1\<lparr>selected_model := m\<rparr>"
    "\<forall>n. tbl ''selected_model'' = Some n \<longrightarrow> (\<exists>v. value_string T n = Some v \<and> v = m)"
    by (rule decode_field_value [OF f2 [unfolded e], where upd = "\<lambda>v c. c\<lparr>selected_model := v\<rparr>" and unchanged = "selected_model c1"
          and shows_value = "(=)"]) (auto dest: policy_parsed)
  obtain a where a: "c3 = c2\<lparr>auto_clipboard := a\<rparr>"
    "\<forall>n. tbl ''auto_clipboard'' = Some n \<longrightarrow> (\<exists>v. value_bool T n = Some v \<and> v = a)"
    by (rule decode_field_value [OF f3 [unfolded e], where upd = "\<lambda>v c. c\<lparr>auto_clipboard := v\<rparr>" and unchanged = "auto_clipboard c2"
          and shows_value = "(=)"]) (auto dest: policy_parsed)
  obtain p where p: "c4 = c3\<lparr>model_load_policy_of := p\<rparr>"
    "\<forall>n. tbl ''model_load_policy'' = Some n \<longrightarrow> (\<exists>v. value_string T n = Some v \<and> v = policy_to_string p)"
    by (rule decode_field_value [OF f4 [unfolded e], where upd = "\<lambda>v c. c\<lparr>model_load_policy_of := v\<rparr>" and unchanged = "model_load_policy_of c3"
          and shows_value = "\<lambda>v p. v = policy_to_string p"]) (auto dest: policy_parsed)
  obtain q where q: "c5 = c4\<lparr>transcription_prompt := q\<rparr>"
    "\<forall>n. tbl ''transcription_prompt'' = Some n \<longrightarrow> (\<exists>v. value_string T n = Some v \<and> v = q)"
    by (rule decode_field_value [OF f5 [unfolded e], where upd = "\<lambda>v c. c\<lparr>transcription_prompt := v\<rparr>" and unchanged = "transcription_prompt c4"
          and shows_value = "(=)"]) (auto dest: policy_parsed)
  from l m a p q show ?thesis unfolding c by simp
qed

text \<open>
  Decoding never yields an invalid configuration. For any document at all, parsable or not, and
  whatever types its values have, if the defaults are valid then so is the decoded configuration,
  and a document that changes nothing for a bad reason says so: with no error reported, every field
  the document mentions has the document's value.
\<close>

theorem decode_toml_valid:
  assumes "validate defaults = []" and "decode_toml T source defaults = (c, errors)"
  shows "validate c = [] \<and>
    (errors = [] \<longrightarrow> (\<exists>tbl. toml_parse T source = Inl tbl \<and>
       (\<forall>n. tbl ''default_language'' = Some n \<longrightarrow> value_string T n = Some (default_language c)) \<and>
       (\<forall>n. tbl ''selected_model'' = Some n \<longrightarrow> value_string T n = Some (selected_model c)) \<and>
       (\<forall>n. tbl ''auto_clipboard'' = Some n \<longrightarrow> value_bool T n = Some (auto_clipboard c)) \<and>
       (\<forall>n. tbl ''model_load_policy'' = Some n \<longrightarrow>
          value_string T n = Some (policy_to_string (model_load_policy_of c))) \<and>
       (\<forall>n. tbl ''transcription_prompt'' = Some n \<longrightarrow> value_string T n = Some (transcription_prompt c))))"
  using decode_valid_aux [OF assms] decode_toml_fields [of T source _ defaults c] assms(2)
  by (cases "toml_parse T source") (auto simp: decode_toml_def)

section \<open>Saving and loading\<close>

definition temp_path :: "config_io \<Rightarrow> path \<Rightarrow> path" where
  "temp_path io p = p @ ''.tmp.'' @ to_string_nat (io_pid io)"

lemma temp_path_neq [simp]: "temp_path io p \<noteq> p" "p \<noteq> temp_path io p"
  by (auto simp: temp_path_def)

lemma write_file_result:
  assumes "write_file_atomically io p contents fs = (err, trace)"
  shows "trace \<noteq> [] \<and> (\<forall>fs' \<in> set trace. fs' p = fs p \<or> err = None \<and> fs' p = Some contents) \<and>
     (\<forall>fs' \<in> set trace. \<forall>q. q \<noteq> p \<longrightarrow> q \<noteq> temp_path io p \<longrightarrow> fs' q = fs q) \<and>
     (err = None \<longrightarrow> last trace = (fs(temp_path io p := None))(p \<mapsto> contents)) \<and>
     (err \<noteq> None \<longrightarrow> last trace p = fs p)"
  using assms unfolding write_file_atomically_def temp_path_def [symmetric]
  by (auto simp: Let_def split: if_splits option.splits)

lemma default_valid: "validate default_configuration = []"
  by (simp add: validate_Nil default_configuration_def is_valid_language_code_def is_valid_model_name_def)

lemma default_utf8: "utf8_configuration default_configuration"
  by (simp add: utf8_configuration_def default_configuration_def valid_utf8_def char_code_def)

text \<open>
  C33: An update is all or nothing, on disk, in memory and towards the subscribers. If the new
  configuration is invalid or cannot be saved, the errors are returned, the configuration in memory
  and the file are as before, and nothing is published; otherwise the file holds the encoded
  configuration, memory holds it, and exactly one ConfigurationChanged carrying it is published
  afterwards. At no moment can another process observe anything in the file but the old contents or
  the complete new ones, and no file besides it and the temporary one is touched.
\<close>

theorem update_all_or_nothing:
  assumes "cm_update pub T io next cm fs w = (errors, cm', trace, w')"
  shows "(\<forall>fs' \<in> set trace. fs' (cm_config_path cm) = fs (cm_config_path cm) \<or>
            errors = [] \<and> fs' (cm_config_path cm) = Some (encode_toml T next)) \<and>
     (\<forall>fs' \<in> set trace. \<forall>q. q \<noteq> cm_config_path cm \<longrightarrow> q \<noteq> temp_path io (cm_config_path cm) \<longrightarrow> fs' q = fs q) \<and>
     (if errors = []
      then validate next = [] \<and> cm_configuration cm' = next \<and> w' = pub (ConfigurationChanged next) w \<and>
           last trace (cm_config_path cm) = Some (encode_toml T next)
      else cm' = cm \<and> w' = w \<and> last trace (cm_config_path cm) = fs (cm_config_path cm))"
proof (cases "validate next = []")
  case False
  with assms show ?thesis by (auto simp: cm_update_def Let_def)
next
  case True
  obtain err tr where wr: "write_file_atomically io (cm_config_path cm) (encode_toml T next) fs = (err, tr)"
    by (cases "write_file_atomically io (cm_config_path cm) (encode_toml T next) fs")
  note r = write_file_result [OF wr]
  show ?thesis
  proof (cases err)
    case None
    with assms True wr have "errors = []" "cm' = cm\<lparr>cm_configuration := next\<rparr>" "trace = tr"
      "w' = pub (ConfigurationChanged next) w" by (simp_all add: cm_update_def)
    with r None True show ?thesis by simp
  next
    case (Some m)
    with assms True wr have "errors = [file_error m]" "cm' = cm" "trace = tr" "w' = w" by (simp_all add: cm_update_def)
    with r Some show ?thesis by simp
  qed
qed

text \<open>
  C34: The configuration is durable across restarts. After a successful update, a new manager on the
  same path that can reach the file loads exactly that configuration, without errors and without
  writing.
\<close>

theorem update_survives_restart:
  assumes T: "toml_faithful T" and utf8: "utf8_configuration next"
    and upd: "cm_update pub T io next cm fs w = ([], cm', trace, w')"
    and io': "io_mkdir_error io' = None" "io_exists_error io' = None" "\<not> io_open_read_fails io'" "io_read_fails io' = None"
  shows "cm_load T io' (new_configuration_manager (cm_config_path cm)) (last trace) =
           ([], \<lparr>cm_config_path = cm_config_path cm, cm_configuration = next\<rparr>, [last trace])"
proof -
  obtain tr where "validate next = []" and wr: "write_file_atomically io (cm_config_path cm) (encode_toml T next) fs = (None, tr)"
    and "trace = tr"
    using upd by (auto simp: cm_update_def file_error_def Let_def split: if_splits prod.splits option.splits)
  with write_file_result [OF wr] have "last trace (cm_config_path cm) = Some (encode_toml T next)" by simp
  moreover have "decode_toml T (encode_toml T next) default_configuration = (next, [])"
    using toml_round_trip_aux [OF T \<open>validate next = []\<close> utf8] by simp
  ultimately show ?thesis
    using io' by (simp add: cm_load_def read_file_def insert_rdbuf_def new_configuration_manager_def Let_def)
qed

lemma cm_load_valid:
  assumes "cm_load T io cm fs = (errors, cm', trace)"
  shows "validate (cm_configuration cm') = []"
proof -
  have dec: "validate (fst (decode_toml T s default_configuration)) = []" for s
    using decode_valid_aux [OF default_valid, of T s] by (cases "decode_toml T s default_configuration") auto
  then have "decode_toml T s default_configuration = (c, es) \<Longrightarrow> validate c = []" for s c es by (metis fst_conv)
  with assms default_valid show ?thesis
    by (auto simp: cm_load_def read_file_def Let_def split: option.splits if_splits sum.splits prod.splits)
qed

text \<open>A failed read is the end of the file as far as the code can tell.\<close>

lemma read_error_truncates:
  assumes "fs p = Some bytes" and "io_read_fails io = Some n"
  shows "read_file io p fs = read_file (io\<lparr>io_read_fails := None\<rparr>) p (fs(p \<mapsto> take n bytes))"
  using assms by (simp add: read_file_def insert_rdbuf_def)

text \<open>
  C35: Loading never leaves the service without a usable configuration: for any file contents and
  any failure of the file system, the configuration in memory afterwards is valid. When the directory cannot be
  made, or the file cannot be examined or opened, there is exactly one error and the configuration is the default one. A read
  that fails half way is not noticed, though: loading then gives the configuration, and only the errors, that a file cut short
  at that point would give.
\<close>

theorem load_always_valid:
  assumes "cm_load T io cm fs = (errors, cm', trace)"
  shows "validate (cm_configuration cm') = [] \<and> cm_config_path cm' = cm_config_path cm \<and>
     (io_mkdir_error io \<noteq> None \<or> io_exists_error io \<noteq> None \<or> fs (cm_config_path cm) \<noteq> None \<and> io_open_read_fails io \<longrightarrow>
        length errors = 1 \<and> cm_configuration cm' = default_configuration) \<and>
     (\<forall>bytes n. fs (cm_config_path cm) = Some bytes \<and> io_read_fails io = Some n \<longrightarrow>
        (let cut = cm_load T (io\<lparr>io_read_fails := None\<rparr>) cm (fs(cm_config_path cm \<mapsto> take n bytes))
         in errors = fst cut \<and> cm' = fst (snd cut)))"
proof -
  have "errors = fst cut \<and> cm' = fst (snd cut)"
    if "fs (cm_config_path cm) = Some bytes" "io_read_fails io = Some n"
      and "cut = cm_load T (io\<lparr>io_read_fails := None\<rparr>) cm (fs(cm_config_path cm \<mapsto> take n bytes))" for bytes n cut
    using assms that read_error_truncates [where fs = fs, OF that(1,2)]
    by (auto simp: cm_load_def Let_def split: option.splits sum.splits prod.splits)
  moreover have "length errors = 1 \<and> cm_configuration cm' = default_configuration"
    if "io_mkdir_error io \<noteq> None \<or> io_exists_error io \<noteq> None \<or> fs (cm_config_path cm) \<noteq> None \<and> io_open_read_fails io"
    using assms that by (auto simp: cm_load_def read_file_def Let_def split: option.splits if_splits sum.splits prod.splits)
  moreover have "cm_config_path cm' = cm_config_path cm"
    using assms by (auto simp: cm_load_def Let_def split: option.splits if_splits sum.splits prod.splits)
  ultimately show ?thesis using cm_load_valid [OF assms] by (simp add: Let_def)
qed

section \<open>Witnesses\<close>

text \<open>
  A document format that keeps its promise: a table is written as a run of letters whose length
  codes it.
\<close>

definition toy_toml :: "(string + bool) toml_lib" where
  "toy_toml =
     \<lparr>toml_parse = (\<lambda>s. Inl (map_of (from_nat (length s)))),
      toml_print = (\<lambda>kvs. replicate (to_nat kvs) CHR ''x''),
      node_of_string = Inl, node_of_bool = Inr,
      value_string = (\<lambda>n. case n of Inl s \<Rightarrow> Some s | Inr _ \<Rightarrow> None),
      value_bool = (\<lambda>n. case n of Inl _ \<Rightarrow> None | Inr b \<Rightarrow> Some b)\<rparr>"

lemma toy_toml_faithful: "toml_faithful toy_toml"
  by (simp add: toml_faithful_def toy_toml_def)

definition good_io :: config_io where
  "good_io = \<lparr>io_pid = 42, io_mkdir_error = None, io_exists_error = None, io_open_read_fails = False,
     io_read_fails = None, io_open_temp_fails = False, io_progress = [3], io_write_fails = None,
     io_rename_error = None, io_remove_fails = False\<rparr>"

definition demo_config :: configuration where
  "demo_config = default_configuration\<lparr>default_language := ''pt''\<rparr>"

lemma demo_config_valid: "validate demo_config = []" "utf8_configuration demo_config"
  by (simp_all add: validate_Nil demo_config_def default_configuration_def is_valid_language_code_def
      is_valid_model_name_def islower_def char_code_def utf8_configuration_def valid_utf8_def)

theorem toml_round_trip_witness:
  "decode_toml toy_toml (encode_toml toy_toml demo_config) default_configuration = (demo_config, [])"
  by (rule toml_round_trip [OF toy_toml_faithful demo_config_valid])

theorem decode_toml_valid_witness:
  "\<exists>c errors. decode_toml toy_toml ''xxx'' default_configuration = (c, errors) \<and> validate c = []"
proof -
  obtain c errors where d: "decode_toml toy_toml ''xxx'' default_configuration = (c, errors)"
    by (cases "decode_toml toy_toml ''xxx'' default_configuration")
  from decode_toml_valid [OF default_valid d] d show ?thesis by blast
qed

definition demo_update ::
  "validation_error list \<times> configuration_manager \<times> file_system list \<times> event list" where
  "demo_update = cm_update record_event toy_toml good_io demo_config (new_configuration_manager ''c'') (\<lambda>_. None) []"

lemma demo_update_eval:
  "\<exists>cm' trace. demo_update = ([], cm', trace, [ConfigurationChanged demo_config])"
  by (simp add: demo_update_def cm_update_def demo_config_valid write_file_atomically_def good_io_def Let_def)

theorem update_all_or_nothing_witness:
  "\<exists>cm' trace. demo_update = ([], cm', trace, [ConfigurationChanged demo_config]) \<and>
     last trace ''c'' = Some (encode_toml toy_toml demo_config)"
proof -
  obtain cm' trace where d: "demo_update = ([], cm', trace, [ConfigurationChanged demo_config])"
    using demo_update_eval by blast
  from update_all_or_nothing [OF d [unfolded demo_update_def]] d show ?thesis
    by (intro exI [of _ cm'] exI [of _ trace]) (simp add: new_configuration_manager_def)
qed

theorem update_survives_restart_witness:
  "\<exists>cm' trace w'. demo_update = ([], cm', trace, w') \<and>
     cm_load toy_toml good_io (new_configuration_manager ''c'') (last trace) =
       ([], \<lparr>cm_config_path = ''c'', cm_configuration = demo_config\<rparr>, [last trace])"
proof -
  obtain cm' trace where d: "demo_update = ([], cm', trace, [ConfigurationChanged demo_config])"
    using demo_update_eval by blast
  from update_survives_restart [OF toy_toml_faithful demo_config_valid(2) d [unfolded demo_update_def], of good_io] d
  show ?thesis
    by (intro exI [of _ cm'] exI [of _ trace] exI) (auto simp: good_io_def new_configuration_manager_def)
qed

text \<open>A file that cannot be read at all: the defaults, and no error, although the file says otherwise.\<close>

theorem load_always_valid_witness:
  "\<exists>cm' trace. cm_load (toy_toml\<lparr>toml_parse := (\<lambda>s. if s = '''' then Inl Map.empty else toml_parse toy_toml s)\<rparr>)
       (good_io\<lparr>io_read_fails := Some 0\<rparr>) (new_configuration_manager ''c'') [''c'' \<mapsto> encode_toml toy_toml demo_config]
     = ([], cm', trace) \<and> cm_configuration cm' = default_configuration"
proof -
  let ?T = "toy_toml\<lparr>toml_parse := (\<lambda>s. if s = '''' then Inl Map.empty else toml_parse toy_toml s)\<rparr>"
    and ?io = "good_io\<lparr>io_read_fails := Some 0\<rparr>" and ?fs = "[''c'' \<mapsto> encode_toml toy_toml demo_config]"
  obtain errors cm' trace where d: "cm_load ?T ?io (new_configuration_manager ''c'') ?fs = (errors, cm', trace)"
    by (cases "cm_load ?T ?io (new_configuration_manager ''c'') ?fs")
  have "cm_load ?T (?io\<lparr>io_read_fails := None\<rparr>) (new_configuration_manager ''c'') (?fs(''c'' \<mapsto> ''''))
      = ([], new_configuration_manager ''c'', [?fs(''c'' \<mapsto> '''')])"
    using default_valid unfolding validate_Nil
    by (simp add: cm_load_def good_io_def new_configuration_manager_def read_file_def insert_rdbuf_def
        decode_toml_def decode_field_def Let_def)
  with load_always_valid [OF d] have "errors = []" "cm' = new_configuration_manager ''c''"
    by (simp_all add: good_io_def new_configuration_manager_def)
  with d show ?thesis by (simp add: new_configuration_manager_def)
qed

end
