(* ===== verification/Descriptors.thy ===== *)
theory Descriptors
  imports Yoru_Prelude
begin

text \<open>
  The table of open file descriptors of a process, as far as the code manipulates it directly
  (\<^verbatim>\<open>wl_clipboard_adapter.cpp\<close>, \<^verbatim>\<open>ipc_server.cpp\<close>): which open file each number refers to and whether the
  number survives \<^verbatim>\<open>exec\<close>. The system calls used are those of POSIX: a new descriptor is the lowest free
  number, \<^verbatim>\<open>dup2\<close> closes its target, keeps both numbers on one open file and never sets close-on-exec,
  \<^verbatim>\<open>dup2(n, n)\<close> changes nothing, and \<^verbatim>\<open>exec\<close> closes the marked numbers only. A table is a list indexed
  by the numbers; beyond its end everything is free.
\<close>

section \<open>Errors\<close>

text \<open>The values of \<^verbatim>\<open>errno\<close> the code tells apart, and the classifications of \<^verbatim>\<open>ipc_server.cpp\<close>.\<close>

datatype errno = EINTR | EAGAIN | EWOULDBLOCK | EINPROGRESS | ECONNABORTED | ECONNREFUSED | EADDRINUSE | EOther nat

definition would_block :: "errno \<Rightarrow> bool" where
  "would_block e \<longleftrightarrow> e = EAGAIN \<or> e = EWOULDBLOCK"

definition interrupted :: "errno \<Rightarrow> bool" where
  "interrupted e \<longleftrightarrow> e = EINTR"

text \<open>\<open>description\<close> is what \<^verbatim>\<open>strerror(errno)\<close> gives.\<close>

definition errno_message :: "string \<Rightarrow> string \<Rightarrow> string" where
  "errno_message what description = what @ '': '' @ description"

section \<open>Tables and system calls\<close>

datatype open_file =
    Inherited nat            \<comment> \<open>what the process was started with\<close>
  | PipeRead | PipeWrite
  | DevNull
  | ProbeSocket | ListenSocket | WakeEvent
  | ClientSocket nat         \<comment> \<open>the connection accepted as the \<open>n\<close>-th\<close>

record descriptor =
  fd_file :: open_file
  fd_cloexec :: bool

type_synonym fd_table = "descriptor option list"

definition fd_at :: "fd_table \<Rightarrow> nat \<Rightarrow> descriptor option" where
  "fd_at t n = (if n < length t then t ! n else None)"

definition fd_set :: "nat \<Rightarrow> descriptor \<Rightarrow> fd_table \<Rightarrow> fd_table" where
  "fd_set n d t =
     (if n < length t then t[n := Some d] else t @ replicate (n - length t) None @ [Some d])"

definition fd_lowest :: "fd_table \<Rightarrow> nat" where
  "fd_lowest t = length (takeWhile (\<lambda>d. d \<noteq> None) t)"

text \<open>\<^verbatim>\<open>open\<close>, \<^verbatim>\<open>socket\<close>, \<^verbatim>\<open>accept\<close>, \<^verbatim>\<open>eventfd\<close>: the number and the new table.\<close>

definition fd_open :: "open_file \<Rightarrow> bool \<Rightarrow> fd_table \<Rightarrow> nat \<times> fd_table" where
  "fd_open f cloexec t = (let n = fd_lowest t in (n, fd_set n \<lparr>fd_file = f, fd_cloexec = cloexec\<rparr> t))"

definition fd_pipe :: "fd_table \<Rightarrow> nat \<times> nat \<times> fd_table" where
  "fd_pipe t =
     (let (r, t1) = fd_open PipeRead False t;
          (w, t2) = fd_open PipeWrite False t1
      in (r, w, t2))"

definition fd_close :: "nat \<Rightarrow> fd_table \<Rightarrow> fd_table" where
  "fd_close n t = t[n := None]"

definition fd_dup2 :: "nat \<Rightarrow> nat \<Rightarrow> fd_table \<Rightarrow> fd_table" where
  "fd_dup2 old new t =
     (case fd_at t old of
        None \<Rightarrow> t
      | Some d \<Rightarrow> if old = new then t else fd_set new (d\<lparr>fd_cloexec := False\<rparr>) t)"

definition fd_exec :: "fd_table \<Rightarrow> fd_table" where
  "fd_exec t = map (\<lambda>d. case d of None \<Rightarrow> None | Some e \<Rightarrow> if fd_cloexec e then None else Some e) t"

definition holds_file :: "open_file \<Rightarrow> fd_table \<Rightarrow> bool" where
  "holds_file f t \<longleftrightarrow> list_ex (\<lambda>d. case d of None \<Rightarrow> False | Some e \<Rightarrow> fd_file e = f) t"

section \<open>What each call does to each number\<close>

lemma fd_at_set [simp]: "fd_at (fd_set n d t) m = (if m = n then Some d else fd_at t m)"
  by (auto simp: fd_at_def fd_set_def nth_append)

lemma fd_at_close [simp]: "fd_at (fd_close n t) m = (if m = n then None else fd_at t m)"
  by (simp add: fd_at_def fd_close_def nth_list_update)

lemma fd_at_dup2 [simp]:
  "fd_at (fd_dup2 old new t) m =
     (if m = new \<and> old \<noteq> new then
        (case fd_at t old of None \<Rightarrow> fd_at t m | Some d \<Rightarrow> Some (d\<lparr>fd_cloexec := False\<rparr>))
      else fd_at t m)"
  by (simp add: fd_dup2_def split: option.splits)

lemma fd_at_exec [simp]:
  "fd_at (fd_exec t) m = (case fd_at t m of None \<Rightarrow> None | Some e \<Rightarrow> if fd_cloexec e then None else Some e)"
  by (simp add: fd_at_def fd_exec_def)

lemma fd_lowest_free: "fd_at t (fd_lowest t) = None"
  unfolding fd_lowest_def fd_at_def using nth_length_takeWhile [of "\<lambda>d. d \<noteq> None" t] by auto

lemma fd_below_lowest: "n < fd_lowest t \<Longrightarrow> fd_at t n \<noteq> None"
proof -
  assume n: "n < fd_lowest t"
  then have "t ! n \<in> set (takeWhile (\<lambda>d. d \<noteq> None) t)"
    unfolding fd_lowest_def by (metis nth_mem takeWhile_nth)
  moreover have "n < length t" using n length_takeWhile_le [of "\<lambda>d. d \<noteq> None" t] unfolding fd_lowest_def by linarith
  ultimately show ?thesis by (auto simp: fd_at_def dest: set_takeWhileD)
qed

lemma fd_lowest_le: "fd_at t n = None \<Longrightarrow> fd_lowest t \<le> n"
  using fd_below_lowest [of n t] by (meson not_le)

text \<open>Opening gives a number that was free; nothing else changes.\<close>

lemma fd_open_result:
  assumes "fd_open f cloexec t = (n, t')"
  shows "n = fd_lowest t" and "fd_at t n = None"
    and "fd_at t' m = (if m = n then Some \<lparr>fd_file = f, fd_cloexec = cloexec\<rparr> else fd_at t m)"
  using assms fd_lowest_free [of t] by (auto simp: fd_open_def Let_def)

lemma fd_pipe_result:
  assumes "fd_pipe t = (r, w, t')"
  shows "r = fd_lowest t" and "fd_at t r = None" and "fd_at t w = None" and "r \<noteq> w"
    and "fd_at t' m = (if m = r then Some \<lparr>fd_file = PipeRead, fd_cloexec = False\<rparr>
                       else if m = w then Some \<lparr>fd_file = PipeWrite, fd_cloexec = False\<rparr> else fd_at t m)"
proof -
  obtain t1 where o1: "fd_open PipeRead False t = (r, t1)" and o2: "fd_open PipeWrite False t1 = (w, t')"
    using assms by (auto simp: fd_pipe_def split: prod.splits)
  note r = fd_open_result [OF o1] and w = fd_open_result [OF o2]
  show "r = fd_lowest t" "fd_at t r = None" by (fact r)+
  show "r \<noteq> w" using w(2) r(3) [of r] by auto
  then show "fd_at t w = None" using w(2) r(3) [of w] by simp
  show "fd_at t' m = (if m = r then Some \<lparr>fd_file = PipeRead, fd_cloexec = False\<rparr>
                       else if m = w then Some \<lparr>fd_file = PipeWrite, fd_cloexec = False\<rparr> else fd_at t m)"
    using w(3) [of m] r(3) [of m] \<open>r \<noteq> w\<close> by (cases "m = r") simp_all
qed

lemma holds_file_iff: "holds_file f t \<longleftrightarrow> (\<exists>n d. fd_at t n = Some d \<and> fd_file d = f)"
proof
  assume "holds_file f t"
  then obtain x where "x \<in> set t" "case x of None \<Rightarrow> False | Some e \<Rightarrow> fd_file e = f"
    by (auto simp: holds_file_def list_ex_iff)
  then obtain n d where "n < length t" "t ! n = Some d" "fd_file d = f"
    by (auto simp: in_set_conv_nth split: option.splits)
  then show "\<exists>n d. fd_at t n = Some d \<and> fd_file d = f" by (intro exI [of _ n] exI [of _ d]) (simp add: fd_at_def)
next
  assume "\<exists>n d. fd_at t n = Some d \<and> fd_file d = f"
  then obtain n d where "fd_at t n = Some d" "fd_file d = f" by blast
  then have "Some d \<in> set t" by (metis fd_at_def nth_mem option.distinct(1))
  with \<open>fd_file d = f\<close> show "holds_file f t" by (force simp: holds_file_def list_ex_iff)
qed

end
