(* ===== verification/Clipboard.thy ===== *)
theory Clipboard
  imports Domain_Model Descriptors
begin

text \<open>
  The clipboard domain: \<^verbatim>\<open>WlClipboardAdapter::copy\<close> (\<^verbatim>\<open>wl_clipboard_adapter.cpp\<close>), which runs
  \<^verbatim>\<open>wl-copy\<close> with the text on its standard input, and \<^verbatim>\<open>AutoClipboard\<close> (\<^verbatim>\<open>auto_clipboard.cpp\<close>). Both sides of the
  fork are modelled: the parent writes and waits, the child rearranges its descriptors and becomes the
  command. What the kernel and the command do is an argument (\<open>copy_env\<close>): the results of the system calls, how
  many bytes each \<^verbatim>\<open>write\<close> takes or that it never returns (the pipe blocks, and the child may neither read nor
  exit), at which check of the wait loop the child has exited, and the clock readings. The waiting loop is a
  partial function: when \<^verbatim>\<open>copy\<close> returns, and that it does not when a write blocks, is a theorem. The child is a
  process with a state that \<^verbatim>\<open>fork\<close>, \<^verbatim>\<open>kill\<close> and \<^verbatim>\<open>waitpid\<close> change. Clock readings are in milliseconds; ghost
  results record what was written, the state of the child process, the descriptors afterwards and what the child
  runs.
\<close>

datatype wait_status = ExitStatus nat | Killed

text \<open>The child as its parent sees it: an exited child is a zombie until it is waited for.\<close>

datatype child_state = NoChild | Alive | Zombie wait_status | Reaped

record copy_env =
  env_descriptors :: fd_table     \<comment> \<open>what is open when \<^verbatim>\<open>copy\<close> is called\<close>
  env_pipe_error :: "string option"
  env_fork_error :: "string option"
  env_dev_null :: bool            \<comment> \<open>the child can open \<^verbatim>\<open>/dev/null\<close>\<close>
  env_exec :: bool                \<comment> \<open>the command is found and can be run\<close>
  env_writes :: "int option list" \<comment> \<open>what each \<^verbatim>\<open>write\<close> returns, \<open>None\<close> if it never does; afterwards everything is taken\<close>
  env_exit_at :: "nat option"     \<comment> \<open>the first check that finds the child exited\<close>
  env_status :: wait_status       \<comment> \<open>how the command ends\<close>
  env_start :: time_point         \<comment> \<open>the clock before waiting\<close>
  env_clock :: "nat \<Rightarrow> time_point" \<comment> \<open>the clock after the \<open>i\<close>-th check\<close>

datatype clipboard_error = ClipboardError string

record wl_clipboard_adapter =
  wl_command :: string
  wl_timeout :: milliseconds

definition default_adapter :: wl_clipboard_adapter where
  "default_adapter = \<lparr>wl_command = ''wl-copy'', wl_timeout = 500\<rparr>"

text \<open>The child after the fork: the command with these descriptors, or an exit of its own.\<close>

datatype child = ChildRunning fd_table | ChildExited nat

record copy_result =
  cr_error :: "clipboard_error option"
  cr_written :: string
  cr_process :: child_state
  cr_descriptors :: fd_table
  cr_child :: "child option"

text \<open>\<^verbatim>\<open>silence_stdio\<close>\<close>

definition silence_stdio :: "bool \<Rightarrow> fd_table \<Rightarrow> fd_table" where
  "silence_stdio opens t =
     (if \<not> opens then t
      else let (dev_null, t1) = fd_open DevNull False t
           in fd_close dev_null (fd_dup2 dev_null 2 (fd_dup2 dev_null 1 t1)))"

text \<open>The branch \<^verbatim>\<open>child_pid == 0\<close>.\<close>

definition child_process :: "copy_env \<Rightarrow> nat \<Rightarrow> nat \<Rightarrow> fd_table \<Rightarrow> child" where
  "child_process env read_end write_end t =
     (let t1 = fd_dup2 read_end 0 t;
          t2 = fd_close read_end t1;
          t3 = fd_close write_end t2;
          t4 = silence_stdio (env_dev_null env) t3
      in if env_exec env then ChildRunning (fd_exec t4) else ChildExited 127)"

definition child_status :: "copy_env \<Rightarrow> child \<Rightarrow> wait_status" where
  "child_status env c = (case c of ChildExited code \<Rightarrow> ExitStatus code | ChildRunning _ \<Rightarrow> env_status env)"

definition kPollInterval :: milliseconds where "kPollInterval = 10"

text \<open>What was written, or \<open>None\<close> when a \<^verbatim>\<open>write\<close> never returns.\<close>

fun write_all :: "int option list \<Rightarrow> string \<Rightarrow> string option" where
  "write_all ws [] = Some []"
| "write_all [] content = Some content"
| "write_all (None # ws) (c # content) = None"
| "write_all (Some sent # ws) (c # content) =
     (if sent \<le> 0 then Some []
      else map_option ((@) (take (nat sent) (c # content))) (write_all ws (drop (nat sent) (c # content))))"

text \<open>
  The calls on the child process: \<^verbatim>\<open>waitpid\<close> with \<^verbatim>\<open>WNOHANG\<close>, \<^verbatim>\<open>kill\<close> with \<^verbatim>\<open>SIGKILL\<close>, and \<^verbatim>\<open>waitpid\<close> that blocks until
  there is something to collect (\<open>None\<close> when there never is).
\<close>

fun waitpid_nohang :: "child_state \<Rightarrow> wait_status option \<times> child_state" where
  "waitpid_nohang (Zombie s) = (Some s, Reaped)"
| "waitpid_nohang p = (None, p)"

fun kill_child :: "child_state \<Rightarrow> child_state" where
  "kill_child Alive = Zombie Killed"
| "kill_child p = p"

fun waitpid_blocking :: "child_state \<Rightarrow> child_state option" where
  "waitpid_blocking Alive = None"
| "waitpid_blocking (Zombie s) = Some Reaped"
| "waitpid_blocking p = Some p"

text \<open>The child when the \<open>i\<close>-th check is made, if nobody has waited for it.\<close>

definition child_at :: "copy_env \<Rightarrow> child \<Rightarrow> nat \<Rightarrow> child_state" where
  "child_at env c i =
     (case env_exit_at env of
        Some k \<Rightarrow> if k \<le> i then Zombie (child_status env c) else Alive
      | None \<Rightarrow> Alive)"

text \<open>The loop: the status that was collected, or no status if the deadline passed; and the child afterwards.\<close>

partial_function (option) wait_child ::
  "(nat \<Rightarrow> child_state) \<Rightarrow> (nat \<Rightarrow> time_point) \<Rightarrow> time_point \<Rightarrow> nat \<Rightarrow> (wait_status option \<times> child_state) option" where
  "wait_child process clock deadline i =
     (case waitpid_nohang (process i) of
        (Some s, p) \<Rightarrow> Some (Some s, p)
      | (None, p) \<Rightarrow>
          if clock i \<ge> deadline then map_option (Pair None) (waitpid_blocking (kill_child p))
          else wait_child process clock deadline (Suc i))"

text \<open>What a collected status means.\<close>

definition status_error :: "wl_clipboard_adapter \<Rightarrow> wait_status \<Rightarrow> clipboard_error option" where
  "status_error a s =
     (case s of
        Killed \<Rightarrow> Some (ClipboardError (wl_command a @ '' terminated abnormally''))
      | ExitStatus code \<Rightarrow>
          if code = 127 then Some (ClipboardError (wl_command a @ '' not found''))
          else if code \<noteq> 0
          then Some (ClipboardError (wl_command a @ '' exited with status '' @ to_string_nat code))
          else None)"

definition copy :: "copy_env \<Rightarrow> string \<Rightarrow> wl_clipboard_adapter \<Rightarrow> copy_result option" where
  "copy env content a =
     (case env_pipe_error env of
        Some m \<Rightarrow> Some \<lparr>cr_error = Some (ClipboardError (errno_message ''failed to create pipe'' m)), cr_written = '''',
                        cr_process = NoChild, cr_descriptors = env_descriptors env, cr_child = None\<rparr>
      | None \<Rightarrow>
          let (read_end, write_end, t) = fd_pipe (env_descriptors env)
          in (case env_fork_error env of
             Some m \<Rightarrow> Some \<lparr>cr_error = Some (ClipboardError (errno_message ''failed to fork'' m)), cr_written = '''', cr_process = NoChild,
                             cr_descriptors = fd_close write_end (fd_close read_end t), cr_child = None\<rparr>
           | None \<Rightarrow>
               let child = child_process env read_end write_end t;
                   t1 = fd_close read_end t
               in (case write_all (env_writes env) content of
                     None \<Rightarrow> None
                   | Some written \<Rightarrow>
                       let t2 = fd_close write_end t1;
                           deadline = env_start env + wl_timeout a
                       in map_option
                            (\<lambda>(result, process).
                               \<lparr>cr_error = (case result of
                                               None \<Rightarrow> Some (ClipboardError (wl_command a @ '' timed out''))
                                             | Some s \<Rightarrow> status_error a s),
                                cr_written = written, cr_process = process, cr_descriptors = t2, cr_child = Some child\<rparr>)
                            (wait_child (child_at env child) (env_clock env) deadline 0))))"

record auto_clipboard_state =
  ac_adapter :: wl_clipboard_adapter
  ac_enabled :: bool

definition new_auto_clipboard :: "configuration \<Rightarrow> wl_clipboard_adapter \<Rightarrow> auto_clipboard_state" where
  "new_auto_clipboard initial a = \<lparr>ac_adapter = a, ac_enabled = auto_clipboard initial\<rparr>"

text \<open>The handler of \<^verbatim>\<open>TranscriptionCompleted\<close>; \<open>err\<close> is what \<^verbatim>\<open>copy\<close> returned, if it was called.\<close>

definition ac_on_transcription_completed ::
  "(event, 'w) publisher \<Rightarrow> (string \<Rightarrow> clipboard_error option) \<Rightarrow> session_id \<Rightarrow> transcript \<Rightarrow>
   auto_clipboard_state \<Rightarrow> 'w \<Rightarrow> 'w" where
  "ac_on_transcription_completed pub do_copy sid t ac w =
     (if \<not> ac_enabled ac then w
      else case do_copy (transcript_text t) of
        None \<Rightarrow> w
      | Some (ClipboardError m) \<Rightarrow> pub (ErrorOccurred (Some sid) ''clipboard'' m) w)"

definition ac_on_configuration_changed :: "configuration \<Rightarrow> auto_clipboard_state \<Rightarrow> auto_clipboard_state" where
  "ac_on_configuration_changed c ac = ac\<lparr>ac_enabled := auto_clipboard c\<rparr>"

definition is_enabled :: "auto_clipboard_state \<Rightarrow> bool" where
  "is_enabled ac = ac_enabled ac"

section \<open>Writing\<close>

lemma write_all_prefix: "write_all ws content = Some written \<Longrightarrow> prefix written content"
proof (induction ws content arbitrary: written rule: write_all.induct)
  case (4 sent ws c content)
  show ?case
  proof (cases "sent \<le> 0")
    case False
    with 4(2) obtain rest where rest: "write_all ws (drop (nat sent) (c # content)) = Some rest"
      "written = take (nat sent) (c # content) @ rest" by auto
    from 4(1) [OF False rest(1)] have "prefix (take (nat sent) (c # content) @ rest) (take (nat sent) (c # content) @ drop (nat sent) (c # content))"
      by (simp only: same_prefix_prefix)
    then show ?thesis unfolding rest(2) append_take_drop_id .
  qed (use 4(2) in simp)
qed simp_all

text \<open>Every write returns, and every write takes something.\<close>

definition writes_return :: "copy_env \<Rightarrow> bool" where
  "writes_return env \<longleftrightarrow> None \<notin> set (env_writes env)"

definition writes_succeed :: "copy_env \<Rightarrow> bool" where
  "writes_succeed env \<longleftrightarrow> (\<forall>s. Some s \<in> set (env_writes env) \<longrightarrow> 0 < s)"

lemma write_all_returns: "None \<notin> set ws \<Longrightarrow> write_all ws content \<noteq> None"
  by (induction ws content rule: write_all.induct) auto

lemma write_all_complete:
  "\<forall>s. Some s \<in> set ws \<longrightarrow> 0 < s \<Longrightarrow> write_all ws content = Some written \<Longrightarrow> written = content"
proof (induction ws content arbitrary: written rule: write_all.induct)
  case (4 sent ws c content)
  from 4(2,3) have pos: "\<not> sent \<le> 0" by (auto simp: not_le)
  with 4(3) obtain rest where "write_all ws (drop (nat sent) (c # content)) = Some rest"
    "written = take (nat sent) (c # content) @ rest" by auto
  with 4(1) [OF pos] 4(2) show ?case by (metis append_take_drop_id list.set_intros(2))
qed simp_all

section \<open>The wait ends\<close>

text \<open>The clock advances at least by the sleep between two checks.\<close>

definition clock_runs :: "copy_env \<Rightarrow> bool" where
  "clock_runs env \<longleftrightarrow> (\<forall>i. env_start env + kPollInterval * int i \<le> env_clock env i)"

lemma wait_child_returns:
  assumes "\<And>i. start + kPollInterval * int i \<le> clock i"
  shows "\<exists>r. wait_child process clock (start + timeout) i = Some r"
proof (induction "nat (timeout - kPollInterval * int i)" arbitrary: i rule: less_induct)
  case less
  show ?case
  proof (cases "clock i \<ge> start + timeout")
    case True
    then show ?thesis by (subst wait_child.simps) (cases "process i"; simp)
  next
    case False
    with assms [of i] have "kPollInterval * int i < timeout" by simp
    then have "nat (timeout - kPollInterval * int (Suc i)) < nat (timeout - kPollInterval * int i)"
      by (simp add: kPollInterval_def)
    from less [OF this] False show ?thesis by (subst wait_child.simps) (cases "process i"; simp)
  qed
qed

text \<open>
  Where it stops, and with which result: at the first check that finds the child exited or the deadline passed. In both cases
  the child is reaped.
\<close>

lemma wait_child_value:
  assumes "wait_child process clock deadline i = Some r"
  shows "(\<forall>j. process j = Alive \<or> (\<exists>s. process j = Zombie s)) \<Longrightarrow> snd r = Reaped \<and>
     (\<exists>j \<ge> i. (\<forall>k. i \<le> k \<and> k < j \<longrightarrow> process k = Alive \<and> clock k < deadline) \<and>
        (case fst r of Some s \<Rightarrow> process j = Zombie s | None \<Rightarrow> process j = Alive \<and> deadline \<le> clock j))"
  using assms
proof (induction rule: wait_child.raw_induct [rotated 1, consumes 1])
  case (1 wc process clock deadline i r)
  show ?case
  proof (cases "process i = Alive \<and> clock i < deadline")
    case True
    with 1(2) have "wc process clock deadline (Suc i) = Some r" by simp
    from 1(1) [OF this 1(3)] obtain j where j: "snd r = Reaped" "Suc i \<le> j"
      "\<forall>k. Suc i \<le> k \<and> k < j \<longrightarrow> process k = Alive \<and> clock k < deadline"
      "case fst r of Some s \<Rightarrow> process j = Zombie s | None \<Rightarrow> process j = Alive \<and> deadline \<le> clock j" by blast
    have "process k = Alive \<and> clock k < deadline" if "i \<le> k" "k < j" for k
      using that True j(3) by (cases "k = i") simp_all
    with j show ?thesis by (intro conjI exI [of _ j]) simp_all
  next
    case False
    from spec [OF 1(3), of i] consider "process i = Alive" | s where "process i = Zombie s" by blast
    then show ?thesis using 1(2) False by cases (auto intro!: exI [of _ i])
  qed
qed

lemma child_at_states: "\<forall>j. child_at env c j = Alive \<or> (\<exists>s. child_at env c j = Zombie s)"
  by (simp add: child_at_def split: option.splits)

lemma copy_hangs_iff:
  assumes "clock_runs env"
  shows "copy env content a = None \<longleftrightarrow>
     env_pipe_error env = None \<and> env_fork_error env = None \<and> write_all (env_writes env) content = None"
proof -
  have "wait_child process (env_clock env) (env_start env + wl_timeout a) 0 \<noteq> None" for process
    using wait_child_returns [of "env_start env" "env_clock env"] assms unfolding clock_runs_def by blast
  then show ?thesis by (simp add: copy_def Let_def split: option.split prod.split)
qed

lemma copy_answers: "clock_runs env \<Longrightarrow> writes_return env \<Longrightarrow> copy env content a \<noteq> None"
  using write_all_returns by (simp add: copy_hangs_iff writes_return_def)

lemma pipe_closed:
  assumes "fd_pipe t = (r, w, t')"
  shows "fd_at (fd_close w (fd_close r t')) n = fd_at t n"
  using fd_pipe_result [OF assms] by simp

text \<open>Once the command runs, its outcome is decided by the first check that ends the loop.\<close>

lemma copy_started:
  assumes "env_pipe_error env = None" and "env_fork_error env = None" and "copy env content a = Some r"
  shows "write_all (env_writes env) content = Some (cr_written r)" and "cr_process r = Reaped"
    and "\<forall>n. fd_at (cr_descriptors r) n = fd_at (env_descriptors env) n"
    and "\<exists>c j. cr_child r = Some c \<and> (if env_exec env then \<exists>t. c = ChildRunning t else c = ChildExited 127) \<and>
       (\<forall>k < j. child_at env c k = Alive \<and> env_clock env k < env_start env + wl_timeout a) \<and>
       (child_at env c j = Alive \<and> env_start env + wl_timeout a \<le> env_clock env j \<and>
          cr_error r = Some (ClipboardError (wl_command a @ '' timed out'')) \<or>
        child_at env c j = Zombie (child_status env c) \<and> cr_error r = status_error a (child_status env c))"
proof -
  obtain re we t where p: "fd_pipe (env_descriptors env) = (re, we, t)" by (cases "fd_pipe (env_descriptors env)")
  define c where "c = child_process env re we t"
  let ?wait = "wait_child (child_at env c) (env_clock env) (env_start env + wl_timeout a) 0"
  from assms p obtain written result process where
    w: "write_all (env_writes env) content = Some written" "?wait = Some (result, process)"
    and r: "cr_error r = (case result of None \<Rightarrow> Some (ClipboardError (wl_command a @ '' timed out'')) | Some s \<Rightarrow> status_error a s)"
      "cr_written r = written" "cr_process r = process" "cr_descriptors r = fd_close we (fd_close re t)" "cr_child r = Some c"
    by (auto simp: copy_def Let_def c_def split: option.splits)
  from wait_child_value [OF w(2) child_at_states] obtain j where v: "process = Reaped"
    "\<forall>k < j. child_at env c k = Alive \<and> env_clock env k < env_start env + wl_timeout a"
    "case result of Some s \<Rightarrow> child_at env c j = Zombie s
       | None \<Rightarrow> child_at env c j = Alive \<and> env_start env + wl_timeout a \<le> env_clock env j" by auto
  show "write_all (env_writes env) content = Some (cr_written r)" "cr_process r = Reaped" using w(1) r(2,3) v(1) by simp_all
  show "\<forall>n. fd_at (cr_descriptors r) n = fd_at (env_descriptors env) n" using r(4) pipe_closed [OF p] by simp
  have "if env_exec env then \<exists>t. c = ChildRunning t else c = ChildExited 127" by (simp add: c_def child_process_def Let_def)
  moreover have "child_at env c j = Zombie s \<Longrightarrow> s = child_status env c" for s
    by (auto simp: child_at_def split: option.splits if_splits)
  ultimately show "\<exists>c j. cr_child r = Some c \<and> (if env_exec env then \<exists>t. c = ChildRunning t else c = ChildExited 127) \<and>
       (\<forall>k < j. child_at env c k = Alive \<and> env_clock env k < env_start env + wl_timeout a) \<and>
       (child_at env c j = Alive \<and> env_start env + wl_timeout a \<le> env_clock env j \<and>
          cr_error r = Some (ClipboardError (wl_command a @ '' timed out'')) \<or>
        child_at env c j = Zombie (child_status env c) \<and> cr_error r = status_error a (child_status env c))"
    using v(2,3) r(1,5) by (intro exI [of _ c] exI [of _ j]) (auto split: option.splits)
qed

text \<open>The command exits before the deadline is seen to have passed.\<close>

definition exits_in_time :: "copy_env \<Rightarrow> wl_clipboard_adapter \<Rightarrow> bool" where
  "exits_in_time env a \<longleftrightarrow>
     (\<exists>k. env_exit_at env = Some k \<and> (\<forall>i < k. env_clock env i < env_start env + wl_timeout a))"

lemma copy_outcome:
  assumes "env_pipe_error env = None" and "env_fork_error env = None" and "copy env content a = Some r"
  shows "cr_error r =
     (if \<not> exits_in_time env a then Some (ClipboardError (wl_command a @ '' timed out''))
      else status_error a (if env_exec env then env_status env else ExitStatus 127))"
proof -
  from copy_started(4) [OF assms] obtain c j where
    c: "if env_exec env then \<exists>t. c = ChildRunning t else c = ChildExited 127"
    and early: "\<forall>k < j. child_at env c k = Alive \<and> env_clock env k < env_start env + wl_timeout a"
    and ends: "child_at env c j = Alive \<and> env_start env + wl_timeout a \<le> env_clock env j \<and>
          cr_error r = Some (ClipboardError (wl_command a @ '' timed out'')) \<or>
        child_at env c j = Zombie (child_status env c) \<and> cr_error r = status_error a (child_status env c)" by blast
  have status: "child_status env c = (if env_exec env then env_status env else ExitStatus 127)"
    using c by (auto simp: child_status_def)
  from ends show ?thesis
  proof
    assume late: "child_at env c j = Alive \<and> env_start env + wl_timeout a \<le> env_clock env j \<and>
      cr_error r = Some (ClipboardError (wl_command a @ '' timed out''))"
    then have "j < k" if "env_exit_at env = Some k" for k using that by (simp add: child_at_def split: if_splits)
    with late have "\<not> exits_in_time env a" unfolding exits_in_time_def by (meson not_less)
    with late show ?thesis by simp
  next
    assume collected: "child_at env c j = Zombie (child_status env c) \<and> cr_error r = status_error a (child_status env c)"
    then obtain k where k: "env_exit_at env = Some k" "k \<le> j"
      by (auto simp: child_at_def split: option.splits if_splits)
    with early have "exits_in_time env a" unfolding exits_in_time_def by (metis order_less_le_trans)
    with collected status show ?thesis by simp
  qed
qed

text \<open>
  C36: When copying to the clipboard returns, and what it leaves. Provided the clock advances while the process
  sleeps, \<^verbatim>\<open>copy\<close> returns unless a \<^verbatim>\<open>write\<close> to the child's pipe never does: the write blocks and comes before the deadline is
  set, so a command that neither reads nor exits holds it up for good, and nothing else can. When it returns, the
  process has the descriptors it had before and no zombie: the child, if there was one, was reaped, on the path of
  the timeout too. It reports success exactly when the pipe and the child could be created, the command could be run
  and exited with status 0 before the deadline was seen to have passed. A command that is late is reported as timed
  out, one that cannot be run as not found; and the child was given a prefix of the text, all of it unless a
  write failed.
\<close>

theorem copy_returns:
  assumes "clock_runs env"
  shows "(copy env content a = None \<longleftrightarrow>
       env_pipe_error env = None \<and> env_fork_error env = None \<and> write_all (env_writes env) content = None) \<and>
     (writes_return env \<longrightarrow> copy env content a \<noteq> None) \<and>
     (\<forall>r. copy env content a = Some r \<longrightarrow>
        (let started = (env_pipe_error env = None \<and> env_fork_error env = None)
         in cr_process r = (if started then Reaped else NoChild) \<and>
            (\<forall>n. fd_at (cr_descriptors r) n = fd_at (env_descriptors env) n) \<and>
            prefix (cr_written r) content \<and> (started \<and> writes_succeed env \<longrightarrow> cr_written r = content) \<and>
            (cr_error r = None \<longleftrightarrow> started \<and> exits_in_time env a \<and> env_exec env \<and> env_status env = ExitStatus 0) \<and>
            (started \<and> \<not> exits_in_time env a \<longrightarrow> cr_error r = Some (ClipboardError (wl_command a @ '' timed out''))) \<and>
            (started \<and> exits_in_time env a \<and> \<not> env_exec env \<longrightarrow>
               cr_error r = Some (ClipboardError (wl_command a @ '' not found'')))))"
proof (intro conjI allI impI)
  show "copy env content a = None \<longleftrightarrow>
       env_pipe_error env = None \<and> env_fork_error env = None \<and> write_all (env_writes env) content = None"
    by (rule copy_hangs_iff [OF assms])
  show "copy env content a \<noteq> None" if "writes_return env" using copy_answers [OF assms that] .
  fix r
  assume r: "copy env content a = Some r"
  show "let started = (env_pipe_error env = None \<and> env_fork_error env = None)
         in cr_process r = (if started then Reaped else NoChild) \<and>
            (\<forall>n. fd_at (cr_descriptors r) n = fd_at (env_descriptors env) n) \<and>
            prefix (cr_written r) content \<and> (started \<and> writes_succeed env \<longrightarrow> cr_written r = content) \<and>
            (cr_error r = None \<longleftrightarrow> started \<and> exits_in_time env a \<and> env_exec env \<and> env_status env = ExitStatus 0) \<and>
            (started \<and> \<not> exits_in_time env a \<longrightarrow> cr_error r = Some (ClipboardError (wl_command a @ '' timed out''))) \<and>
            (started \<and> exits_in_time env a \<and> \<not> env_exec env \<longrightarrow>
               cr_error r = Some (ClipboardError (wl_command a @ '' not found'')))"
  proof (cases "env_pipe_error env = None \<and> env_fork_error env = None")
    case True
    then have started: "env_pipe_error env = None" "env_fork_error env = None" by simp_all
    note s = copy_started(1-3) [OF started r] copy_outcome [OF started r]
    have "writes_succeed env \<Longrightarrow> cr_written r = content" using write_all_complete [OF _ s(1)] by (simp add: writes_succeed_def)
    moreover have "status_error a t = None \<longleftrightarrow> t = ExitStatus 0" for t
      by (simp add: status_error_def split: wait_status.split)
    ultimately show ?thesis using True s write_all_prefix [OF s(1)] by (simp add: status_error_def)
  next
    case False
    obtain re we t where p: "fd_pipe (env_descriptors env) = (re, we, t)" by (cases "fd_pipe (env_descriptors env)")
    show ?thesis
      using False r pipe_closed [OF p] by (auto simp: copy_def p Let_def split: option.splits)
  qed
qed

section \<open>What the command starts with\<close>

definition stdio_open :: "fd_table \<Rightarrow> bool" where
  "stdio_open t \<longleftrightarrow> fd_at t 0 \<noteq> None \<and> fd_at t 1 \<noteq> None \<and> fd_at t 2 \<noteq> None"

lemma stdio_lowest: "stdio_open t \<Longrightarrow> fd_at t n = None \<Longrightarrow> 2 < n"
  unfolding stdio_open_def by (metis One_nat_def Suc_1 less_2_cases not_less_iff_gr_or_eq)

lemma silence_stdio_result:
  assumes "stdio_open t"
  shows "fd_at (silence_stdio True t) n =
     (if n = 1 \<or> n = 2 then Some \<lparr>fd_file = DevNull, fd_cloexec = False\<rparr> else fd_at t n)"
proof -
  obtain d t1 where o: "fd_open DevNull False t = (d, t1)" by (cases "fd_open DevNull False t")
  note r = fd_open_result [OF o]
  have "2 < d" using assms r(2) by (rule stdio_lowest)
  then show ?thesis using r(2,3) by (auto simp: silence_stdio_def o)
qed

text \<open>The descriptors of the command, when the daemon has its standard streams open.\<close>

lemma child_descriptors:
  assumes "stdio_open t0" and p: "fd_pipe t0 = (r, w, t)" and "env_exec env" and "env_dev_null env"
  obtains c where "child_process env r w t = ChildRunning c"
    and "\<And>n. fd_at c n =
       (if n = 0 then Some \<lparr>fd_file = PipeRead, fd_cloexec = False\<rparr>
        else if n = 1 \<or> n = 2 then Some \<lparr>fd_file = DevNull, fd_cloexec = False\<rparr>
        else (case fd_at t0 n of None \<Rightarrow> None | Some d \<Rightarrow> if fd_cloexec d then None else Some d))"
proof -
  note pr = fd_pipe_result [OF p]
  have free: "2 < r" "2 < w" using stdio_lowest [OF assms(1)] pr(2,3) by blast+
  define t3 where "t3 = fd_close w (fd_close r (fd_dup2 r 0 t))"
  have at3: "fd_at t3 n = (if n = 0 then Some \<lparr>fd_file = PipeRead, fd_cloexec = False\<rparr> else fd_at t0 n)" for n
    using free pr(2-5) by (simp add: t3_def)
  have "stdio_open t3" using assms(1) unfolding stdio_open_def at3 by simp
  note silenced = silence_stdio_result [OF this]
  show thesis
  proof (rule that)
    show "child_process env r w t = ChildRunning (fd_exec (silence_stdio True t3))"
      using assms(3,4) by (simp add: child_process_def t3_def)
  qed (simp add: silenced at3)
qed

text \<open>With its standard input closed, the daemon gives the command none either.\<close>

lemma closed_stdin_reaches_nobody:
  assumes "fd_at t0 0 = None" and p: "fd_pipe t0 = (r, w, t)" and "child_process env r w t = ChildRunning c"
  shows "fd_at c 0 = None"
proof -
  note pr = fd_pipe_result [OF p]
  have "r = 0" using pr(1) fd_lowest_le [OF assms(1)] by simp
  let ?t3 = "fd_close w (fd_close r (fd_dup2 r 0 t))"
  have none: "fd_at ?t3 0 = None" using \<open>r = 0\<close> by simp
  have "fd_at (silence_stdio opens ?t3) 0 = None" for opens
  proof (cases opens)
    case True
    obtain d t1 where o: "fd_open DevNull False ?t3 = (d, t1)" by (cases "fd_open DevNull False ?t3")
    have "d = 0" using fd_open_result(1) [OF o] fd_lowest_le [OF none] by simp
    then show ?thesis using True by (simp add: silence_stdio_def o)
  qed (use none in \<open>simp add: silence_stdio_def\<close>)
  then show ?thesis using assms(3) by (auto simp: child_process_def Let_def split: if_splits)
qed

text \<open>
  C20: The clipboard command is wired to the text. When the daemon's standard streams are open, the
  command runs with the reading end of the pipe as its standard input, with both outputs going nowhere, and
  with no other end of the pipe: so that it sees the end of the text once the daemon has closed its
  own end. Every other descriptor of the daemon that is not marked close-on-exec is handed down to
  it. When descriptor 0 is not open in the daemon, the command gets no standard input at all.
\<close>

theorem clipboard_command_descriptors:
  assumes "clock_runs env" and "writes_return env" and "env_pipe_error env = None" and "env_fork_error env = None" and "env_exec env" and "env_dev_null env"
    and "\<not> holds_file PipeRead (env_descriptors env)" and "\<not> holds_file PipeWrite (env_descriptors env)"
  shows "\<exists>r c. copy env content a = Some r \<and> cr_child r = Some (ChildRunning c) \<and>
     (stdio_open (env_descriptors env) \<longrightarrow>
        map_option fd_file (fd_at c 0) = Some PipeRead \<and>
        map_option fd_file (fd_at c 1) = Some DevNull \<and> map_option fd_file (fd_at c 2) = Some DevNull \<and>
        \<not> holds_file PipeWrite c \<and> (\<forall>n > 0. map_option fd_file (fd_at c n) \<noteq> Some PipeRead) \<and>
        (\<forall>n d. 2 < n \<longrightarrow> (fd_at c n = Some d \<longleftrightarrow> fd_at (env_descriptors env) n = Some d \<and> \<not> fd_cloexec d))) \<and>
     (fd_at (env_descriptors env) 0 = None \<longrightarrow> fd_at c 0 = None)"
proof -
  let ?t0 = "env_descriptors env"
  obtain r w t where p: "fd_pipe ?t0 = (r, w, t)" by (cases "fd_pipe ?t0")
  obtain c where c: "child_process env r w t = ChildRunning c" using assms(5) by (simp add: child_process_def Let_def)
  obtain res where res: "copy env content a = Some res" using copy_answers [OF assms(1,2)] by blast
  then have "cr_child res = Some (ChildRunning c)"
    using assms(3,4) c p by (auto simp: copy_def Let_def split: option.splits)
  moreover have "fd_at c 0 = None" if "fd_at ?t0 0 = None" by (rule closed_stdin_reaches_nobody [OF that p c])
  moreover have wired: "fd_at c n =
       (if n = 0 then Some \<lparr>fd_file = PipeRead, fd_cloexec = False\<rparr>
        else if n = 1 \<or> n = 2 then Some \<lparr>fd_file = DevNull, fd_cloexec = False\<rparr>
        else (case fd_at ?t0 n of None \<Rightarrow> None | Some d \<Rightarrow> if fd_cloexec d then None else Some d))"
    if "stdio_open ?t0" for n
    by (rule child_descriptors [OF that p assms(5,6)]) (simp add: c)
  ultimately show ?thesis
    using res assms(7,8) unfolding holds_file_iff
    by (intro exI [of _ res] exI [of _ c]) (auto split: option.splits if_splits)
qed

section \<open>Witnesses\<close>

definition demo_descriptors :: fd_table where
  "demo_descriptors = map (\<lambda>n. Some \<lparr>fd_file = Inherited n, fd_cloexec = False\<rparr>) [0..<3]"

definition demo_copy_env :: copy_env where
  "demo_copy_env = \<lparr>env_descriptors = demo_descriptors, env_pipe_error = None, env_fork_error = None, env_dev_null = True,
     env_exec = True, env_writes = [Some 2], env_exit_at = Some 0,
     env_status = ExitStatus 0, env_start = 0, env_clock = (\<lambda>i. 10 * int i)\<rparr>"

lemma demo_no_third: "fd_at demo_descriptors 3 = None"
  by (simp add: demo_descriptors_def fd_at_def)

lemma demo_clock_runs: "clock_runs demo_copy_env"
  by (simp add: clock_runs_def demo_copy_env_def kPollInterval_def)

lemma demo_writes_return: "writes_return demo_copy_env"
  by (simp add: writes_return_def demo_copy_env_def)

lemma demo_copy_result:
  "\<exists>r. copy (demo_copy_env\<lparr>env_status := ExitStatus code\<rparr>) content a = Some r \<and> cr_error r = status_error a (ExitStatus code)"
proof -
  let ?env = "demo_copy_env\<lparr>env_status := ExitStatus code\<rparr>"
  have "clock_runs ?env" "writes_return ?env"
    using demo_clock_runs demo_writes_return by (simp_all add: clock_runs_def writes_return_def)
  then obtain r where r: "copy ?env content a = Some r" using copy_answers by blast
  have "exits_in_time ?env a" by (simp add: exits_in_time_def demo_copy_env_def)
  with copy_outcome [OF _ _ r] r show ?thesis by (simp add: demo_copy_env_def)
qed

text \<open>A copy that succeeds, one whose command is killed at the deadline, and one whose command never reads.\<close>

theorem copy_returns_witness:
  "(\<exists>r. copy demo_copy_env ''bom dia'' default_adapter = Some r \<and> cr_error r = None \<and> cr_written r = ''bom dia'' \<and>
     fd_at (cr_descriptors r) 3 = None) \<and>
   (\<exists>r. copy (demo_copy_env\<lparr>env_exit_at := None\<rparr>) ''bom dia'' default_adapter = Some r \<and>
     cr_error r = Some (ClipboardError ''wl-copy timed out'') \<and> cr_process r = Reaped) \<and>
   copy (demo_copy_env\<lparr>env_writes := [Some 2, None]\<rparr>) ''bom dia'' default_adapter = None"
proof (intro conjI)
  have "writes_succeed demo_copy_env" "exits_in_time demo_copy_env default_adapter"
    by (simp_all add: writes_succeed_def exits_in_time_def demo_copy_env_def)
  then show "\<exists>r. copy demo_copy_env ''bom dia'' default_adapter = Some r \<and> cr_error r = None \<and> cr_written r = ''bom dia'' \<and>
      fd_at (cr_descriptors r) 3 = None"
    using copy_returns [OF demo_clock_runs, of "''bom dia''" default_adapter] demo_writes_return
    by (auto simp: demo_copy_env_def demo_no_third Let_def)
  let ?late = "demo_copy_env\<lparr>env_exit_at := None\<rparr>"
  have late: "clock_runs ?late" "writes_return ?late" "\<not> exits_in_time ?late default_adapter"
    using demo_clock_runs demo_writes_return by (simp_all add: clock_runs_def writes_return_def exits_in_time_def)
  show "\<exists>r. copy ?late ''bom dia'' default_adapter = Some r \<and>
      cr_error r = Some (ClipboardError ''wl-copy timed out'') \<and> cr_process r = Reaped"
    using copy_returns [OF late(1), of "''bom dia''" default_adapter] late(2,3)
    by (auto simp: demo_copy_env_def Let_def default_adapter_def)
  let ?stuck = "demo_copy_env\<lparr>env_writes := [Some 2, None]\<rparr>"
  have "clock_runs ?stuck" using demo_clock_runs by (simp add: clock_runs_def)
  from copy_returns [OF this, of "''bom dia''" default_adapter]
  show "copy ?stuck ''bom dia'' default_adapter = None" by (simp add: demo_copy_env_def)
qed

theorem clipboard_command_descriptors_witness:
  "\<exists>r c. copy demo_copy_env ''bom dia'' default_adapter = Some r \<and> cr_child r = Some (ChildRunning c) \<and>
     map_option fd_file (fd_at c 0) = Some PipeRead \<and> \<not> holds_file PipeWrite c"
proof -
  have "stdio_open demo_descriptors" by (simp add: stdio_open_def demo_descriptors_def fd_at_def upt_rec)
  moreover have "\<not> holds_file PipeRead demo_descriptors" "\<not> holds_file PipeWrite demo_descriptors"
    by (simp_all add: holds_file_def demo_descriptors_def upt_rec)
  ultimately show ?thesis
    using clipboard_command_descriptors [OF demo_clock_runs demo_writes_return, of "''bom dia''" default_adapter]
    by (auto simp: demo_copy_env_def)
qed

end
