(* ===== verification/Message_Codec.thy ===== *)
theory Message_Codec
  imports Domain_Model Session_State Configuration "HOL-Library.List_Lexorder" "HOL-Library.Char_ord"
begin

text \<open>
  The JSON Lines protocol (\<^verbatim>\<open>src/domains/ipc/message_codec.cpp\<close>): parsing requests, encoding responses
  and events. nlohmann/json is not part of the repository: its parser and printer are the fields of
  \<open>json_lib\<close>, an argument of every function that calls them. \<^verbatim>\<open>dump()\<close> throws on strings that are not
  well-formed UTF-8, so an encoder returns \<open>None\<close> when the exception escapes. A JSON object is kept
  as the library keeps it, sorted by key.
\<close>

section \<open>JSON values\<close>

datatype json =
    JNull
  | JBool bool
  | JUnsigned nat
  | JInteger int
  | JFloat rat
  | JString string
  | JArray "json list"
  | JObject "(string \<times> json) list"

record json_lib =
  json_parse :: "string \<Rightarrow> json option"
  json_dump :: "json \<Rightarrow> string option"

definition json_object :: "(string \<times> json) list \<Rightarrow> json" where
  "json_object kvs = JObject (sort_key fst kvs)"

section \<open>Names on the wire\<close>

text \<open>
  The codec has its own copies of the policy names; they agree with those of the configuration file, so
  a policy means the same in a request and on disk.
\<close>

fun wire_policy_to_string :: "model_load_policy \<Rightarrow> string" where
  "wire_policy_to_string OnDemand = ''on_demand''"
| "wire_policy_to_string AlwaysLoaded = ''always_loaded''"

definition wire_parse_model_load_policy :: "string \<Rightarrow> model_load_policy option" where
  "wire_parse_model_load_policy v =
     (if v = ''on_demand'' then Some OnDemand
      else if v = ''always_loaded'' then Some AlwaysLoaded
      else None)"

lemma wire_policies_agree [simp]:
  "wire_policy_to_string = policy_to_string" "wire_parse_model_load_policy = parse_model_load_policy"
proof -
  show "wire_policy_to_string = policy_to_string"
  proof
    show "wire_policy_to_string p = policy_to_string p" for p by (cases p) simp_all
  qed
  show "wire_parse_model_load_policy = parse_model_load_policy"
    by (simp add: fun_eq_iff wire_parse_model_load_policy_def parse_model_load_policy_def)
qed

fun size_to_string :: "model_size \<Rightarrow> string" where
  "size_to_string Tiny = ''tiny''"
| "size_to_string Base = ''base''"
| "size_to_string Small = ''small''"
| "size_to_string Medium = ''medium''"
| "size_to_string Large = ''large''"

fun state_to_string :: "service_state \<Rightarrow> string" where
  "state_to_string Idle = ''idle''"
| "state_to_string Recording = ''recording''"
| "state_to_string Processing = ''processing''"
| "state_to_string ErrorState = ''error''"

definition raw :: "session_id \<Rightarrow> json" where
  "raw sid = JUnsigned (unat sid)"

section \<open>Requests\<close>

definition parse_message :: "json_lib \<Rightarrow> string \<Rightarrow> string + string" where
  "parse_message J line =
     (let malformed = Inr ''message must be a JSON object with a string \"type\" field''
      in case json_parse J line of
           Some (JObject kvs) \<Rightarrow>
             (case map_of kvs ''type'' of
                Some (JString t) \<Rightarrow> Inl t
              | _ \<Rightarrow> malformed)
         | _ \<Rightarrow> malformed)"

definition decode_cancel_job :: "json_lib \<Rightarrow> string \<Rightarrow> session_id option" where
  "decode_cancel_job J line =
     (case json_parse J line of
        Some (JObject kvs) \<Rightarrow>
          (case map_of kvs ''session_id'' of
             Some (JUnsigned n) \<Rightarrow> Some (of_nat n)
           | _ \<Rightarrow> None)
      | _ \<Rightarrow> None)"

text \<open>A string field of a request: absent, present with the right type, or an error.\<close>

definition set_config_field ::
  "(string \<times> json) list \<Rightarrow> string \<Rightarrow> string \<Rightarrow> (json \<Rightarrow> 'v option) \<Rightarrow>
   ('v \<Rightarrow> configuration \<Rightarrow> configuration + string) \<Rightarrow> configuration + string \<Rightarrow> configuration + string" where
  "set_config_field kvs key expected get accept acc =
     (case acc of
        Inr e \<Rightarrow> Inr e
      | Inl c \<Rightarrow>
          (case map_of kvs key of
             None \<Rightarrow> Inl c
           | Some j \<Rightarrow>
               (case get j of
                  None \<Rightarrow> Inr (key @ expected)
                | Some v \<Rightarrow> accept v c)))"

fun json_string :: "json \<Rightarrow> string option" where
  "json_string (JString s) = Some s"
| "json_string _ = None"

fun json_bool :: "json \<Rightarrow> bool option" where
  "json_bool (JBool b) = Some b"
| "json_bool _ = None"

definition accept_wire_policy :: "string \<Rightarrow> configuration \<Rightarrow> configuration + string" where
  "accept_wire_policy v c =
     (case wire_parse_model_load_policy v of
        Some p \<Rightarrow> Inl (c\<lparr>model_load_policy_of := p\<rparr>)
      | None \<Rightarrow> Inr ''model_load_policy must be \"on_demand\" or \"always_loaded\"'')"

definition decode_set_config :: "json_lib \<Rightarrow> string \<Rightarrow> configuration \<Rightarrow> configuration \<times> string option" where
  "decode_set_config J line base =
     (case json_parse J line of
        Some (JObject kvs) \<Rightarrow>
          (let r1 = set_config_field kvs ''default_language'' '' must be a string'' json_string
                      (\<lambda>v c. Inl (c\<lparr>default_language := v\<rparr>)) (Inl base);
               r2 = set_config_field kvs ''selected_model'' '' must be a string'' json_string
                      (\<lambda>v c. Inl (c\<lparr>selected_model := v\<rparr>)) r1;
               r3 = set_config_field kvs ''auto_clipboard'' '' must be a boolean'' json_bool
                      (\<lambda>v c. Inl (c\<lparr>auto_clipboard := v\<rparr>)) r2;
               r4 = set_config_field kvs ''model_load_policy'' '' must be a string'' json_string accept_wire_policy r3;
               r5 = set_config_field kvs ''transcription_prompt'' '' must be a string'' json_string
                      (\<lambda>v c. Inl (c\<lparr>transcription_prompt := v\<rparr>)) r4
           in case r5 of Inl c \<Rightarrow> (c, None) | Inr e \<Rightarrow> (base, Some e))
      | _ \<Rightarrow> (base, Some ''message must be a JSON object''))"

section \<open>Responses\<close>

definition response :: "string \<Rightarrow> bool \<Rightarrow> (string \<times> json) list \<Rightarrow> json" where
  "response type ok fs = json_object ([(''type'', JString type), (''ok'', JBool ok)] @ fs)"

definition encode_ack :: "json_lib \<Rightarrow> string \<Rightarrow> string option" where
  "encode_ack J type = json_dump J (response type True [])"

definition encode_error :: "json_lib \<Rightarrow> string \<Rightarrow> string \<Rightarrow> string option" where
  "encode_error J type error = json_dump J (response type False [(''error'', JString error)])"

definition encode_queued :: "json_lib \<Rightarrow> string \<Rightarrow> queued_job \<Rightarrow> string option" where
  "encode_queued J type job =
     json_dump J (response type True [(''session_id'', raw (qj_session_id job)), (''position'', JUnsigned (qj_position job))])"

definition optional_id :: "string \<Rightarrow> session_id option \<Rightarrow> (string \<times> json) list" where
  "optional_id key sid = (case sid of None \<Rightarrow> [] | Some i \<Rightarrow> [(key, raw i)])"

definition encode_state :: "json_lib \<Rightarrow> string \<Rightarrow> session_status \<Rightarrow> string option" where
  "encode_state J type st =
     json_dump J (response type True
       ([(''state'', JString (state_to_string (st_state st))), (''queued'', JUnsigned (st_queued st)),
         (''processing'', JBool (st_processing st))] @
        optional_id ''last_completed'' (st_last_completed st) @ optional_id ''last_failed'' (st_last_failed st)))"

definition configuration_fields :: "configuration \<Rightarrow> (string \<times> json) list" where
  "configuration_fields c =
     [(''default_language'', JString (default_language c)),
      (''selected_model'', JString (selected_model c)),
      (''auto_clipboard'', JBool (auto_clipboard c)),
      (''model_load_policy'', JString (wire_policy_to_string (model_load_policy_of c))),
      (''transcription_prompt'', JString (transcription_prompt c))]"

definition encode_config :: "json_lib \<Rightarrow> string \<Rightarrow> configuration \<Rightarrow> string option" where
  "encode_config J type c = json_dump J (response type True (configuration_fields c))"

definition model_fields :: "model \<Rightarrow> (string \<times> json) list" where
  "model_fields m =
     [(''name'', JString (model_name m)), (''size'', JString (size_to_string (model_size_of m))),
      (''supported_language'', JString (supported_language m)), (''path'', JString (model_path m)),
      (''backend'', JString (model_backend m))]"

definition encode_models :: "json_lib \<Rightarrow> string \<Rightarrow> model list \<Rightarrow> string option" where
  "encode_models J type ms =
     json_dump J (response type True [(''models'', JArray (map (\<lambda>m. json_object (model_fields m)) ms))])"

section \<open>Events\<close>

fun event_name :: "event \<Rightarrow> string" where
  "event_name (RecordingStarted _) = ''recording_started''"
| "event_name (RecordingFinished _ _) = ''recording_finished''"
| "event_name (TranscriptionQueued _ _) = ''transcription_queued''"
| "event_name (TranscriptionStarted _) = ''transcription_started''"
| "event_name (TranscriptionCompleted _ _) = ''transcription_completed''"
| "event_name (TranscriptionPartial _ _ _) = ''transcription_partial''"
| "event_name (ModelLoaded _) = ''model_loaded''"
| "event_name (ConfigurationChanged _) = ''configuration_changed''"
| "event_name (ErrorOccurred _ _ _) = ''error_occurred''"
| "event_name (SessionCancelled _) = ''session_cancelled''"

fun event_fields :: "event \<Rightarrow> (string \<times> json) list" where
  "event_fields (RecordingStarted sid) = [(''session_id'', raw sid)]"
| "event_fields (RecordingFinished sid r) =
     [(''session_id'', raw sid), (''duration_ms'', JInteger (duration r)),
      (''sample_rate'', JUnsigned (unat (rec_sample_rate r))), (''channels'', JUnsigned (unat (rec_channels r)))]"
| "event_fields (TranscriptionQueued sid position) = [(''session_id'', raw sid), (''position'', JUnsigned position)]"
| "event_fields (TranscriptionStarted sid) = [(''session_id'', raw sid)]"
| "event_fields (TranscriptionCompleted sid t) =
     [(''session_id'', raw sid), (''text'', JString (transcript_text t)),
      (''detected_language'', JString (detected_language t)),
      (''requested_language'', JString (requested_language t)),
      (''audio_duration_ms'', JInteger (audio_duration t)),
      (''processing_time_ms'', JInteger (processing_time t))]"
| "event_fields (TranscriptionPartial sid committed tail) =
     [(''session_id'', raw sid), (''committed_text'', JString committed), (''tail_text'', JString tail)]"
| "event_fields (ModelLoaded m) = model_fields m"
| "event_fields (ConfigurationChanged c) = configuration_fields c"
| "event_fields (ErrorOccurred sid component message) =
     optional_id ''session_id'' sid @ [(''component'', JString component), (''message'', JString message)]"
| "event_fields (SessionCancelled sid) = [(''session_id'', raw sid)]"

definition event_json :: "event \<Rightarrow> json" where
  "event_json e = json_object ([(''type'', JString ''event''), (''event'', JString (event_name e))] @ event_fields e)"

definition encode_event :: "json_lib \<Rightarrow> event \<Rightarrow> string option" where
  "encode_event J e = json_dump J (event_json e)"

section \<open>What the protocol relies on\<close>

text \<open>
  What a reader sees of a printed value: the library reads a non-negative integer back as unsigned.
\<close>

primrec json_read :: "json \<Rightarrow> json" where
  "json_read JNull = JNull"
| "json_read (JBool b) = JBool b"
| "json_read (JUnsigned n) = JUnsigned n"
| "json_read (JInteger i) = (if 0 \<le> i then JUnsigned (nat i) else JInteger i)"
| "json_read (JFloat q) = JFloat q"
| "json_read (JString s) = JString s"
| "json_read (JArray js) = JArray (map json_read js)"
| "json_read (JObject kvs) = JObject (map (map_prod id json_read) kvs)"

text \<open>Values the library can hold exactly: 64-bit integers, no floats, object keys sorted and distinct.\<close>

fun json_exact :: "json \<Rightarrow> bool" where
  "json_exact (JUnsigned n) = (n < 2 ^ 64)"
| "json_exact (JInteger i) = (- (2 ^ 63) \<le> i \<and> i < 2 ^ 63)"
| "json_exact (JFloat q) = False"
| "json_exact (JArray js) = (\<forall>j \<in> set js. json_exact j)"
| "json_exact (JObject kvs) =
     (sorted (map fst kvs) \<and> distinct (map fst kvs) \<and> (\<forall>kv \<in> set kvs. json_exact (snd kv)))"
| "json_exact _ = True"

fun json_utf8 :: "json \<Rightarrow> bool" where
  "json_utf8 (JString s) = valid_utf8 s"
| "json_utf8 (JArray js) = (\<forall>j \<in> set js. json_utf8 j)"
| "json_utf8 (JObject kvs) = (\<forall>kv \<in> set kvs. valid_utf8 (fst kv) \<and> json_utf8 (snd kv))"
| "json_utf8 _ = True"

text \<open>
  The documented behaviour of \<^verbatim>\<open>dump()\<close> and \<^verbatim>\<open>parse()\<close>: printing succeeds exactly on well-formed UTF-8
  (and throws otherwise), compact output has no line feed, and parsing it gives the value back.
\<close>

definition json_faithful :: "json_lib \<Rightarrow> bool" where
  "json_faithful J \<longleftrightarrow>
     (\<forall>j. json_dump J j \<noteq> None \<longleftrightarrow> json_utf8 j) \<and>
     (\<forall>j line. json_dump J j = Some line \<longrightarrow> CHR 0x0A \<notin> set line) \<and>
     (\<forall>j line. json_exact j \<longrightarrow> json_dump J j = Some line \<longrightarrow> json_parse J line = Some (json_read j))"

section \<open>Objects\<close>

lemma map_of_sort_key:
  assumes "distinct (map fst kvs)"
  shows "map_of (sort_key fst kvs) = map_of kvs"
proof -
  have "distinct (map fst (sort_key fst kvs))" using assms by (simp add: distinct_map)
  then show ?thesis using assms by (subst map_of_inject_set) auto
qed

lemma map_of_read: "map_of (map (map_prod id json_read) kvs) k = map_option json_read (map_of kvs k)"
  by (induction kvs) auto

lemma exact_object:
  assumes "distinct (map fst kvs)" and "\<forall>kv \<in> set kvs. json_exact (snd kv)"
  shows "json_exact (json_object kvs)"
proof -
  have "distinct (map fst (sort_key fst kvs))" using assms(1) by (simp add: distinct_map)
  with assms(2) show ?thesis by (simp add: json_object_def)
qed

text \<open>Looking a field up in a printed object.\<close>

lemma parse_object:
  assumes "json_faithful J" and "json_dump J (json_object kvs) = Some line"
    and "distinct (map fst kvs)" and "\<forall>kv \<in> set kvs. json_exact (snd kv)"
  shows "\<exists>kvs'. json_parse J line = Some (JObject kvs') \<and> (\<forall>k. map_of kvs' k = map_option json_read (map_of kvs k))"
proof -
  have "json_parse J line = Some (json_read (json_object kvs))"
    using assms(1,2) exact_object [OF assms(3,4)] by (simp add: json_faithful_def)
  then show ?thesis
    by (simp add: json_object_def map_of_read map_of_sort_key [OF assms(3)])
qed

lemma no_newline: "json_faithful J \<Longrightarrow> json_dump J j = Some line \<Longrightarrow> CHR 0x0A \<notin> set line"
  by (simp add: json_faithful_def)

lemma raw_exact [simp]: "json_exact (raw sid)"
  using unsigned_less [of sid, where ?'a = nat] by (simp add: raw_def)

lemma read_raw [simp]: "json_read (raw sid) = raw sid"
  by (simp add: raw_def)

lemma configuration_fields_exact: "\<forall>kv \<in> set (configuration_fields c). json_exact (snd kv)"
  by (simp add: configuration_fields_def)

lemma response_parsed:
  assumes "json_faithful J" and "json_dump J (response type ok fs) = Some line"
    and "distinct (map fst fs)" and "''type'' \<notin> fst ` set fs" and "''ok'' \<notin> fst ` set fs"
    and "\<forall>kv \<in> set fs. json_exact (snd kv)"
  shows "\<exists>kvs. json_parse J line = Some (JObject kvs) \<and> map_of kvs ''type'' = Some (JString type) \<and>
           (\<forall>k. k \<noteq> ''type'' \<longrightarrow> k \<noteq> ''ok'' \<longrightarrow> map_of kvs k = map_option json_read (map_of fs k))"
proof -
  let ?fs = "[(''type'', JString type), (''ok'', JBool ok)] @ fs"
  have "distinct (map fst ?fs)" using assms(3-5) by simp
  moreover have "\<forall>kv \<in> set ?fs. json_exact (snd kv)" using assms(6) by simp
  ultimately have "\<exists>kvs. json_parse J line = Some (JObject kvs) \<and> (\<forall>k. map_of kvs k = map_option json_read (map_of ?fs k))"
    by (rule parse_object [OF assms(1) assms(2) [unfolded response_def]])
  then obtain kvs where kvs: "json_parse J line = Some (JObject kvs)"
    and at: "\<And>k. map_of kvs k = map_option json_read (map_of ?fs k)" by blast
  show ?thesis by (intro exI [of _ kvs]) (simp add: kvs at)
qed

lemma reply_type:
  assumes "json_faithful J" and "json_dump J (response type ok fs) = Some line"
    and "distinct (map fst fs)" and "''type'' \<notin> fst ` set fs" and "''ok'' \<notin> fst ` set fs"
    and "\<forall>kv \<in> set fs. json_exact (snd kv)"
  shows "parse_message J line = Inl type \<and> CHR 0x0A \<notin> set line"
proof -
  obtain kvs where "json_parse J line = Some (JObject kvs)" "map_of kvs ''type'' = Some (JString type)"
    using response_parsed [OF assms] by blast
  then have "parse_message J line = Inl type" by (simp add: parse_message_def)
  with no_newline [OF assms(1,2)] show ?thesis by simp
qed

lemma ack_type:
  assumes "json_faithful J" and "encode_ack J type = Some line"
  shows "parse_message J line = Inl type \<and> CHR 0x0A \<notin> set line"
  using reply_type [OF assms(1), of type True "[]" line] assms(2) by (simp add: encode_ack_def)

lemma error_type:
  assumes "json_faithful J" and "encode_error J type msg = Some line"
  shows "parse_message J line = Inl type \<and> CHR 0x0A \<notin> set line"
  using reply_type [OF assms(1), of type False "[(''error'', JString msg)]" line] assms(2) by (simp add: encode_error_def)

lemma config_type:
  assumes "json_faithful J" and "encode_config J type c = Some line"
  shows "parse_message J line = Inl type \<and> CHR 0x0A \<notin> set line"
  using reply_type [OF assms(1), of type True "configuration_fields c" line] assms(2)
  by (simp add: encode_config_def configuration_fields_def)

lemma queued_type:
  assumes "json_faithful J" and "encode_queued J type job = Some line" and "qj_position job < 2 ^ 64"
  shows "parse_message J line = Inl type \<and> CHR 0x0A \<notin> set line"
  using reply_type [OF assms(1), of type True "[(''session_id'', raw (qj_session_id job)), (''position'', JUnsigned (qj_position job))]" line]
    assms(2,3) by (simp add: encode_queued_def)

lemma state_type:
  assumes "json_faithful J" and "encode_state J type st = Some line" and "st_queued st < 2 ^ 64"
  shows "parse_message J line = Inl type \<and> CHR 0x0A \<notin> set line"
  using reply_type [OF assms(1), of type True "[(''state'', JString (state_to_string (st_state st))), (''queued'', JUnsigned (st_queued st)),
       (''processing'', JBool (st_processing st))] @
      optional_id ''last_completed'' (st_last_completed st) @ optional_id ''last_failed'' (st_last_failed st)" line] assms(2,3)
  by (cases "st_last_completed st"; cases "st_last_failed st") (simp_all add: encode_state_def optional_id_def)

lemma models_type:
  assumes "json_faithful J" and "encode_models J type ms = Some line"
  shows "parse_message J line = Inl type \<and> CHR 0x0A \<notin> set line"
proof -
  have "json_exact (json_object (model_fields m))" for m by (rule exact_object) (simp_all add: model_fields_def)
  then have "json_exact (JArray (map (\<lambda>m. json_object (model_fields m)) ms))" by auto
  then show ?thesis
    using reply_type [OF assms(1), of type True "[(''models'', JArray (map (\<lambda>m. json_object (model_fields m)) ms))]" line] assms(2)
    by (simp add: encode_models_def)
qed

text \<open>The numbers of an event fit 64 bits.\<close>

definition event_exact :: "event \<Rightarrow> bool" where
  "event_exact e \<longleftrightarrow> (\<forall>kv \<in> set (event_fields e). json_exact (snd kv))"

lemma event_parsed:
  assumes "json_faithful J" and "event_exact e" and "encode_event J e = Some line"
  shows "\<exists>kvs. json_parse J line = Some (JObject kvs) \<and> map_of kvs ''type'' = Some (JString ''event'') \<and>
     map_of kvs ''event'' = Some (JString (event_name e)) \<and>
     (\<forall>k. k \<noteq> ''type'' \<longrightarrow> k \<noteq> ''event'' \<longrightarrow> map_of kvs k = map_option json_read (map_of (event_fields e) k))"
proof -
  let ?fs = "[(''type'', JString ''event''), (''event'', JString (event_name e))] @ event_fields e"
  have "distinct (map fst ?fs)"
    by (cases e) (simp_all add: model_fields_def configuration_fields_def optional_id_def split: option.splits)
  moreover have "\<forall>kv \<in> set ?fs. json_exact (snd kv)" using assms(2) by (simp add: event_exact_def)
  ultimately have "\<exists>kvs. json_parse J line = Some (JObject kvs) \<and> (\<forall>k. map_of kvs k = map_option json_read (map_of ?fs k))"
    by (rule parse_object [OF assms(1) assms(3) [unfolded encode_event_def event_json_def]])
  then obtain kvs where "json_parse J line = Some (JObject kvs)" "\<And>k. map_of kvs k = map_option json_read (map_of ?fs k)"
    by blast
  then show ?thesis by (intro exI [of _ kvs]) simp
qed

lemma event_type:
  assumes "json_faithful J" and "event_exact e" and "encode_event J e = Some line"
  shows "parse_message J line = Inl ''event'' \<and> CHR 0x0A \<notin> set line \<and>
     (\<exists>kvs. json_parse J line = Some (JObject kvs) \<and> map_of kvs ''event'' = Some (JString (event_name e)) \<and>
        map_of kvs ''session_id'' = map_option json_read (map_of (event_fields e) ''session_id''))"
proof -
  obtain kvs where kvs: "json_parse J line = Some (JObject kvs)" "map_of kvs ''type'' = Some (JString ''event'')"
    "map_of kvs ''event'' = Some (JString (event_name e))"
    "map_of kvs ''session_id'' = map_option json_read (map_of (event_fields e) ''session_id'')"
    using event_parsed [OF assms] that by (elim exE conjE) (drule spec [of _ "''session_id''"], simp)
  from kvs(1,2) have "parse_message J line = Inl ''event''" by (simp add: parse_message_def)
  with kvs no_newline [OF assms(1) assms(3) [unfolded encode_event_def]] show ?thesis by blast
qed

text \<open>
  Every line the service sends is one line, and a client can tell what it is. The answer to a
  command carries the command's type; a pushed event carries the type "event" (which is no command)
  and the event's name and session. Nothing it sends contains a line feed.
\<close>

theorem replies_name_their_request:
  assumes "json_faithful J"
  shows "(encode_ack J type = Some line \<longrightarrow> parse_message J line = Inl type \<and> CHR 0x0A \<notin> set line) \<and>
     (encode_error J type msg = Some line \<longrightarrow> parse_message J line = Inl type \<and> CHR 0x0A \<notin> set line) \<and>
     (encode_config J type c = Some line \<longrightarrow> parse_message J line = Inl type \<and> CHR 0x0A \<notin> set line) \<and>
     (qj_position job < 2 ^ 64 \<longrightarrow> encode_queued J type job = Some line \<longrightarrow>
        parse_message J line = Inl type \<and> CHR 0x0A \<notin> set line) \<and>
     (st_queued st < 2 ^ 64 \<longrightarrow> encode_state J type st = Some line \<longrightarrow>
        parse_message J line = Inl type \<and> CHR 0x0A \<notin> set line) \<and>
     (encode_models J type ms = Some line \<longrightarrow> parse_message J line = Inl type \<and> CHR 0x0A \<notin> set line) \<and>
     (event_exact e \<longrightarrow> encode_event J e = Some line \<longrightarrow>
        parse_message J line = Inl ''event'' \<and> CHR 0x0A \<notin> set line \<and>
        (\<exists>kvs. json_parse J line = Some (JObject kvs) \<and> map_of kvs ''event'' = Some (JString (event_name e)) \<and>
           map_of kvs ''session_id'' = map_option json_read (map_of (event_fields e) ''session_id'')))"
  using ack_type [OF assms, of type line] error_type [OF assms, of type msg line] config_type [OF assms, of type c line]
    queued_type [OF assms, of type job line] state_type [OF assms, of type st line] models_type [OF assms, of type ms line]
    event_type [OF assms, of e line]
  by blast

text \<open>
  C37: A client can send back what it was told. The configuration in a reply, submitted as a
  set_config request, is decoded to exactly that configuration whatever the current one is; and the
  session id in the reply to stop_recording, submitted as a cancel_job request, is decoded to exactly
  that session.
\<close>

theorem replies_can_be_sent_back:
  assumes "json_faithful J"
  shows "(encode_config J type c = Some line \<longrightarrow> decode_set_config J line base = (c, None)) \<and>
     (qj_position job < 2 ^ 64 \<longrightarrow> encode_queued J type job = Some line \<longrightarrow>
        decode_cancel_job J line = Some (qj_session_id job))"
proof (intro conjI impI)
  assume "encode_config J type c = Some line"
  with response_parsed [OF assms, of type True "configuration_fields c" line] configuration_fields_exact
  obtain kvs where kvs: "json_parse J line = Some (JObject kvs)"
    "\<forall>k. k \<noteq> ''type'' \<longrightarrow> k \<noteq> ''ok'' \<longrightarrow> map_of kvs k = map_option json_read (map_of (configuration_fields c) k)"
    by (auto simp: encode_config_def configuration_fields_def)
  show "decode_set_config J line base = (c, None)"
    by (cases c; cases base)
       (simp add: decode_set_config_def kvs set_config_field_def configuration_fields_def accept_wire_policy_def)
next
  assume pos: "qj_position job < 2 ^ 64" and "encode_queued J type job = Some line"
  then have "json_dump J (response type True [(''session_id'', raw (qj_session_id job)), (''position'', JUnsigned (qj_position job))]) = Some line"
    by (simp add: encode_queued_def)
  from response_parsed [OF assms this] pos
  have "\<exists>kvs. json_parse J line = Some (JObject kvs) \<and> map_of kvs ''session_id'' = Some (raw (qj_session_id job))" by fastforce
  then obtain kvs where "json_parse J line = Some (JObject kvs)" "map_of kvs ''session_id'' = Some (raw (qj_session_id job))"
    by blast
  then show "decode_cancel_job J line = Some (qj_session_id job)"
    by (simp add: decode_cancel_job_def raw_def)
qed

text \<open>What one field of a set_config request does when it is accepted.\<close>

lemma set_config_field_value:
  assumes "set_config_field kvs k ex get accept r = Inl c'" and "\<And>c. upd (field c) c = c"
    and "\<And>v c d. accept v c = Inl d \<Longrightarrow> \<exists>x. d = upd x c \<and> shows_value v x"
  obtains c x where "r = Inl c" and "c' = upd x c" and "map_of kvs k = None \<Longrightarrow> x = field c"
    and "\<And>j. map_of kvs k = Some j \<Longrightarrow> \<exists>v. get j = Some v \<and> shows_value v x"
proof -
  from assms(1) obtain c where c: "r = Inl c" by (cases r) (simp_all add: set_config_field_def)
  show thesis
  proof (cases "map_of kvs k")
    case None
    with assms(1) c have "c' = c" by (simp add: set_config_field_def)
    with None assms(2) [of c] c that [of c "field c"] show thesis by simp
  next
    case (Some j)
    with assms(1) c obtain v where v: "get j = Some v" "accept v c = Inl c'"
      by (auto simp: set_config_field_def split: option.splits)
    with assms(3) obtain x where "c' = upd x c" "shows_value v x" by blast
    with Some v c that [of c x] show thesis by simp
  qed
qed

lemma wire_policy_parsed:
  "accept_wire_policy v c = Inl d \<Longrightarrow> \<exists>p. d = c\<lparr>model_load_policy_of := p\<rparr> \<and> v = policy_to_string p"
  by (auto simp: accept_wire_policy_def parse_model_load_policy_def split: option.splits if_splits)

lemma json_string_Some: "json_string j = Some v \<Longrightarrow> j = JString v" and json_bool_Some: "json_bool j = Some w \<Longrightarrow> j = JBool w"
  by (cases j; simp)+

lemma field_string:
  "(o1 = None \<Longrightarrow> x = y) \<Longrightarrow> (\<And>j. o1 = Some j \<Longrightarrow> \<exists>v. json_string j = Some v \<and> v = z) \<Longrightarrow>
     case o1 of None \<Rightarrow> x = y | Some j \<Rightarrow> j = JString z"
  by (auto split: option.split dest: json_string_Some)

lemma field_bool:
  "(o1 = None \<Longrightarrow> x = y) \<Longrightarrow> (\<And>j. o1 = Some j \<Longrightarrow> \<exists>v. json_bool j = Some v \<and> v = z) \<Longrightarrow>
     case o1 of None \<Rightarrow> x = y | Some j \<Rightarrow> j = JBool z"
  by (auto split: option.split dest: json_bool_Some)

text \<open>A request without an error: one value per field, the old one where the request has none.\<close>

lemma decode_set_config_fields:
  assumes kvs: "json_parse J line = Some (JObject kvs)" and "decode_set_config J line base = (c, None)"
  shows "(case map_of kvs ''default_language'' of None \<Rightarrow> default_language c = default_language base
          | Some j \<Rightarrow> j = JString (default_language c)) \<and>
       (case map_of kvs ''selected_model'' of None \<Rightarrow> selected_model c = selected_model base
          | Some j \<Rightarrow> j = JString (selected_model c)) \<and>
       (case map_of kvs ''auto_clipboard'' of None \<Rightarrow> auto_clipboard c = auto_clipboard base
          | Some j \<Rightarrow> j = JBool (auto_clipboard c)) \<and>
       (case map_of kvs ''model_load_policy'' of None \<Rightarrow> model_load_policy_of c = model_load_policy_of base
          | Some j \<Rightarrow> j = JString (policy_to_string (model_load_policy_of c))) \<and>
       (case map_of kvs ''transcription_prompt'' of None \<Rightarrow> transcription_prompt c = transcription_prompt base
          | Some j \<Rightarrow> j = JString (transcription_prompt c))"
proof -
  let ?r0 = "Inl base"
  let ?r1 = "set_config_field kvs ''default_language'' '' must be a string'' json_string (\<lambda>v c. Inl (c\<lparr>default_language := v\<rparr>)) ?r0"
  let ?r2 = "set_config_field kvs ''selected_model'' '' must be a string'' json_string (\<lambda>v c. Inl (c\<lparr>selected_model := v\<rparr>)) ?r1"
  let ?r3 = "set_config_field kvs ''auto_clipboard'' '' must be a boolean'' json_bool (\<lambda>v c. Inl (c\<lparr>auto_clipboard := v\<rparr>)) ?r2"
  let ?r4 = "set_config_field kvs ''model_load_policy'' '' must be a string'' json_string accept_wire_policy ?r3"
  let ?r5 = "set_config_field kvs ''transcription_prompt'' '' must be a string'' json_string (\<lambda>v c. Inl (c\<lparr>transcription_prompt := v\<rparr>)) ?r4"
  have r5: "?r5 = Inl c" using assms by (simp add: decode_set_config_def Let_def split: sum.splits)
  from r5 obtain c4 q where r4: "?r4 = Inl c4" and q: "c = c4\<lparr>transcription_prompt := q\<rparr>"
    "map_of kvs ''transcription_prompt'' = None \<Longrightarrow> q = transcription_prompt c4"
    "\<And>j. map_of kvs ''transcription_prompt'' = Some j \<Longrightarrow> \<exists>v. json_string j = Some v \<and> v = q"
    by (rule set_config_field_value [where upd = "\<lambda>v c. c\<lparr>transcription_prompt := v\<rparr>" and field = transcription_prompt
          and shows_value = "(=)"]) (auto dest: wire_policy_parsed)
  from r4 obtain c3 p where r3: "?r3 = Inl c3" and p: "c4 = c3\<lparr>model_load_policy_of := p\<rparr>"
    "map_of kvs ''model_load_policy'' = None \<Longrightarrow> p = model_load_policy_of c3"
    "\<And>j. map_of kvs ''model_load_policy'' = Some j \<Longrightarrow> \<exists>v. json_string j = Some v \<and> v = policy_to_string p"
    by (rule set_config_field_value [where upd = "\<lambda>v c. c\<lparr>model_load_policy_of := v\<rparr>" and field = model_load_policy_of
          and shows_value = "\<lambda>v p. v = policy_to_string p"]) (auto dest: wire_policy_parsed)
  from r3 obtain c2 a where r2: "?r2 = Inl c2" and a: "c3 = c2\<lparr>auto_clipboard := a\<rparr>"
    "map_of kvs ''auto_clipboard'' = None \<Longrightarrow> a = auto_clipboard c2"
    "\<And>j. map_of kvs ''auto_clipboard'' = Some j \<Longrightarrow> \<exists>v. json_bool j = Some v \<and> v = a"
    by (rule set_config_field_value [where upd = "\<lambda>v c. c\<lparr>auto_clipboard := v\<rparr>" and field = auto_clipboard
          and shows_value = "(=)"]) (auto dest: wire_policy_parsed)
  from r2 obtain c1 m where r1: "?r1 = Inl c1" and m: "c2 = c1\<lparr>selected_model := m\<rparr>"
    "map_of kvs ''selected_model'' = None \<Longrightarrow> m = selected_model c1"
    "\<And>j. map_of kvs ''selected_model'' = Some j \<Longrightarrow> \<exists>v. json_string j = Some v \<and> v = m"
    by (rule set_config_field_value [where upd = "\<lambda>v c. c\<lparr>selected_model := v\<rparr>" and field = selected_model
          and shows_value = "(=)"]) (auto dest: wire_policy_parsed)
  from r1 obtain c0 l where r0: "?r0 = Inl c0" and l: "c1 = c0\<lparr>default_language := l\<rparr>"
    "map_of kvs ''default_language'' = None \<Longrightarrow> l = default_language c0"
    "\<And>j. map_of kvs ''default_language'' = Some j \<Longrightarrow> \<exists>v. json_string j = Some v \<and> v = l"
    by (rule set_config_field_value [where upd = "\<lambda>v c. c\<lparr>default_language := v\<rparr>" and field = default_language
          and shows_value = "(=)"]) (auto dest: wire_policy_parsed)
  from r0 have "c0 = base" by simp
  then have "default_language c = l" "selected_model c = m" "auto_clipboard c = a" "model_load_policy_of c = p"
    "transcription_prompt c = q" "default_language c0 = default_language base" "selected_model c1 = selected_model base"
    "auto_clipboard c2 = auto_clipboard base" "model_load_policy_of c3 = model_load_policy_of base"
    "transcription_prompt c4 = transcription_prompt base"
    by (simp_all add: q(1) p(1) a(1) m(1) l(1))
  note f = this
  show ?thesis
    unfolding f(1-5) using q(2,3) p(2,3) a(2,3) m(2,3) l(2,3) unfolding f(6-10) by (intro conjI field_string field_bool)
qed

text \<open>
  C38: A set_config request changes what it mentions and nothing else, or nothing at all. If any
  field has the wrong type or an unknown policy the decoded configuration is the base, with an error;
  otherwise each field of the result is the request's value if the request mentions it and the
  base's if it does not.
\<close>

theorem set_config_is_a_patch:
  assumes "decode_set_config J line base = (c, err)"
  shows "if err \<noteq> None then c = base
     else \<exists>kvs. json_parse J line = Some (JObject kvs) \<and>
       (case map_of kvs ''default_language'' of None \<Rightarrow> default_language c = default_language base
          | Some j \<Rightarrow> j = JString (default_language c)) \<and>
       (case map_of kvs ''selected_model'' of None \<Rightarrow> selected_model c = selected_model base
          | Some j \<Rightarrow> j = JString (selected_model c)) \<and>
       (case map_of kvs ''auto_clipboard'' of None \<Rightarrow> auto_clipboard c = auto_clipboard base
          | Some j \<Rightarrow> j = JBool (auto_clipboard c)) \<and>
       (case map_of kvs ''model_load_policy'' of None \<Rightarrow> model_load_policy_of c = model_load_policy_of base
          | Some j \<Rightarrow> j = JString (policy_to_string (model_load_policy_of c))) \<and>
       (case map_of kvs ''transcription_prompt'' of None \<Rightarrow> transcription_prompt c = transcription_prompt base
          | Some j \<Rightarrow> j = JString (transcription_prompt c))"
proof (cases "(\<exists>kvs. json_parse J line = Some (JObject kvs)) \<and> err = None")
  case True
  then obtain kvs where kvs: "json_parse J line = Some (JObject kvs)" and err: "err = None" by blast
  from decode_set_config_fields [OF kvs assms [unfolded err]] kvs err show ?thesis by simp
next
  case False
  with assms show ?thesis by (auto simp: decode_set_config_def Let_def split: option.splits json.splits sum.splits)
qed

section \<open>Witnesses\<close>

instance json :: countable by countable_datatype

text \<open>A JSON library that keeps its promise: a value is written as a run of letters whose length codes it.\<close>

definition toy_json :: json_lib where
  "toy_json =
     \<lparr>json_parse = (\<lambda>line. Some (from_nat (length line))),
      json_dump = (\<lambda>j. if json_utf8 j then Some (replicate (to_nat (json_read j)) CHR ''x'') else None)\<rparr>"

lemma toy_json_faithful: "json_faithful toy_json"
  by (auto simp: json_faithful_def toy_json_def split: if_splits)

lemma toy_ack: "\<exists>line. encode_ack toy_json ''get_state'' = Some line"
  by (simp add: encode_ack_def toy_json_def response_def json_object_def valid_utf8_def char_code_def)

lemma toy_config: "\<exists>line. encode_config toy_json ''get_config'' default_configuration = Some line"
  by (simp add: encode_config_def toy_json_def response_def json_object_def configuration_fields_def
      default_configuration_def valid_utf8_def char_code_def)

theorem replies_name_their_request_witness:
  "\<exists>line. encode_ack toy_json ''get_state'' = Some line \<and> parse_message toy_json line = Inl ''get_state''"
  using toy_ack replies_name_their_request [OF toy_json_faithful] by blast

theorem replies_can_be_sent_back_witness:
  "\<exists>line. encode_config toy_json ''get_config'' default_configuration = Some line \<and>
     decode_set_config toy_json line demo_config = (default_configuration, None)"
  using toy_config replies_can_be_sent_back [OF toy_json_faithful] by blast

theorem set_config_is_a_patch_witness:
  "\<exists>c err. decode_set_config toy_json ''xx'' demo_config = (c, err) \<and> (err = None \<or> c = demo_config)"
proof -
  obtain c err where d: "decode_set_config toy_json ''xx'' demo_config = (c, err)"
    by (cases "decode_set_config toy_json ''xx'' demo_config")
  from set_config_is_a_patch [OF d] d show ?thesis by (auto split: if_splits)
qed

end
