(* ===== verification/Ipc_Server.thy ===== *)
theory Ipc_Server
  imports Paths Descriptors
begin

text \<open>
  \<^verbatim>\<open>IpcServer\<close> (\<^verbatim>\<open>src/domains/ipc/ipc_server.cpp\<close>): newline-delimited messages over a Unix socket. The
  kernel's answers are arguments: how \<^verbatim>\<open>start()\<close>'s calls end (\<open>start_env\<close>), what \<^verbatim>\<open>poll\<close>, \<^verbatim>\<open>accept\<close> and
  \<^verbatim>\<open>read\<close> report (\<open>poll_env\<close>), and, as a ghost queue inside the server, what the following \<^verbatim>\<open>write\<close>
  calls return. Two more ghost fields record what each connected client was sent and which
  descriptors are open. The callbacks of \<^verbatim>\<open>poll_once\<close> act on the server and the rest of the world
  \<open>'w\<close>.
\<close>

type_synonym client_id = int

datatype ipc_error = IpcError string

datatype write_answer = WriteAccepted nat | WriteZero | WriteError errno

record ipc_server =
  sv_socket_path :: path
  sv_listening :: bool
  sv_wake_open :: bool
  sv_wake_pending :: bool
  sv_read_buffers :: "client_id \<Rightarrow> string option"
  sv_pending_disconnects :: "client_id list"
  sv_kernel :: "write_answer list"           \<comment> \<open>ghost\<close>
  sv_sent :: "client_id \<Rightarrow> string"           \<comment> \<open>ghost\<close>
  sv_open :: "client_id set"                 \<comment> \<open>ghost\<close>
  sv_socket_file :: bool                     \<comment> \<open>ghost\<close>

definition kListenBacklog :: nat where "kListenBacklog = 16"
definition kReadChunkSize :: nat where "kReadChunkSize = 4096"
definition kMaxLineBytes :: nat where "kMaxLineBytes = 1048576"
definition kSunPathSize :: nat where "kSunPathSize = 108"

definition new_ipc_server :: "path \<Rightarrow> write_answer list \<Rightarrow> ipc_server" where
  "new_ipc_server p answers =
     \<lparr>sv_socket_path = p, sv_listening = False, sv_wake_open = False, sv_wake_pending = False,
      sv_read_buffers = (\<lambda>_. None), sv_pending_disconnects = [], sv_kernel = answers, sv_sent = (\<lambda>_. ''''),
      sv_open = {}, sv_socket_file = False\<rparr>"

section \<open>Starting and stopping\<close>

datatype connect_result = Connected | ConnectError errno

record start_env =
  se_probe :: "connect_result option" \<comment> \<open>\<open>None\<close>: the probe socket could not be created\<close>
  se_socket_error :: "string option"
  se_bind_error :: "string option"
  se_listen_error :: "string option"
  se_eventfd_error :: "string option"

definition is_socket_live :: "start_env \<Rightarrow> bool" where
  "is_socket_live env =
     (case se_probe env of
        None \<Rightarrow> False
      | Some Connected \<Rightarrow> True
      | Some (ConnectError e) \<Rightarrow> e = EINPROGRESS \<or> e = EAGAIN \<or> e = EWOULDBLOCK)"

definition sv_start :: "start_env \<Rightarrow> ipc_server \<Rightarrow> ipc_error option \<times> ipc_server" where
  "sv_start env sv =
     (if sv_listening sv then (Some (IpcError ''server is already running''), sv)
      else if length (sv_socket_path sv) \<ge> kSunPathSize then
        (Some (IpcError (''socket path is too long for a Unix domain socket: '' @ sv_socket_path sv)), sv)
      else if is_socket_live env then
        (Some (IpcError (''another instance is already listening on '' @ sv_socket_path sv)), sv)
      else
        let sv1 = sv\<lparr>sv_socket_file := False\<rparr>
        in case se_socket_error env of
             Some m \<Rightarrow> (Some (IpcError (errno_message ''failed to create socket'' m)), sv1)
           | None \<Rightarrow>
        (case se_bind_error env of
             Some m \<Rightarrow> (Some (IpcError (errno_message ''failed to bind socket'' m)), sv1)
           | None \<Rightarrow>
        (case se_listen_error env of
             Some m \<Rightarrow> (Some (IpcError (errno_message ''failed to listen on socket'' m)), sv1)
           | None \<Rightarrow>
        (case se_eventfd_error env of
             Some m \<Rightarrow> (Some (IpcError (errno_message ''failed to create wake eventfd'' m)), sv1)
           | None \<Rightarrow> (None, sv1\<lparr>sv_listening := True, sv_wake_open := True, sv_wake_pending := False,
                                 sv_socket_file := True\<rparr>)))))"

text \<open>
  The same calls seen by the descriptor table: \<^verbatim>\<open>socket\<close> and \<^verbatim>\<open>accept\<close> without close-on-exec, the eventfd with it.
\<close>

definition probe_descriptors :: "start_env \<Rightarrow> fd_table \<Rightarrow> fd_table" where
  "probe_descriptors env t =
     (case se_probe env of
        None \<Rightarrow> t
      | Some _ \<Rightarrow> let (probe_fd, t1) = fd_open ProbeSocket False t in fd_close probe_fd t1)"

definition start_descriptors :: "start_env \<Rightarrow> ipc_server \<Rightarrow> fd_table \<Rightarrow> fd_table" where
  "start_descriptors env sv t =
     (if sv_listening sv then t
      else if length (sv_socket_path sv) \<ge> kSunPathSize then t
      else
        let t1 = probe_descriptors env t
        in if is_socket_live env \<or> se_socket_error env \<noteq> None then t1
           else let (fd, t2) = fd_open ListenSocket False t1
                in if se_bind_error env \<noteq> None \<or> se_listen_error env \<noteq> None \<or> se_eventfd_error env \<noteq> None then fd_close fd t2
                   else snd (fd_open WakeEvent True t2))"

definition accept_descriptor :: "nat \<Rightarrow> fd_table \<Rightarrow> fd_table" where
  "accept_descriptor i t = snd (fd_open (ClientSocket i) False t)"

definition sv_stop :: "ipc_server \<Rightarrow> ipc_server" where
  "sv_stop sv =
     (if \<not> sv_listening sv then sv
      else sv\<lparr>sv_open := sv_open sv - dom (sv_read_buffers sv), sv_read_buffers := (\<lambda>_. None),
              sv_pending_disconnects := [], sv_listening := False, sv_socket_file := False,
              sv_wake_open := False, sv_wake_pending := False\<rparr>)"

definition sv_wake :: "ipc_server \<Rightarrow> ipc_server" where
  "sv_wake sv = (if sv_wake_open sv then sv\<lparr>sv_wake_pending := True\<rparr> else sv)"

section \<open>Sending\<close>

text \<open>
  \<open>WriteAccepted n\<close> takes \<open>n + 1\<close> bytes (or what there is), \<open>WriteZero\<close> none; when the answers run out,
  everything is taken. The write loop: whether everything was written, what was, and the remaining
  answers.
\<close>

fun write_loop :: "write_answer list \<Rightarrow> string \<Rightarrow> bool \<times> string \<times> write_answer list" where
  "write_loop ws [] = (True, [], ws)"
| "write_loop [] (c # cs) = (True, c # cs, [])"
| "write_loop (WriteError e # ws) (c # cs) = (if interrupted e then write_loop ws (c # cs) else (False, [], ws))"
| "write_loop (WriteZero # ws) (c # cs) = (False, [], ws)"
| "write_loop (WriteAccepted n # ws) (c # cs) =
     (let (ok, sent, ws') = write_loop ws (drop n cs)
      in (ok, c # take n cs @ sent, ws'))"

definition send_line :: "client_id \<Rightarrow> string \<Rightarrow> ipc_server \<Rightarrow> ipc_server" where
  "send_line client line sv =
     (if sv_read_buffers sv client = None then sv
      else
        let (ok, sent, answers) = write_loop (sv_kernel sv) (line @ [CHR 0x0A]);
            sv1 = sv\<lparr>sv_kernel := answers, sv_sent := (sv_sent sv)(client := sv_sent sv client @ sent)\<rparr>
        in if ok then sv1
           else if client \<in> set (sv_pending_disconnects sv) then sv1
           else sv1\<lparr>sv_pending_disconnects := sv_pending_disconnects sv @ [client]\<rparr>)"

section \<open>Polling\<close>

datatype accept_result = Accepted client_id | AcceptError errno

datatype read_result = ReadData string | ReadEnd | ReadError errno

record poll_env =
  pe_wake :: bool
  pe_accepts :: "accept_result list"
  pe_reads :: "(client_id \<times> read_result) list"

type_synonym 'w line_callback = "client_id \<Rightarrow> string \<Rightarrow> ipc_server \<times> 'w \<Rightarrow> ipc_server \<times> 'w"
type_synonym 'w disconnect_callback = "client_id \<Rightarrow> ipc_server \<times> 'w \<Rightarrow> ipc_server \<times> 'w"

text \<open>\<^verbatim>\<open>if (read_buffers.erase(fd) > 0) { close(fd); on_disconnect(fd); }\<close>\<close>

definition disconnect_client :: "'w disconnect_callback \<Rightarrow> client_id \<Rightarrow> ipc_server \<times> 'w \<Rightarrow> ipc_server \<times> 'w" where
  "disconnect_client on_disconnect fd s =
     (case s of (sv, w) \<Rightarrow>
        if sv_read_buffers sv fd = None then (sv, w)
        else on_disconnect fd (sv\<lparr>sv_read_buffers := (sv_read_buffers sv)(fd := None), sv_open := sv_open sv - {fd}\<rparr>, w))"

definition disconnect_pending :: "'w disconnect_callback \<Rightarrow> ipc_server \<times> 'w \<Rightarrow> ipc_server \<times> 'w" where
  "disconnect_pending on_disconnect s =
     (case fold (disconnect_client on_disconnect) (sv_pending_disconnects (fst s)) s of
        (sv, w) \<Rightarrow> (sv\<lparr>sv_pending_disconnects := []\<rparr>, w))"

text \<open>The accept loop; when the answers run out the backlog is empty.\<close>

fun accept_loop :: "accept_result list \<Rightarrow> ipc_server \<Rightarrow> ipc_server" where
  "accept_loop [] sv = sv"
| "accept_loop (AcceptError e # rs) sv = (if interrupted e \<or> e = ECONNABORTED then accept_loop rs sv else sv)"
| "accept_loop (Accepted fd # rs) sv =
     accept_loop rs
       (sv\<lparr>sv_read_buffers := (sv_read_buffers sv)(fd := Some (case sv_read_buffers sv fd of None \<Rightarrow> '''' | Some b \<Rightarrow> b)),
           sv_open := insert fd (sv_open sv), sv_sent := (sv_sent sv)(fd := '''')\<rparr>)"

text \<open>
  The loop over complete lines. \<open>buffer\<close> is the client's entry of \<^verbatim>\<open>read_buffers\<close>, updated before each
  callback; the callbacks never touch it (\<open>server_callbacks\<close> below,
  interpreted on the process's callbacks in \<open>Daemon_Safety\<close>).
\<close>

function deliver_lines :: "'w line_callback \<Rightarrow> client_id \<Rightarrow> string \<Rightarrow> ipc_server \<times> 'w \<Rightarrow> ipc_server \<times> 'w" where
  "deliver_lines on_line fd buffer s =
     (if CHR 0x0A \<notin> set buffer then s
      else let line = takeWhile (\<lambda>c. c \<noteq> CHR 0x0A) buffer;
               buffer' = drop (Suc (length line)) buffer;
               s' = (fst s\<lparr>sv_read_buffers := (sv_read_buffers (fst s))(fd \<mapsto> buffer')\<rparr>, snd s)
           in deliver_lines on_line fd buffer' (on_line fd line s'))"
  by pat_completeness auto

termination deliver_lines
  by (relation "measure (\<lambda>(_, _, buffer, _). length buffer)") (auto intro!: diff_less simp: length_pos_if_in_set)

declare deliver_lines.simps [simp del]

text \<open>One ready client: the new state and whether it is to be disconnected.\<close>

definition read_client ::
  "'w line_callback \<Rightarrow> client_id \<Rightarrow> read_result \<Rightarrow> ipc_server \<times> 'w \<Rightarrow> (ipc_server \<times> 'w) \<times> bool" where
  "read_client on_line fd r s =
     (case r of
        ReadEnd \<Rightarrow> (s, True)
      | ReadError e \<Rightarrow> (s, \<not> (would_block e \<or> interrupted e))
      | ReadData bytes \<Rightarrow>
          let buffer = (case sv_read_buffers (fst s) fd of None \<Rightarrow> '''' | Some b \<Rightarrow> b) @ take kReadChunkSize bytes;
              s1 = (fst s\<lparr>sv_read_buffers := (sv_read_buffers (fst s))(fd \<mapsto> buffer)\<rparr>, snd s);
              s2 = deliver_lines on_line fd buffer s1
          in (s2, case sv_read_buffers (fst s2) fd of None \<Rightarrow> False | Some b \<Rightarrow> length b > kMaxLineBytes))"

fun read_loop ::
  "'w line_callback \<Rightarrow> client_id set \<Rightarrow> (client_id \<times> read_result) list \<Rightarrow> ipc_server \<times> 'w \<Rightarrow> client_id list \<Rightarrow>
   (ipc_server \<times> 'w) \<times> client_id list" where
  "read_loop on_line polled [] s disconnected = (s, disconnected)"
| "read_loop on_line polled ((fd, r) # rs) s disconnected =
     (if fd \<notin> polled then read_loop on_line polled rs s disconnected
      else let (s', gone) = read_client on_line fd r s
           in read_loop on_line polled rs s' (if gone then disconnected @ [fd] else disconnected))"

text \<open>\<open>env = None\<close>: \<^verbatim>\<open>poll\<close> timed out or was interrupted.\<close>

definition poll_once ::
  "poll_env option \<Rightarrow> 'w line_callback \<Rightarrow> 'w disconnect_callback \<Rightarrow> ipc_server \<times> 'w \<Rightarrow> ipc_server \<times> 'w" where
  "poll_once env on_line on_disconnect s =
     (if \<not> sv_listening (fst s) then s
      else
        let (sv1, w1) = disconnect_pending on_disconnect s
        in case env of
             None \<Rightarrow> (sv1, w1)
           | Some e \<Rightarrow>
               let polled = dom (sv_read_buffers sv1);
                   sv2 = (if pe_wake e then sv1\<lparr>sv_wake_pending := False\<rparr> else sv1);
                   sv3 = accept_loop (pe_accepts e) sv2;
                   (s4, disconnected) = read_loop on_line polled (pe_reads e) (sv3, w1) []
               in fold (disconnect_client on_disconnect) disconnected s4)"

definition is_running :: "ipc_server \<Rightarrow> bool" where
  "is_running sv = sv_listening sv"

section \<open>Frames\<close>

text \<open>What a stream of bytes means: the complete lines in it, and the unterminated rest.\<close>

fun frames_from :: "string \<Rightarrow> string \<Rightarrow> string list \<times> string" where
  "frames_from current [] = ([], current)"
| "frames_from current (c # cs) =
     (if c = CHR 0x0A then (let (ls, rest) = frames_from [] cs in (current # ls, rest))
      else frames_from (current @ [c]) cs)"

definition frames :: "string \<Rightarrow> string list \<times> string" where
  "frames s = frames_from [] s"

lemma frames_from_append:
  "frames_from cur (a @ b) =
     (let (ls, rest) = frames_from cur a; (ls', rest') = frames_from rest b in (ls @ ls', rest'))"
  by (induction cur a rule: frames_from.induct) (auto split: prod.splits)

lemma frames_from_no_newline: "CHR 0x0A \<notin> set s \<Longrightarrow> frames_from cur s = ([], cur @ s)"
  by (induction s arbitrary: cur) auto

lemma frames_from_rest: "CHR 0x0A \<notin> set cur \<Longrightarrow> CHR 0x0A \<notin> set (snd (frames_from cur s))"
  by (induction cur s rule: frames_from.induct) (auto split: prod.splits)

lemma frames_append:
  "frames (a @ b) = (fst (frames a) @ fst (frames (snd (frames a) @ b)), snd (frames (snd (frames a) @ b)))"
proof -
  have "CHR 0x0A \<notin> set (snd (frames a))" unfolding frames_def by (rule frames_from_rest) simp
  then have "frames_from [] (snd (frames a)) = ([], snd (frames a))" by (simp add: frames_from_no_newline)
  then show ?thesis by (simp add: frames_def frames_from_append split: prod.splits)
qed

lemma takeWhile_split: "x \<in> set xs \<Longrightarrow> xs = takeWhile (\<lambda>c. c \<noteq> x) xs @ x # drop (Suc (length (takeWhile (\<lambda>c. c \<noteq> x) xs))) xs"
  by (induction xs) auto

lemma frames_step:
  assumes "CHR 0x0A \<in> set buffer"
  defines "line \<equiv> takeWhile (\<lambda>c. c \<noteq> CHR 0x0A) buffer"
  shows "frames buffer = (line # fst (frames (drop (Suc (length line)) buffer)), snd (frames (drop (Suc (length line)) buffer)))"
proof -
  have "frames (line @ CHR 0x0A # b) = (line # fst (frames b), snd (frames b))" for b
  proof -
    have "CHR 0x0A \<notin> set line" by (auto simp: line_def dest: set_takeWhileD)
    then show ?thesis by (simp add: frames_def frames_from_append frames_from_no_newline split: prod.splits)
  qed
  with takeWhile_split [OF assms(1)] show ?thesis unfolding line_def by metis
qed

lemma frames_unterminated [simp]: "CHR 0x0A \<notin> set buffer \<Longrightarrow> frames buffer = ([], buffer)"
  by (simp add: frames_def frames_from_no_newline)

lemma frames_rest [simp]: "CHR 0x0A \<notin> set (snd (frames s))"
  unfolding frames_def by (rule frames_from_rest) simp

lemma frames_Nil [simp]: "frames '''' = ([], '''')"
  by (simp add: frames_def)

text \<open>What is unterminated after a part of a stream is the beginning of a line of the whole, or of its unterminated end.\<close>

lemma unterminated_part:
  assumes "\<forall>l \<in> set (fst (frames (a @ b))). length l \<le> n" and "length (snd (frames (a @ b))) \<le> n"
  shows "length (snd (frames a)) \<le> n"
proof -
  let ?r = "snd (frames a)"
  have r: "CHR 0x0A \<notin> set ?r" by simp
  show ?thesis
  proof (cases "CHR 0x0A \<in> set b")
    case False
    with r have "snd (frames (a @ b)) = ?r @ b" by (simp add: frames_append [of a b])
    with assms(2) show ?thesis by simp
  next
    case True
    have "takeWhile (\<lambda>c. c \<noteq> CHR 0x0A) (?r @ b) = ?r @ takeWhile (\<lambda>c. c \<noteq> CHR 0x0A) b"
      by (rule takeWhile_append2) (use r in auto)
    then have "?r @ takeWhile (\<lambda>c. c \<noteq> CHR 0x0A) b \<in> set (fst (frames (a @ b)))"
      using frames_step [of "?r @ b"] True by (simp add: frames_append [of a b])
    with assms(1) show ?thesis by fastforce
  qed
qed

text \<open>Callbacks that only record what they are given.\<close>

type_synonym recorded = "(client_id \<times> string) list \<times> client_id list"

definition record_line :: "recorded line_callback" where
  "record_line fd line s = (fst s, fst (snd s) @ [(fd, line)], snd (snd s))"

definition record_gone :: "recorded disconnect_callback" where
  "record_gone fd s = (fst s, fst (snd s), snd (snd s) @ [fd])"

lemma deliver_recorded:
  "sv_read_buffers (fst s) fd = Some buffer \<Longrightarrow>
     deliver_lines record_line fd buffer s =
       (fst s\<lparr>sv_read_buffers := (sv_read_buffers (fst s))(fd \<mapsto> snd (frames buffer))\<rparr>,
        fst (snd s) @ map (Pair fd) (fst (frames buffer)), snd (snd s))"
proof (induction "record_line" fd buffer s rule: deliver_lines.induct)
  case (1 fd buffer s)
  show ?case
  proof (cases "CHR 0x0A \<in> set buffer")
    case False
    with "1.prems" show ?thesis by (cases s) (simp add: deliver_lines.simps fun_upd_idem)
  next
    case True
    let ?line = "takeWhile (\<lambda>c. c \<noteq> CHR 0x0A) buffer"
    let ?rest = "drop (Suc (length ?line)) buffer"
    from True have "\<not> CHR 0x0A \<notin> set buffer" by simp
    from "1.hyps" [OF this refl refl refl] show ?thesis
      using True frames_step [OF True]
      by (subst deliver_lines.simps) (simp add: record_line_def Let_def)
  qed
qed

text \<open>A poll in which one client has something to read.\<close>

definition poll_chunk :: "client_id \<Rightarrow> string \<Rightarrow> ipc_server \<times> recorded \<Rightarrow> ipc_server \<times> recorded" where
  "poll_chunk fd c = poll_once (Some \<lparr>pe_wake = False, pe_accepts = [], pe_reads = [(fd, ReadData c)]\<rparr>) record_line record_gone"

lemma poll_chunk_result:
  assumes "sv_listening sv" and "sv_pending_disconnects sv = []" and "sv_read_buffers sv fd = Some b" and "length c \<le> kReadChunkSize"
  shows "poll_chunk fd c (sv, ls, gone) =
     (let rest = snd (frames (b @ c)); ls' = ls @ map (Pair fd) (fst (frames (b @ c)))
      in if length rest \<le> kMaxLineBytes then (sv\<lparr>sv_read_buffers := (sv_read_buffers sv)(fd \<mapsto> rest)\<rparr>, ls', gone)
         else (sv\<lparr>sv_read_buffers := (sv_read_buffers sv)(fd := None), sv_open := sv_open sv - {fd}\<rparr>, ls', gone @ [fd]))"
proof -
  have same: "sv\<lparr>sv_pending_disconnects := []\<rparr> = sv" using assms(2) by simp
  have read: "read_client record_line fd (ReadData c) (sv, ls, gone) =
      ((sv\<lparr>sv_read_buffers := (sv_read_buffers sv)(fd \<mapsto> snd (frames (b @ c)))\<rparr>, ls @ map (Pair fd) (fst (frames (b @ c))), gone),
       \<not> length (snd (frames (b @ c))) \<le> kMaxLineBytes)"
    using assms(3,4) by (simp add: read_client_def Let_def deliver_recorded not_le)
  have "fd \<in> dom (sv_read_buffers sv)" using assms(3) by blast
  then show ?thesis
    using assms(1,2)
    by (simp add: poll_chunk_def poll_once_def disconnect_pending_def same read)
       (simp add: disconnect_client_def record_gone_def Let_def)
qed

lemma poll_chunk_unknown:
  assumes "sv_pending_disconnects sv = []" and "sv_read_buffers sv fd = None"
  shows "poll_chunk fd c (sv, w) = (sv, w)"
  using assms by (cases w) (simp add: poll_chunk_def poll_once_def disconnect_pending_def Let_def dom_def)

lemma poll_chunks_unknown:
  "sv_pending_disconnects sv = [] \<Longrightarrow> sv_read_buffers sv fd = None \<Longrightarrow> fold (poll_chunk fd) cs (sv, w) = (sv, w)"
  by (induction cs) (simp_all add: poll_chunk_unknown)

text \<open>What is unterminated after the first \<open>k\<close> reads fits in the buffer.\<close>

definition fits :: "string list \<Rightarrow> nat \<Rightarrow> bool" where
  "fits cs k \<longleftrightarrow> length (snd (frames (concat (take k cs)))) \<le> kMaxLineBytes"

lemma poll_chunks_fit:
  assumes "sv_listening sv" and "sv_pending_disconnects sv = []" and "sv_read_buffers sv fd = Some ''''"
    and "\<forall>c \<in> set cs. length c \<le> kReadChunkSize" and "\<forall>k \<le> length cs. fits cs k"
  shows "fold (poll_chunk fd) cs (sv, [], []) =
     (sv\<lparr>sv_read_buffers := (sv_read_buffers sv)(fd \<mapsto> snd (frames (concat cs)))\<rparr>, map (Pair fd) (fst (frames (concat cs))), [])"
  using assms(4,5)
proof (induction cs rule: rev_induct)
  case Nil
  with assms(3) show ?case by (simp add: fun_upd_idem)
next
  case (snoc c cs)
  have "\<forall>k \<le> length cs. fits cs k"
  proof (intro allI impI)
    fix k
    assume "k \<le> length cs"
    with spec [OF snoc.prems(2), of k] show "fits cs k" by (simp add: fits_def)
  qed
  with snoc.IH snoc.prems(1) have IH: "fold (poll_chunk fd) cs (sv, [], []) =
      (sv\<lparr>sv_read_buffers := (sv_read_buffers sv)(fd \<mapsto> snd (frames (concat cs)))\<rparr>, map (Pair fd) (fst (frames (concat cs))), [])"
    by (metis (no_types, lifting) Un_iff set_append)
  have "length (snd (frames (snd (frames (concat cs)) @ c))) \<le> kMaxLineBytes"
    using spec [OF snoc.prems(2), of "Suc (length cs)"] by (simp add: fits_def frames_append [of "concat cs" c])
  with IH snoc.prems(1) show ?case
    using assms(1,2) by (simp add: poll_chunk_result frames_append [of "concat cs" c] Let_def fun_upd_same del: fun_upd_apply)
qed

text \<open>
  C39: Messages do not depend on how the bytes arrive, as long as no line is too long. However a client's stream is
  cut into reads: if every line of the stream and its unterminated end are at most \<^verbatim>\<open>kMaxLineBytes\<close> long, the
  lines delivered are exactly the newline-terminated lines of the whole stream, in order, what is kept for later is
  exactly its unterminated end, and the client stays connected. The client is disconnected only by the first read after
  which more than \<^verbatim>\<open>kMaxLineBytes\<close> are unterminated, and then always, after the lines that were complete by then were
  delivered; nothing is read from it afterwards.
\<close>

theorem framing_ignores_chunks:
  assumes "sv_listening sv" and "sv_pending_disconnects sv = []" and "sv_read_buffers sv fd = Some ''''"
    and "\<forall>c \<in> set cs. length c \<le> kReadChunkSize"
  shows "((\<forall>l \<in> set (fst (frames (concat cs))). length l \<le> kMaxLineBytes) \<and> length (snd (frames (concat cs))) \<le> kMaxLineBytes \<longrightarrow>
       fold (poll_chunk fd) cs (sv, [], []) =
         (sv\<lparr>sv_read_buffers := (sv_read_buffers sv)(fd \<mapsto> snd (frames (concat cs)))\<rparr>, map (Pair fd) (fst (frames (concat cs))), [])) \<and>
     (k < length cs \<and> (\<forall>j \<le> k. fits cs j) \<and> \<not> fits cs (Suc k) \<longrightarrow>
       fold (poll_chunk fd) cs (sv, [], []) =
         (sv\<lparr>sv_read_buffers := (sv_read_buffers sv)(fd := None), sv_open := sv_open sv - {fd}\<rparr>,
          map (Pair fd) (fst (frames (concat (take (Suc k) cs)))), [fd])) \<and>
     ((\<forall>j \<le> length cs. fits cs j) \<longrightarrow> snd (snd (fold (poll_chunk fd) cs (sv, [], []))) = [])"
proof (intro conjI impI; (elim conjE)?)
  assume lines: "\<forall>l \<in> set (fst (frames (concat cs))). length l \<le> kMaxLineBytes" "length (snd (frames (concat cs))) \<le> kMaxLineBytes"
  have "fits cs k" for k
  proof -
    have "concat cs = concat (take k cs) @ concat (drop k cs)" by (metis append_take_drop_id concat_append)
    with lines show ?thesis unfolding fits_def by (metis unterminated_part)
  qed
  then show "fold (poll_chunk fd) cs (sv, [], []) =
      (sv\<lparr>sv_read_buffers := (sv_read_buffers sv)(fd \<mapsto> snd (frames (concat cs)))\<rparr>, map (Pair fd) (fst (frames (concat cs))), [])"
    by (intro poll_chunks_fit assms) blast
next
  assume k: "k < length cs" "\<forall>j \<le> k. fits cs j" "\<not> fits cs (Suc k)"
  let ?before = "take k cs" and ?c = "cs ! k"
  have cs: "cs = ?before @ ?c # drop (Suc k) cs" and upto: "concat (take (Suc k) cs) = concat ?before @ ?c"
    using k(1) by (simp_all add: id_take_nth_drop take_Suc_conv_app_nth)
  have "\<forall>j \<le> length ?before. fits ?before j" using k(1,2) by (simp add: fits_def min_def)
  moreover have "\<forall>c \<in> set ?before. length c \<le> kReadChunkSize" "length ?c \<le> kReadChunkSize"
    using assms(4) k(1) by (auto dest: in_set_takeD)
  ultimately have "fold (poll_chunk fd) (?before @ [?c]) (sv, [], []) =
      (sv\<lparr>sv_read_buffers := (sv_read_buffers sv)(fd := None), sv_open := sv_open sv - {fd}\<rparr>,
       map (Pair fd) (fst (frames (concat (take (Suc k) cs)))), [fd])"
    using poll_chunks_fit [OF assms(1-3), of ?before] k(3) assms(1,2)
    by (simp add: poll_chunk_result fits_def upto frames_append [of "concat ?before" ?c] Let_def)
  then have "fold (poll_chunk fd) (?before @ ?c # drop (Suc k) cs) (sv, [], []) =
      (sv\<lparr>sv_read_buffers := (sv_read_buffers sv)(fd := None), sv_open := sv_open sv - {fd}\<rparr>,
       map (Pair fd) (fst (frames (concat (take (Suc k) cs)))), [fd])"
    using assms(2) by (simp add: poll_chunks_unknown)
  then show "fold (poll_chunk fd) cs (sv, [], []) =
      (sv\<lparr>sv_read_buffers := (sv_read_buffers sv)(fd := None), sv_open := sv_open sv - {fd}\<rparr>,
       map (Pair fd) (fst (frames (concat (take (Suc k) cs)))), [fd])" using cs by metis
next
  assume "\<forall>j \<le> length cs. fits cs j"
  then show "snd (snd (fold (poll_chunk fd) cs (sv, [], []))) = []" using poll_chunks_fit [OF assms] by simp
qed

text \<open>A line in two reads.\<close>

theorem framing_ignores_chunks_witness:
  "\<exists>sv. snd (fold (poll_chunk 7) [''ab'', ''c'' @ [CHR 0x0A] @ ''d''] (sv, [], [])) = ([(7, ''abc'')], []) \<and>
     sv_read_buffers sv 7 = Some ''''"
proof -
  let ?sv = "(new_ipc_server ''s'' [])\<lparr>sv_read_buffers := [7 \<mapsto> ''''], sv_listening := True\<rparr>"
  let ?cs = "[''ab'', ''c'' @ [CHR 0x0A] @ ''d'']"
  have "sv_listening ?sv" "sv_pending_disconnects ?sv = []" "sv_read_buffers ?sv 7 = Some ''''" by (simp_all add: new_ipc_server_def)
  moreover have "\<forall>c \<in> set ?cs. length c \<le> kReadChunkSize" by (simp add: kReadChunkSize_def)
  ultimately have "fold (poll_chunk 7) ?cs (?sv, [], []) =
      (?sv\<lparr>sv_read_buffers := (sv_read_buffers ?sv)(7 \<mapsto> ''d'')\<rparr>, [(7, ''abc'')], [])"
    using framing_ignores_chunks [of ?sv 7 ?cs] by (simp add: frames_def kMaxLineBytes_def)
  then show ?thesis by (intro exI [of _ ?sv]) simp
qed

section \<open>Sending a line\<close>

lemma write_loop_result:
  "write_loop ws data = (ok, sent, ws') \<Longrightarrow> prefix sent data \<and> (ok \<longrightarrow> sent = data)"
proof (induction ws data arbitrary: ok sent ws' rule: write_loop.induct)
  case (5 n ws c cs)
  obtain ok' sent' ws'' where rec: "write_loop ws (drop n cs) = (ok', sent', ws'')" by (cases "write_loop ws (drop n cs)")
  from "5.IH" [OF rec] have "prefix sent' (drop n cs)" "ok' \<longrightarrow> sent' = drop n cs" by auto
  then obtain r where "drop n cs = sent' @ r" by (auto simp: prefix_def)
  then have "cs = (take n cs @ sent') @ r" by (metis append.assoc append_take_drop_id)
  then have "prefix (take n cs @ sent') cs" by (metis prefixI)
  with "5.prems" rec \<open>ok' \<longrightarrow> sent' = drop n cs\<close> show ?case by auto
qed (auto split: if_splits)

lemma send_line_frame [simp]:
  "sv_read_buffers (send_line c line sv) = sv_read_buffers sv"
  "sv_open (send_line c line sv) = sv_open sv"
  "sv_listening (send_line c line sv) = sv_listening sv"
  "sv_wake_open (send_line c line sv) = sv_wake_open sv"
  "sv_wake_pending (send_line c line sv) = sv_wake_pending sv"
  by (simp_all add: send_line_def Let_def split: prod.splits)

text \<open>
  C40: Sending a line never blocks and never corrupts another client. An unknown client is left
  alone; a connected one receives either the whole line with its terminator, or a prefix of it and
  is then scheduled to be disconnected; what every other client was sent is unchanged, no client
  is scheduled twice, and nobody is disconnected here.
\<close>

theorem send_line_whole_or_doomed:
  "let sv' = send_line client line sv in
     (if sv_read_buffers sv client = None then sv' = sv
      else \<exists>sent. sv_sent sv' = (sv_sent sv)(client := sv_sent sv client @ sent) \<and> prefix sent (line @ [CHR 0x0A]) \<and>
             (sent = line @ [CHR 0x0A] \<or> client \<in> set (sv_pending_disconnects sv'))) \<and>
     sv_read_buffers sv' = sv_read_buffers sv \<and>
     distinct (sv_pending_disconnects sv') = distinct (sv_pending_disconnects sv)"
proof (cases "sv_read_buffers sv client")
  case None
  then show ?thesis by (simp add: send_line_def)
next
  case (Some b)
  obtain ok sent ws where w: "write_loop (sv_kernel sv) (line @ [CHR 0x0A]) = (ok, sent, ws)"
    by (cases "write_loop (sv_kernel sv) (line @ [CHR 0x0A])")
  from write_loop_result [OF w] Some w show ?thesis
    by (auto simp: send_line_def Let_def)
qed

section \<open>Disconnecting\<close>

definition record_disconnect :: "client_id list disconnect_callback" where
  "record_disconnect fd s = (fst s, snd s @ [fd])"

lemma disconnect_recorded:
  "distinct fds \<Longrightarrow>
     fold (disconnect_client record_disconnect) fds (sv, w) =
       (sv\<lparr>sv_read_buffers := (\<lambda>c. if c \<in> set fds then None else sv_read_buffers sv c),
           sv_open := sv_open sv - (set fds \<inter> dom (sv_read_buffers sv))\<rparr>,
        w @ filter (\<lambda>fd. sv_read_buffers sv fd \<noteq> None) fds)"
proof (induction fds arbitrary: sv w)
  case Nil
  show ?case by simp
next
  case (Cons fd fds)
  show ?case
  proof (cases "sv_read_buffers sv fd")
    case None
    then have "disconnect_client record_disconnect fd (sv, w) = (sv, w)" by (simp add: disconnect_client_def)
    moreover have "(\<lambda>c. if c \<in> set fds then None else sv_read_buffers sv c) =
        (\<lambda>c. if c \<in> set (fd # fds) then None else sv_read_buffers sv c)" using None by auto
    moreover have "set (fd # fds) \<inter> dom (sv_read_buffers sv) = set fds \<inter> dom (sv_read_buffers sv)" using None by auto
    ultimately show ?thesis using Cons.IH [of sv w] Cons.prems None by simp
  next
    case (Some b)
    let ?sv = "sv\<lparr>sv_read_buffers := (sv_read_buffers sv)(fd := None), sv_open := sv_open sv - {fd}\<rparr>"
    have step: "disconnect_client record_disconnect fd (sv, w) = (?sv, w @ [fd])"
      using Some by (simp add: disconnect_client_def record_disconnect_def)
    have "(\<lambda>c. if c \<in> set fds then None else sv_read_buffers ?sv c) =
        (\<lambda>c. if c \<in> set (fd # fds) then None else sv_read_buffers sv c)" by auto
    moreover have "sv_open ?sv - (set fds \<inter> dom (sv_read_buffers ?sv)) =
        sv_open sv - (set (fd # fds) \<inter> dom (sv_read_buffers sv))" using Some Cons.prems by auto
    moreover have "filter (\<lambda>x. sv_read_buffers ?sv x \<noteq> None) fds = filter (\<lambda>x. sv_read_buffers sv x \<noteq> None) fds"
      using Cons.prems by (auto intro: filter_cong)
    ultimately show ?thesis
      using Cons.IH [of ?sv "w @ [fd]"] Cons.prems Some by (simp only: fold_simps step) simp
  qed
qed

text \<open>
  A client the server gave up on is closed and reported exactly once. At the start of the next
  poll every scheduled client that is still connected is removed, its descriptor closed, and
  \<^verbatim>\<open>on_disconnect\<close> called for it once, in the order they were scheduled; a scheduled client that was
  closed in the meantime is skipped, so a descriptor the kernel reuses afterwards is never hit.
\<close>

theorem doomed_clients_reported_once:
  assumes "distinct (sv_pending_disconnects sv)"
  shows "disconnect_pending record_disconnect (sv, []) =
     (sv\<lparr>sv_read_buffers := (\<lambda>c. if c \<in> set (sv_pending_disconnects sv) then None else sv_read_buffers sv c),
         sv_open := sv_open sv - (set (sv_pending_disconnects sv) \<inter> dom (sv_read_buffers sv)),
         sv_pending_disconnects := []\<rparr>,
      filter (\<lambda>fd. sv_read_buffers sv fd \<noteq> None) (sv_pending_disconnects sv))"
  using disconnect_recorded [OF assms, of sv "[]"] by (simp add: disconnect_pending_def)

theorem doomed_clients_reported_once_witness:
  "snd (disconnect_pending record_disconnect
     ((new_ipc_server ''s'' [])\<lparr>sv_read_buffers := [7 \<mapsto> ''''], sv_pending_disconnects := [9, 7]\<rparr>, [])) = [7]"
  using doomed_clients_reported_once [of "(new_ipc_server ''s'' [])\<lparr>sv_read_buffers := [7 \<mapsto> ''''], sv_pending_disconnects := [9, 7]\<rparr>"]
  by simp

section \<open>The server's invariant\<close>

definition buffer_ok :: "string \<Rightarrow> bool" where
  "buffer_ok b \<longleftrightarrow> length b \<le> kMaxLineBytes \<and> CHR 0x0A \<notin> set b"

definition server_inv :: "ipc_server \<Rightarrow> bool" where
  "server_inv sv \<longleftrightarrow> sv_open sv = dom (sv_read_buffers sv) \<and>
     (\<forall>fd b. sv_read_buffers sv fd = Some b \<longrightarrow> buffer_ok b) \<and>
     (\<not> sv_listening sv \<longrightarrow> sv_read_buffers sv = (\<lambda>_. None)) \<and> (sv_wake_open sv \<longleftrightarrow> sv_listening sv)"

lemma server_inv_new: "server_inv (new_ipc_server p ws)"
  by (simp add: server_inv_def new_ipc_server_def)

lemma server_inv_send: "server_inv sv \<Longrightarrow> server_inv (send_line c line sv)"
  by (simp add: server_inv_def)

lemma server_inv_start: "server_inv sv \<Longrightarrow> server_inv (snd (sv_start env sv))"
  by (auto simp: server_inv_def sv_start_def Let_def split: option.splits)

lemma server_inv_stop: "server_inv sv \<Longrightarrow> server_inv (sv_stop sv)"
  by (auto simp: server_inv_def sv_stop_def)

lemma server_inv_wake: "server_inv sv \<Longrightarrow> server_inv (sv_wake sv)"
  by (simp add: server_inv_def sv_wake_def)

text \<open>Every client is within bounds, except those about to be disconnected.\<close>

definition reading_inv :: "ipc_server \<Rightarrow> client_id list \<Rightarrow> bool" where
  "reading_inv sv gone \<longleftrightarrow> sv_listening sv \<and> sv_wake_open sv \<and> sv_open sv = dom (sv_read_buffers sv) \<and>
     (\<forall>fd b. sv_read_buffers sv fd = Some b \<longrightarrow> CHR 0x0A \<notin> set b \<and> (length b \<le> kMaxLineBytes \<or> fd \<in> set gone))"

text \<open>What the server relies on: its callbacks leave the registry of clients alone.\<close>

locale server_callbacks =
  fixes on_line :: "'w line_callback" and on_disconnect :: "'w disconnect_callback"
  assumes line_keeps:
      "sv_read_buffers (fst (on_line fd l s)) = sv_read_buffers (fst s)"
      "sv_open (fst (on_line fd l s)) = sv_open (fst s)"
      "sv_listening (fst (on_line fd l s)) = sv_listening (fst s)"
      "sv_wake_open (fst (on_line fd l s)) = sv_wake_open (fst s)"
    and disconnect_keeps:
      "sv_read_buffers (fst (on_disconnect fd s)) = sv_read_buffers (fst s)"
      "sv_open (fst (on_disconnect fd s)) = sv_open (fst s)"
      "sv_listening (fst (on_disconnect fd s)) = sv_listening (fst s)"
      "sv_wake_open (fst (on_disconnect fd s)) = sv_wake_open (fst s)"
begin

lemma deliver_keeps:
  "sv_read_buffers (fst s) fd = Some buffer \<Longrightarrow>
     sv_read_buffers (fst (deliver_lines on_line fd buffer s)) = (sv_read_buffers (fst s))(fd \<mapsto> snd (frames buffer)) \<and>
     sv_open (fst (deliver_lines on_line fd buffer s)) = sv_open (fst s) \<and>
     sv_listening (fst (deliver_lines on_line fd buffer s)) = sv_listening (fst s) \<and>
     sv_wake_open (fst (deliver_lines on_line fd buffer s)) = sv_wake_open (fst s)"
proof (induction buffer arbitrary: s rule: measure_induct_rule [of length])
  case (less buffer)
  show ?case
  proof (cases "CHR 0x0A \<in> set buffer")
    case False
    with less.prems show ?thesis by (simp add: deliver_lines.simps fun_upd_idem)
  next
    case True
    let ?line = "takeWhile (\<lambda>c. c \<noteq> CHR 0x0A) buffer"
    let ?rest = "drop (Suc (length ?line)) buffer"
    let ?s = "on_line fd ?line (fst s\<lparr>sv_read_buffers := (sv_read_buffers (fst s))(fd \<mapsto> ?rest)\<rparr>, snd s)"
    have eq: "deliver_lines on_line fd buffer s = deliver_lines on_line fd ?rest ?s"
      using True by (subst deliver_lines.simps) (simp add: Let_def)
    have "length ?rest < length buffer" using True by (auto intro!: diff_less simp: length_pos_if_in_set)
    moreover have "sv_read_buffers (fst ?s) fd = Some ?rest" by (simp add: line_keeps)
    ultimately show ?thesis
      unfolding eq using less.IH [of ?rest ?s] frames_step [OF True] by (auto simp: line_keeps fun_eq_iff)
  qed
qed

lemma read_client_inv:
  assumes "reading_inv (fst s) gone" and "sv_read_buffers (fst s) fd \<noteq> None"
    and "read_client on_line fd r s = (s', g)"
  shows "reading_inv (fst s') (if g then gone @ [fd] else gone) \<and> dom (sv_read_buffers (fst s')) = dom (sv_read_buffers (fst s))"
proof (cases r)
  case (ReadData bytes)
  obtain b where b: "sv_read_buffers (fst s) fd = Some b" using assms(2) by blast
  let ?buffer = "b @ take kReadChunkSize bytes"
  let ?s1 = "(fst s\<lparr>sv_read_buffers := (sv_read_buffers (fst s))(fd \<mapsto> ?buffer)\<rparr>, snd s)"
  have s': "s' = deliver_lines on_line fd ?buffer ?s1"
    and g: "g = (case sv_read_buffers (fst s') fd of None \<Rightarrow> False | Some b \<Rightarrow> length b > kMaxLineBytes)"
    using assms(3) ReadData b by (auto simp: read_client_def Let_def)
  have keep: "sv_read_buffers (fst s') = (sv_read_buffers (fst s))(fd \<mapsto> snd (frames ?buffer))"
    "sv_open (fst s') = sv_open (fst s)" "sv_listening (fst s') = sv_listening (fst s)"
    "sv_wake_open (fst s') = sv_wake_open (fst s)"
    using deliver_keeps [of ?s1 fd ?buffer] by (simp_all add: s')
  have "dom (sv_read_buffers (fst s')) = dom (sv_read_buffers (fst s))" using b by (auto simp: keep)
  moreover have "reading_inv (fst s') (if g then gone @ [fd] else gone)"
    using assms(1) calculation g by (auto simp: reading_inv_def keep split: if_splits)
  ultimately show ?thesis by simp
qed (use assms in \<open>auto simp: read_client_def reading_inv_def\<close>)

lemma read_loop_inv:
  assumes "reading_inv (fst s) gone" and "polled \<subseteq> dom (sv_read_buffers (fst s))"
    and "read_loop on_line polled rs s gone = (s', gone')"
  shows "reading_inv (fst s') gone' \<and> dom (sv_read_buffers (fst s')) = dom (sv_read_buffers (fst s))"
  using assms
proof (induction rs arbitrary: s gone)
  case (Cons x rs)
  obtain fd r where x: "x = (fd, r)" by (cases x)
  show ?case
  proof (cases "fd \<in> polled")
    case False
    with Cons.prems Cons.IH [of s gone] show ?thesis by (simp add: x)
  next
    case True
    obtain s1 g where r: "read_client on_line fd r s = (s1, g)" by (cases "read_client on_line fd r s")
    from True Cons.prems(2) have "sv_read_buffers (fst s) fd \<noteq> None" by auto
    from read_client_inv [OF Cons.prems(1) this r] Cons.prems True Cons.IH [of s1 "if g then gone @ [fd] else gone"] show ?thesis
      by (simp add: x r)
  qed
qed simp

lemma disconnect_client_keeps:
  "sv_listening (fst (disconnect_client on_disconnect fd s)) = sv_listening (fst s)"
  "sv_read_buffers (fst (disconnect_client on_disconnect fd s)) = (sv_read_buffers (fst s))(fd := None)"
  "sv_open (fst s) = dom (sv_read_buffers (fst s)) \<Longrightarrow>
     sv_open (fst (disconnect_client on_disconnect fd s)) = dom (sv_read_buffers (fst s)) - {fd}"
  "sv_wake_open (fst (disconnect_client on_disconnect fd s)) = sv_wake_open (fst s)"
  by (cases s; auto simp: disconnect_client_def disconnect_keeps fun_upd_idem)+

lemma disconnects_keep:
  "sv_open (fst s) = dom (sv_read_buffers (fst s)) \<Longrightarrow>
     sv_listening (fst (fold (disconnect_client on_disconnect) fds s)) = sv_listening (fst s) \<and>
     sv_wake_open (fst (fold (disconnect_client on_disconnect) fds s)) = sv_wake_open (fst s) \<and>
     sv_read_buffers (fst (fold (disconnect_client on_disconnect) fds s)) =
       (\<lambda>c. if c \<in> set fds then None else sv_read_buffers (fst s) c) \<and>
     sv_open (fst (fold (disconnect_client on_disconnect) fds s)) = dom (sv_read_buffers (fst s)) - set fds"
proof (induction fds arbitrary: s)
  case (Cons fd fds)
  let ?s = "disconnect_client on_disconnect fd s"
  have op: "sv_open (fst ?s) = dom (sv_read_buffers (fst ?s))"
    using disconnect_client_keeps(2,3) [where fd = fd and s = s] Cons.prems by auto
  have dm: "dom (sv_read_buffers (fst ?s)) = dom (sv_read_buffers (fst s)) - {fd}"
    and ap: "sv_read_buffers (fst ?s) c = (if c = fd then None else sv_read_buffers (fst s) c)" for c
    by (simp_all add: disconnect_client_keeps(2))
  show ?case
    unfolding fold_simps using Cons.IH [OF op] unfolding disconnect_client_keeps(1,4) dm ap by (auto split: if_splits)
qed auto

lemma disconnects_inv:
  assumes "reading_inv (fst s) fds"
  shows "server_inv (fst (fold (disconnect_client on_disconnect) fds s)) \<and> sv_listening (fst (fold (disconnect_client on_disconnect) fds s))"
  using assms disconnects_keep [of s fds]
  by (auto simp: reading_inv_def server_inv_def buffer_ok_def split: if_splits)

lemma accept_loop_inv:
  "reading_inv sv gone \<Longrightarrow>
     reading_inv (accept_loop rs sv) gone \<and> dom (sv_read_buffers sv) \<subseteq> dom (sv_read_buffers (accept_loop rs sv))"
proof (induction rs sv rule: accept_loop.induct)
  case (3 fd rs sv)
  let ?sv = "sv\<lparr>sv_read_buffers := (sv_read_buffers sv)(fd := Some (case sv_read_buffers sv fd of None \<Rightarrow> '''' | Some b \<Rightarrow> b)),
           sv_open := insert fd (sv_open sv), sv_sent := (sv_sent sv)(fd := '''')\<rparr>"
  have "reading_inv ?sv gone"
    using "3.prems" by (auto simp: reading_inv_def split: if_splits option.splits)
  moreover have "dom (sv_read_buffers sv) \<subseteq> dom (sv_read_buffers ?sv)" by auto
  ultimately show ?case using "3.IH" by (simp only: accept_loop.simps) blast
qed auto

lemma disconnect_pending_fst:
  "fst (disconnect_pending on_disconnect s) =
     (fst (fold (disconnect_client on_disconnect) (sv_pending_disconnects (fst s)) s))\<lparr>sv_pending_disconnects := []\<rparr>"
  "snd (disconnect_pending on_disconnect s) = snd (fold (disconnect_client on_disconnect) (sv_pending_disconnects (fst s)) s)"
  by (simp_all add: disconnect_pending_def split: prod.splits)

lemma disconnect_pending_inv:
  assumes "server_inv (fst s)" and "sv_listening (fst s)"
  shows "server_inv (fst (disconnect_pending on_disconnect s)) \<and> sv_listening (fst (disconnect_pending on_disconnect s))"
proof -
  have "reading_inv (fst s) (sv_pending_disconnects (fst s))"
    using assms by (auto simp: reading_inv_def server_inv_def buffer_ok_def)
  from disconnects_inv [OF this] show ?thesis by (auto simp: disconnect_pending_fst server_inv_def)
qed

lemma accept_after_pending:
  assumes "server_inv sv" and "sv_listening sv"
  shows "reading_inv (accept_loop rs (if wk then sv\<lparr>sv_wake_pending := False\<rparr> else sv)) [] \<and>
     dom (sv_read_buffers sv) \<subseteq> dom (sv_read_buffers (accept_loop rs (if wk then sv\<lparr>sv_wake_pending := False\<rparr> else sv)))"
proof -
  have "reading_inv (if wk then sv\<lparr>sv_wake_pending := False\<rparr> else sv) []"
    using assms by (auto simp: reading_inv_def server_inv_def buffer_ok_def)
  from accept_loop_inv [OF this, of rs] show ?thesis by (simp split: if_splits)
qed

lemma poll_once_inv:
  assumes "server_inv (fst s)"
  shows "server_inv (fst (poll_once env on_line on_disconnect s)) \<and>
     sv_listening (fst (poll_once env on_line on_disconnect s)) = sv_listening (fst s)"
proof (cases "sv_listening (fst s)")
  case False
  with assms show ?thesis by (simp add: poll_once_def)
next
  case True
  obtain sv1 w1 where dp: "disconnect_pending on_disconnect s = (sv1, w1)" by (cases "disconnect_pending on_disconnect s")
  with disconnect_pending_inv [OF assms True] have inv1: "server_inv sv1" "sv_listening sv1" by simp_all
  show ?thesis
  proof (cases env)
    case None
    with True dp inv1 show ?thesis by (simp add: poll_once_def)
  next
    case (Some e)
    let ?sv3 = "accept_loop (pe_accepts e) (if pe_wake e then sv1\<lparr>sv_wake_pending := False\<rparr> else sv1)"
    obtain s4 gone where rl: "read_loop on_line (dom (sv_read_buffers sv1)) (pe_reads e) (?sv3, w1) [] = (s4, gone)" by fastforce
    from read_loop_inv [of "(?sv3, w1)" "[]", OF _ _ rl] accept_after_pending [OF inv1] have "reading_inv (fst s4) gone" by simp
    from disconnects_inv [OF this] True Some dp rl show ?thesis by (simp add: poll_once_def Let_def)
  qed
qed

end

section \<open>Clients the rest of the process remembers\<close>

text \<open>
  A client of the server that keeps a set of clients of its own (the event bridge): it adds only the
  client whose line it is handling, and forgets a client that disconnects. Then it never remembers a
  client that is not connected, so a descriptor the kernel reuses starts afresh.
\<close>

locale server_clients = server_callbacks on_line on_disconnect
  for on_line :: "'w line_callback" and on_disconnect :: "'w disconnect_callback" +
  fixes clients :: "'w \<Rightarrow> client_id set"
  assumes line_clients: "clients (snd (on_line fd l s)) \<subseteq> insert fd (clients (snd s))"
    and disconnect_clients: "clients (snd (on_disconnect fd s)) \<subseteq> clients (snd s) - {fd}"
begin

lemma deliver_clients:
  "clients (snd s) \<subseteq> D \<Longrightarrow> fd \<in> D \<Longrightarrow> clients (snd (deliver_lines on_line fd buffer s)) \<subseteq> D"
proof (induction buffer arbitrary: s rule: measure_induct_rule [of length])
  case (less buffer)
  show ?case
  proof (cases "CHR 0x0A \<in> set buffer")
    case False
    with less.prems show ?thesis by (simp add: deliver_lines.simps)
  next
    case True
    let ?line = "takeWhile (\<lambda>c. c \<noteq> CHR 0x0A) buffer"
    let ?rest = "drop (Suc (length ?line)) buffer"
    let ?s = "on_line fd ?line (fst s\<lparr>sv_read_buffers := (sv_read_buffers (fst s))(fd \<mapsto> ?rest)\<rparr>, snd s)"
    have "clients (snd ?s) \<subseteq> D" using line_clients [of fd ?line] less.prems by fastforce
    moreover have "length ?rest < length buffer" using True by (auto intro!: diff_less simp: length_pos_if_in_set)
    moreover have "deliver_lines on_line fd buffer s = deliver_lines on_line fd ?rest ?s"
      using True by (subst deliver_lines.simps) (simp add: Let_def)
    ultimately show ?thesis using less.IH less.prems(2) by simp
  qed
qed

lemma read_client_clients:
  "clients (snd s) \<subseteq> D \<Longrightarrow> fd \<in> D \<Longrightarrow> clients (snd (fst (read_client on_line fd r s))) \<subseteq> D"
  by (cases r) (simp_all add: read_client_def Let_def deliver_clients)

lemma read_loop_clients:
  "polled \<subseteq> D \<Longrightarrow> clients (snd s) \<subseteq> D \<Longrightarrow> clients (snd (fst (read_loop on_line polled rs s gone))) \<subseteq> D"
proof (induction rs arbitrary: s gone)
  case (Cons x rs)
  obtain fd r where x: "x = (fd, r)" by (cases x)
  obtain s1 g where r: "read_client on_line fd r s = (s1, g)" by (cases "read_client on_line fd r s")
  have "fd \<in> polled \<Longrightarrow> clients (snd s1) \<subseteq> D" using read_client_clients [of s D fd r] Cons.prems r by auto
  with Cons show ?case by (simp add: x r)
qed simp

lemma disconnects_clients:
  "clients (snd s) \<subseteq> dom (sv_read_buffers (fst s)) \<Longrightarrow>
     clients (snd (fold (disconnect_client on_disconnect) fds s)) \<subseteq>
       dom (sv_read_buffers (fst (fold (disconnect_client on_disconnect) fds s)))"
proof (induction fds arbitrary: s)
  case (Cons fd fds)
  have "clients (snd (disconnect_client on_disconnect fd s)) \<subseteq> dom (sv_read_buffers (fst (disconnect_client on_disconnect fd s)))"
  proof (cases "sv_read_buffers (fst s) fd")
    case None
    with Cons.prems show ?thesis by (cases s) (simp add: disconnect_client_def)
  next
    case (Some b)
    then have "clients (snd (disconnect_client on_disconnect fd s)) \<subseteq> clients (snd s) - {fd}"
      using disconnect_clients [of fd] by (cases s) (fastforce simp: disconnect_client_def)
    with Cons.prems show ?thesis by (auto simp: disconnect_client_keeps(2))
  qed
  from Cons.IH [OF this] show ?case by simp
qed simp

lemma poll_once_clients:
  assumes "server_inv (fst s)" and "clients (snd s) \<subseteq> dom (sv_read_buffers (fst s))"
  shows "clients (snd (poll_once env on_line on_disconnect s)) \<subseteq>
           dom (sv_read_buffers (fst (poll_once env on_line on_disconnect s)))"
proof (cases "sv_listening (fst s)")
  case False
  with assms show ?thesis by (simp add: poll_once_def)
next
  case True
  obtain sv1 w1 where dp: "disconnect_pending on_disconnect s = (sv1, w1)" by (cases "disconnect_pending on_disconnect s")
  with disconnect_pending_inv [OF assms(1) True] have inv1: "server_inv sv1" "sv_listening sv1" by simp_all
  have c1: "clients w1 \<subseteq> dom (sv_read_buffers sv1)"
    using disconnects_clients [OF assms(2)] disconnect_pending_fst [of s] dp by simp
  show ?thesis
  proof (cases env)
    case None
    with True dp c1 show ?thesis by (simp add: poll_once_def)
  next
    case (Some e)
    let ?sv3 = "accept_loop (pe_accepts e) (if pe_wake e then sv1\<lparr>sv_wake_pending := False\<rparr> else sv1)"
    obtain s4 gone where rl: "read_loop on_line (dom (sv_read_buffers sv1)) (pe_reads e) (?sv3, w1) [] = (s4, gone)" by fastforce
    have acc: "reading_inv ?sv3 []" "dom (sv_read_buffers sv1) \<subseteq> dom (sv_read_buffers ?sv3)"
      using accept_after_pending [OF inv1] by blast+
    from read_loop_inv [of "(?sv3, w1)" "[]", OF _ _ rl] acc
    have "dom (sv_read_buffers (fst s4)) = dom (sv_read_buffers ?sv3)" by simp
    moreover have "clients (snd s4) \<subseteq> dom (sv_read_buffers ?sv3)"
      using read_loop_clients [OF acc(2), of "(?sv3, w1)" "pe_reads e" "[]"] c1 acc(2) rl by auto
    ultimately show ?thesis
      using disconnects_clients [of s4 gone] True Some dp rl by (simp add: poll_once_def Let_def)
  qed
qed

end

section \<open>What the callbacks keep of the rest of the process\<close>

locale server_world =
  fixes on_line :: "'w line_callback" and on_disconnect :: "'w disconnect_callback" and I :: "'w \<Rightarrow> bool"
  assumes line_world: "I (snd s) \<Longrightarrow> I (snd (on_line fd l s))"
    and disconnect_world: "I (snd s) \<Longrightarrow> I (snd (on_disconnect fd s))"
begin

lemma deliver_world: "I (snd s) \<Longrightarrow> I (snd (deliver_lines on_line fd buffer s))"
proof (induction buffer arbitrary: s rule: measure_induct_rule [of length])
  case (less buffer)
  show ?case
  proof (cases "CHR 0x0A \<in> set buffer")
    case True
    then have "length (drop (Suc (length (takeWhile (\<lambda>c. c \<noteq> CHR 0x0A) buffer))) buffer) < length buffer"
      by (auto intro!: diff_less simp: length_pos_if_in_set)
    from less.IH [OF this] True less.prems show ?thesis
      by (subst deliver_lines.simps) (simp add: Let_def line_world)
  qed (use less.prems in \<open>simp add: deliver_lines.simps\<close>)
qed

lemma read_client_world: "I (snd s) \<Longrightarrow> I (snd (fst (read_client on_line fd r s)))"
  by (cases r) (simp_all add: read_client_def Let_def deliver_world)

lemma read_loop_world: "I (snd s) \<Longrightarrow> I (snd (fst (read_loop on_line polled rs s gone)))"
proof (induction rs arbitrary: s gone)
  case (Cons x rs)
  obtain fd r where x: "x = (fd, r)" by (cases x)
  obtain s1 g where r: "read_client on_line fd r s = (s1, g)" by (cases "read_client on_line fd r s")
  have "I (snd s1)" using read_client_world [OF Cons.prems, of fd r] r by simp
  with Cons show ?case by (simp add: x r)
qed simp

lemma disconnect_client_world: "I (snd s) \<Longrightarrow> I (snd (disconnect_client on_disconnect fd s))"
  using disconnect_world by (cases s) (fastforce simp: disconnect_client_def)

lemma disconnects_world: "I (snd s) \<Longrightarrow> I (snd (fold (disconnect_client on_disconnect) fds s))"
  by (induction fds arbitrary: s) (simp_all add: disconnect_client_world)

lemma poll_once_world:
  assumes "I (snd s)"
  shows "I (snd (poll_once env on_line on_disconnect s))"
proof -
  obtain sv1 w1 where dp: "disconnect_pending on_disconnect s = (sv1, w1)" by (cases "disconnect_pending on_disconnect s")
  have w1: "I w1"
    using dp disconnects_world [OF assms, of "sv_pending_disconnects (fst s)"]
    by (auto simp: disconnect_pending_def split: prod.splits)
  show ?thesis
  proof (cases "\<not> sv_listening (fst s) \<or> env = None")
    case True
    then show ?thesis using assms w1 dp by (auto simp: poll_once_def)
  next
    case False
    then obtain e where e: "env = Some e" by blast
    let ?sv3 = "accept_loop (pe_accepts e) (if pe_wake e then sv1\<lparr>sv_wake_pending := False\<rparr> else sv1)"
    obtain s4 gone where rl: "read_loop on_line (dom (sv_read_buffers sv1)) (pe_reads e) (?sv3, w1) [] = (s4, gone)" by fastforce
    have "I (snd s4)"
      using read_loop_world [of "(?sv3, w1)" "dom (sv_read_buffers sv1)" "pe_reads e" "[]"] w1 rl by simp
    from disconnects_world [OF this, of gone] False e dp rl show ?thesis by (simp add: poll_once_def Let_def)
  qed
qed

end

end
