(* ===== verification/Model_Repository.thy ===== *)
theory Model_Repository
  imports Domain_Model Paths
begin

text \<open>
  The speech domain's model repository (\<^verbatim>\<open>src/domains/speech/model_repository.cpp\<close>): which files of
  the models directory are recognised as whisper.cpp models, and what their names say. The directory
  listing is an argument: opening the directory may fail, and each entry comes with what
  \<^verbatim>\<open>is_regular_file\<close> answers. A scan that fails midway is the list of the entries before.
\<close>

definition to_lower :: "string \<Rightarrow> string" where
  "to_lower s = map tolower s"

definition token_delimiter :: "char \<Rightarrow> bool" where
  "token_delimiter c \<longleftrightarrow> c = CHR ''-'' \<or> c = CHR ''.'' \<or> c = CHR ''_''"

fun split_tokens_loop :: "string \<Rightarrow> string \<Rightarrow> string list \<Rightarrow> string list" where
  "split_tokens_loop [] current tokens = (if current \<noteq> [] then tokens @ [current] else tokens)"
| "split_tokens_loop (c # cs) current tokens =
     (if token_delimiter c
      then (if current \<noteq> [] then split_tokens_loop cs [] (tokens @ [current])
            else split_tokens_loop cs current tokens)
      else split_tokens_loop cs (current @ [c]) tokens)"

definition split_tokens :: "string \<Rightarrow> string list" where
  "split_tokens s = split_tokens_loop s [] []"

definition kSizeTokens :: "string \<Rightarrow> model_size option" where
  "kSizeTokens = map_of [(''tiny'', Tiny), (''base'', Base), (''small'', Small),
                         (''medium'', Medium), (''large'', Large)]"

fun infer_size :: "string list \<Rightarrow> model_size option" where
  "infer_size [] = None"
| "infer_size (t # ts) = (case kSizeTokens t of Some z \<Rightarrow> Some z | None \<Rightarrow> infer_size ts)"

definition infer_supported_language :: "string list \<Rightarrow> string" where
  "infer_supported_language tokens = (if ''en'' \<in> set tokens then ''en'' else ''multi'')"

record dir_entry =
  entry_path :: path
  entry_regular :: bool
  entry_type_error :: bool

text \<open>One round of the scan: the model an entry stands for, if any.\<close>

definition entry_model :: "dir_entry \<Rightarrow> model option" where
  "entry_model e =
     (if extension (entry_path e) \<noteq> ''.bin'' then None
      else if \<not> entry_regular e \<or> entry_type_error e then None
      else let tokens = split_tokens (to_lower (filename (entry_path e)))
           in case infer_size tokens of
                None \<Rightarrow> None
              | Some z \<Rightarrow> Some \<lparr>model_name = stem (entry_path e), model_size_of = z,
                                supported_language = infer_supported_language tokens,
                                model_path = entry_path e, model_backend = ''whisper.cpp''\<rparr>)"

fun list_models_loop :: "dir_entry list \<Rightarrow> model list \<Rightarrow> model list" where
  "list_models_loop [] models = models"
| "list_models_loop (e # es) models =
     (case entry_model e of
        None \<Rightarrow> list_models_loop es models
      | Some m \<Rightarrow> list_models_loop es (models @ [m]))"

definition list_available_models :: "dir_entry list option \<Rightarrow> model list" where
  "list_available_models listing =
     (case listing of None \<Rightarrow> [] | Some entries \<Rightarrow> list_models_loop entries [])"

definition find_model :: "model list \<Rightarrow> string \<Rightarrow> model option" where
  "find_model available name = find (\<lambda>m. model_name m = name) available"

section \<open>Tokens\<close>

lemma split_tokens_loop_chunks:
  "split_tokens_loop s current tokens = tokens @ chunks_from token_delimiter current s"
  by (induction s current tokens rule: split_tokens_loop.induct) auto

lemma split_tokens_chunks: "split_tokens s = chunks token_delimiter s"
  by (simp add: split_tokens_def chunks_def split_tokens_loop_chunks)

lemma infer_size_find: "infer_size ts = Option.bind (find (\<lambda>t. kSizeTokens t \<noteq> None) ts) kSizeTokens"
  by (induction ts) (auto split: option.splits)

lemma infer_size_None: "infer_size ts = None \<longleftrightarrow> (\<forall>t \<in> set ts. kSizeTokens t = None)"
  by (induction ts) (auto split: option.splits)

lemma infer_size_append: "infer_size (ts @ us) = (case infer_size ts of None \<Rightarrow> infer_size us | Some z \<Rightarrow> Some z)"
  by (induction ts) (auto split: option.splits)

definition first_size :: "string list \<Rightarrow> model_size \<Rightarrow> bool" where
  "first_size tokens z \<longleftrightarrow>
     (\<exists>before t after. tokens = before @ t # after \<and> (\<forall>b \<in> set before. kSizeTokens b = None) \<and>
        kSizeTokens t = Some z)"

lemma infer_size_first: "infer_size ts = Some z \<longleftrightarrow> first_size ts z"
proof
  assume "infer_size ts = Some z"
  then obtain t where "find (\<lambda>t. kSizeTokens t \<noteq> None) ts = Some t" and z: "kSizeTokens t = Some z"
    by (auto simp: infer_size_find bind_eq_Some_conv)
  then obtain before after where "ts = before @ t # after" and "\<forall>b \<in> set before. kSizeTokens b = None"
    by (auto simp: find_Some_split)
  with z show "first_size ts z" by (auto simp: first_size_def)
next
  assume "first_size ts z"
  then obtain before t after where "ts = before @ t # after"
    and "infer_size before = None" and "kSizeTokens t = Some z"
    by (auto simp: first_size_def infer_size_None)
  then show "infer_size ts = Some z" by (simp add: infer_size_append)
qed

section \<open>The scan\<close>

lemma stem_iff: "extension p = ext \<Longrightarrow> n = stem p \<longleftrightarrow> n @ ext = filename p"
  using stem_extension [of p] by (metis append_same_eq)

lemma entry_model_Some:
  "entry_model e = Some m \<longleftrightarrow>
     (let tokens = chunks token_delimiter (map tolower (filename (entry_path e))) in
        extension (entry_path e) = ''.bin'' \<and> entry_regular e \<and> \<not> entry_type_error e \<and>
        first_size tokens (model_size_of m) \<and>
        model_name m @ ''.bin'' = filename (entry_path e) \<and> model_path m = entry_path e \<and>
        supported_language m = (if ''en'' \<in> set tokens then ''en'' else ''multi'') \<and>
        model_backend m = ''whisper.cpp'')"
proof (cases "extension (entry_path e) = ''.bin''")
  case True
  show ?thesis
    by (cases m) (auto simp: entry_model_def Let_def True split_tokens_chunks to_lower_def
        infer_supported_language_def stem_iff [OF True, symmetric]
        simp flip: infer_size_first split: option.splits)
qed (simp add: entry_model_def Let_def)

lemma list_models_loop_map: "list_models_loop es models = models @ List.map_filter entry_model es"
  by (induction es models rule: list_models_loop.induct) (auto split: option.splits)

lemma list_available_models_map:
  "list_available_models (Some es) = List.map_filter entry_model es"
  by (simp add: list_available_models_def list_models_loop_map)

text \<open>
  C28: size markers are matched as whole tokens, never as substrings. The tokens of a file name are
  its maximal runs free of \<^verbatim>\<open>-\<close>, \<^verbatim>\<open>.\<close> and \<^verbatim>\<open>_\<close>; a file is listed as a model exactly when it is a
  regular \<^verbatim>\<open>.bin\<close> file one of whose lower-cased tokens is a size; the first such token decides the
  size, the token \<^verbatim>\<open>en\<close> the language, and the name is the file name without \<^verbatim>\<open>.bin\<close>.
\<close>

theorem list_available_models_complete:
  "m \<in> set (list_available_models (Some entries)) \<longleftrightarrow>
     (\<exists>e \<in> set entries. let tokens = chunks token_delimiter (map tolower (filename (entry_path e))) in
        extension (entry_path e) = ''.bin'' \<and> entry_regular e \<and> \<not> entry_type_error e \<and>
        first_size tokens (model_size_of m) \<and>
        model_name m @ ''.bin'' = filename (entry_path e) \<and> model_path m = entry_path e \<and>
        supported_language m = (if ''en'' \<in> set tokens then ''en'' else ''multi'') \<and>
        model_backend m = ''whisper.cpp'')"
  by (auto simp: list_available_models_map map_filter_def entry_model_Some image_iff
      simp flip: entry_model_Some)

text \<open>
  Looking a model up by name returns the first listed model of that name, and nothing exactly
  when there is none; every model found carries the name asked for.
\<close>

theorem find_model_first:
  "(find_model ms n = Some m \<longleftrightarrow>
     (\<exists>before after. ms = before @ m # after \<and> model_name m = n \<and> (\<forall>b \<in> set before. model_name b \<noteq> n))) \<and>
   (find_model ms n = None \<longleftrightarrow> n \<notin> model_name ` set ms)"
  by (auto simp: find_model_def find_Some_split find_None_iff)

lemma database_is_not_base: "infer_size (split_tokens ''notes-database.bin'') = None"
  by (simp add: split_tokens_def token_delimiter_def kSizeTokens_def)

end
