(* ===== verification/Daemon.thy ===== *)
theory Daemon
  imports Event_Bus Logger Live_Transcriber Configuration Clipboard Message_Codec Ipc_Server Model_Repository
begin

text \<open>
  The composition root (\<^verbatim>\<open>src/app/main.cpp\<close>) with the rest of the IPC domain: \<^verbatim>\<open>CommandDispatcher\<close>,
  \<^verbatim>\<open>EventBridge\<close> and \<^verbatim>\<open>IpcService\<close>. The whole process is one record, \<open>daemon\<close>; the event bus holds
  \<open>handler\<close> names, one per closure the code subscribes, and \<open>run_handler\<close> is what the closures do. An
  exception that nobody catches (and a call that never returns) is remembered in \<open>d_abnormal\<close>; from
  then on the process is gone: nothing more is published or sent, and \<open>main\<close> reports no exit status.

  The libraries and the operating system are the fields of \<open>platform\<close>; what they answer to the
  \<open>i\<close>-th line or clipboard copy is a function of \<open>i\<close>.
\<close>

section \<open>The process\<close>

datatype handler =
    LogError | LogEvent | SessionConfigured | PreviewReset | PreviewConfigured
  | ClipboardCopy | ClipboardConfigured | Broadcast

datatype abnormal = DumpThrows | CopyHangs | EmptyOptional | TooDeep

text \<open>What other threads do between two actions of the main thread.\<close>

datatype background = WorkerStep | AudioStep audio_step

record line_env =
  le_background :: "background list"
  le_open :: open_outcome
  le_late :: "audio_step list"
  le_now :: time_point
  le_now' :: time_point
  le_enqueued_at :: time_point
  le_io :: config_io
  le_listing :: "dir_entry list option"

record ('c, 'n) platform =
  pf_json :: json_lib
  pf_toml :: "'n toml_lib"
  pf_whisper :: "'c whisper_api"
  pf_round :: "rat \<Rightarrow> rat"
  pf_line :: "nat \<Rightarrow> line_env"
  pf_copy :: "nat \<Rightarrow> copy_env"
  pf_rank :: "nat \<Rightarrow> client_id \<Rightarrow> nat" \<comment> \<open>iteration order of an unordered set, which an insertion may change\<close>
  pf_time :: "nat \<Rightarrow> tm"

record 'c daemon =
  d_bus :: "(event_kind, handler) event_bus"
  d_log :: log_state
  d_cm :: configuration_manager
  d_fs :: file_system
  d_sm :: "unit session_manager"
  d_lt :: live_transcriber
  d_clip :: auto_clipboard_state
  d_backend :: "'c whisper_backend"
  d_server :: ipc_server
  d_subscribed :: "client_id list"
  d_lines :: nat                 \<comment> \<open>ghost\<close>
  d_copies :: nat                \<comment> \<open>ghost\<close>
  d_trace :: "event list"        \<comment> \<open>ghost: what was published, in order\<close>
  d_abnormal :: "abnormal option"

abbreviation backend_of :: "('c, 'n) platform \<Rightarrow> 'c whisper_backend speech_backend" where
  "backend_of P \<equiv> whisper_vtable (pf_whisper P)"

definition logger :: "('c, 'n) platform \<Rightarrow> log_level \<Rightarrow> string \<Rightarrow> 'c daemon \<Rightarrow> 'c daemon" where
  "logger P level message w =
     w\<lparr>d_log := log (pf_time P (length (clog (d_log w)))) ''main'' level message (d_log w)\<rparr>"

section \<open>Event handlers\<close>

definition session_id_str :: "session_id \<Rightarrow> string" where
  "session_id_str sid = to_string_nat (unat sid)"

definition error_message :: "session_id option \<Rightarrow> string \<Rightarrow> string \<Rightarrow> string" where
  "error_message sid component message =
     component @ '': '' @ message @
       (case sid of Some i \<Rightarrow> '' (session '' @ session_id_str i @ '')'' | None \<Rightarrow> '''')"

text \<open>\<^verbatim>\<open>log_domain_events\<close>: the level and the text for each event.\<close>

fun event_message :: "event \<Rightarrow> log_level \<times> string" where
  "event_message (RecordingStarted sid) =
     (Info, ''recording started (session '' @ session_id_str sid @ '')'')"
| "event_message (RecordingFinished sid r) =
     (Info, ''recording finished (session '' @ session_id_str sid @ '', '' @ to_string_int (duration r) @ ''ms)'')"
| "event_message (TranscriptionQueued sid position) =
     (Info, ''transcription queued (session '' @ session_id_str sid @ '', position '' @ to_string_nat position @ '')'')"
| "event_message (TranscriptionStarted sid) =
     (Info, ''transcription started (session '' @ session_id_str sid @ '')'')"
| "event_message (TranscriptionCompleted sid t) =
     (Info, ''transcription completed (session '' @ session_id_str sid @ '', language '' @ detected_language t @
        '', '' @ to_string_int (processing_time t) @ ''ms)'')"
| "event_message (TranscriptionPartial sid committed tail) =
     (Debug, ''transcription partial (session '' @ session_id_str sid @ ''): committed=\"'' @ committed @
        ''\" tail=\"'' @ tail @ ''\"'')"
| "event_message (ModelLoaded m) = (Info, ''model loaded: '' @ model_name m)"
| "event_message (SessionCancelled sid) =
     (Info, ''session cancelled (session '' @ session_id_str sid @ '')'')"
| "event_message (ConfigurationChanged c) =
     (Info, ''configuration updated (language '' @ default_language c @ '', model '' @ selected_model c @
        '', auto_clipboard '' @ (if auto_clipboard c then ''on'' else ''off'') @ '')'')"
| "event_message (ErrorOccurred sid component message) = (Warn, error_message sid component message)"

text \<open>\<^verbatim>\<open>EventBridge\<close>\<close>

definition bridge_subscribe :: "('c, 'n) platform \<Rightarrow> client_id \<Rightarrow> 'c daemon \<Rightarrow> 'c daemon" where
  "bridge_subscribe P client w =
     (if client \<in> set (d_subscribed w) then w
      else w\<lparr>d_subscribed := sort_key (pf_rank P (d_lines w)) (client # d_subscribed w)\<rparr>)"

definition bridge_unsubscribe :: "client_id \<Rightarrow> 'c daemon \<Rightarrow> 'c daemon" where
  "bridge_unsubscribe client w = w\<lparr>d_subscribed := filter (\<lambda>c. c \<noteq> client) (d_subscribed w)\<rparr>"

definition is_subscribed :: "client_id \<Rightarrow> 'c daemon \<Rightarrow> bool" where
  "is_subscribed client w \<longleftrightarrow> client \<in> set (d_subscribed w)"

definition broadcast :: "('c, 'n) platform \<Rightarrow> event \<Rightarrow> 'c daemon \<Rightarrow> 'c daemon" where
  "broadcast P e w =
     (if d_subscribed w = [] then w
      else case encode_event (pf_json P) e of
        None \<Rightarrow> w\<lparr>d_abnormal := Some DumpThrows\<rparr>
      | Some line \<Rightarrow> w\<lparr>d_server := fold (\<lambda>c. send_line c line) (d_subscribed w) (d_server w)\<rparr>)"

text \<open>
  The clipboard's handler: the copy uses the next \<open>pf_copy\<close>; \<open>pub\<close> is \<^verbatim>\<open>event_bus_.publish\<close>, called
  while the outer event is still being dispatched.
\<close>

definition clipboard_copy ::
  "(event, 'c daemon) publisher \<Rightarrow> ('c, 'n) platform \<Rightarrow> session_id \<Rightarrow> transcript \<Rightarrow> 'c daemon \<Rightarrow> 'c daemon" where
  "clipboard_copy pub P sid t w =
     (let answer = (\<lambda>content. copy (pf_copy P (d_copies w)) content (ac_adapter (d_clip w)))
      in if ac_enabled (d_clip w) \<and> answer (transcript_text t) = None then w\<lparr>d_abnormal := Some CopyHangs\<rparr>
         else ac_on_transcription_completed pub
                (\<lambda>content. case answer content of Some r \<Rightarrow> cr_error r | None \<Rightarrow> None) sid t (d_clip w)
                (if ac_enabled (d_clip w) then w\<lparr>d_copies := Suc (d_copies w)\<rparr> else w))"

fun handler_effect ::
  "(event, 'c daemon) publisher \<Rightarrow> ('c, 'n) platform \<Rightarrow> handler \<Rightarrow> event \<Rightarrow> 'c daemon \<Rightarrow> 'c daemon" where
  "handler_effect pub P LogError e w = logger P (fst (event_message e)) (snd (event_message e)) w"
| "handler_effect pub P LogEvent e w = logger P (fst (event_message e)) (snd (event_message e)) w"
| "handler_effect pub P SessionConfigured e w =
     (case e of ConfigurationChanged c \<Rightarrow> w\<lparr>d_sm := sm_on_configuration_changed c (d_sm w)\<rparr> | _ \<Rightarrow> w)"
| "handler_effect pub P PreviewReset e w = w\<lparr>d_lt := lt_reset (d_lt w)\<rparr>"
| "handler_effect pub P PreviewConfigured e w =
     (case e of ConfigurationChanged c \<Rightarrow> w\<lparr>d_lt := lt_on_configuration_changed c (d_lt w)\<rparr> | _ \<Rightarrow> w)"
| "handler_effect pub P ClipboardCopy e w =
     (case e of TranscriptionCompleted sid t \<Rightarrow> clipboard_copy pub P sid t w | _ \<Rightarrow> w)"
| "handler_effect pub P ClipboardConfigured e w =
     (case e of ConfigurationChanged c \<Rightarrow> w\<lparr>d_clip := ac_on_configuration_changed c (d_clip w)\<rparr> | _ \<Rightarrow> w)"
| "handler_effect pub P Broadcast e w = broadcast P e w"

definition run_handler ::
  "(event, 'c daemon) publisher \<Rightarrow> ('c, 'n) platform \<Rightarrow> handler \<Rightarrow> event \<Rightarrow> 'c daemon \<Rightarrow> 'c daemon \<times> abnormal option" where
  "run_handler pub P h e w = (let w' = handler_effect pub P h e w in (w', d_abnormal w'))"

text \<open>
  Publishing with at most \<open>n\<close> dispatches nested in one another. Two are always enough with the
  subscriptions of \<^verbatim>\<open>main\<close> (\<open>publish_depth\<close>): only the clipboard publishes from a handler, and
  what it publishes reaches only the log and the bridge.
\<close>

fun publish_nested :: "nat \<Rightarrow> ('c, 'n) platform \<Rightarrow> (event, 'c daemon) publisher" where
  "publish_nested 0 P e w = w\<lparr>d_abnormal := Some TooDeep\<rparr>"
| "publish_nested (Suc n) P e w =
     (if d_abnormal w \<noteq> None then w
      else fst (publish d_bus kind_of (run_handler (publish_nested n P) P) e (w\<lparr>d_trace := d_trace w @ [e]\<rparr>)))"

definition daemon_pub :: "('c, 'n) platform \<Rightarrow> (event, 'c daemon) publisher" where
  "daemon_pub P = publish_nested 2 P"

section \<open>Commands\<close>

definition kStartRecording :: string where "kStartRecording = ''start_recording''"
definition kStopRecording :: string where "kStopRecording = ''stop_recording''"
definition kCancelSession :: string where "kCancelSession = ''cancel_session''"
definition kCancelJob :: string where "kCancelJob = ''cancel_job''"
definition kGetState :: string where "kGetState = ''get_state''"
definition kGetConfig :: string where "kGetConfig = ''get_config''"
definition kSetConfig :: string where "kSetConfig = ''set_config''"
definition kListModels :: string where "kListModels = ''list_models''"
definition kSubscribeEvents :: string where "kSubscribeEvents = ''subscribe_events''"
definition kUnsubscribeEvents :: string where "kUnsubscribeEvents = ''unsubscribe_events''"

fun validation_text :: "bool \<Rightarrow> validation_error list \<Rightarrow> string" where
  "validation_text first [] = ''''"
| "validation_text first (e # es) =
     (if first then '' '' else '', '') @ ve_field e @ '': '' @ ve_message e @ validation_text False es"

definition handle_set_config ::
  "('c, 'n) platform \<Rightarrow> line_env \<Rightarrow> string \<Rightarrow> string \<Rightarrow> 'c daemon \<Rightarrow> string option \<times> 'c daemon" where
  "handle_set_config P env type line w =
     (case decode_set_config (pf_json P) line (cm_configuration (d_cm w)) of
        (c, Some e) \<Rightarrow> (encode_error (pf_json P) type e, w)
      | (c, None) \<Rightarrow>
          (case cm_update (daemon_pub P) (pf_toml P) (le_io env) c (d_cm w) (d_fs w) w of
             (errors, cm', trace, w') \<Rightarrow>
               let w'' = w'\<lparr>d_cm := cm', d_fs := last trace\<rparr>
               in if errors \<noteq> []
                  then (encode_error (pf_json P) type (''invalid configuration:'' @ validation_text True errors), w'')
                  else (encode_config (pf_json P) type (cm_configuration (d_cm w'')), w'')))"

definition handle_start_recording ::
  "('c, 'n) platform \<Rightarrow> line_env \<Rightarrow> string \<Rightarrow> 'c daemon \<Rightarrow> string option \<times> 'c daemon" where
  "handle_start_recording P env type w =
     (case start_session (daemon_pub P) (le_open env) (le_now env) (le_now' env) (d_sm w) w of
        (Some (SessionError m), sm', w') \<Rightarrow> (encode_error (pf_json P) type m, w'\<lparr>d_sm := sm'\<rparr>)
      | (None, sm', w') \<Rightarrow> (encode_ack (pf_json P) type, w'\<lparr>d_sm := sm'\<rparr>))"

definition handle_stop_recording ::
  "('c, 'n) platform \<Rightarrow> line_env \<Rightarrow> string \<Rightarrow> 'c daemon \<Rightarrow> string option \<times> 'c daemon" where
  "handle_stop_recording P env type w =
     (case stop_session (daemon_pub P) (le_late env) (le_now env) (le_now' env) (le_enqueued_at env) (d_sm w) w of
        (None, sm', w') \<Rightarrow> (None, w'\<lparr>d_sm := sm', d_abnormal := Some EmptyOptional\<rparr>)
      | (Some (Inr (SessionError m)), sm', w') \<Rightarrow> (encode_error (pf_json P) type m, w'\<lparr>d_sm := sm'\<rparr>)
      | (Some (Inl job), sm', w') \<Rightarrow> (encode_queued (pf_json P) type job, w'\<lparr>d_sm := sm'\<rparr>))"

definition handle_cancel_job ::
  "('c, 'n) platform \<Rightarrow> string \<Rightarrow> string \<Rightarrow> 'c daemon \<Rightarrow> string option \<times> 'c daemon" where
  "handle_cancel_job P type line w =
     (case decode_cancel_job (pf_json P) line of
        None \<Rightarrow> (encode_error (pf_json P) type ''session_id must be a non-negative integer'', w)
      | Some sid \<Rightarrow>
          (case cancel_job (daemon_pub P) sid (d_sm w) w of
             (found, sm', w') \<Rightarrow>
               (if found then encode_ack (pf_json P) type
                else encode_error (pf_json P) type ''no queued job with that session_id'', w'\<lparr>d_sm := sm'\<rparr>)))"

definition handle_cancel_session ::
  "('c, 'n) platform \<Rightarrow> line_env \<Rightarrow> string \<Rightarrow> 'c daemon \<Rightarrow> string option \<times> 'c daemon" where
  "handle_cancel_session P env type w =
     (case cancel_session (daemon_pub P) (le_late env) (d_sm w) w of
        (Some (SessionError m), sm', w') \<Rightarrow> (encode_error (pf_json P) type m, w'\<lparr>d_sm := sm'\<rparr>)
      | (None, sm', w') \<Rightarrow> (encode_ack (pf_json P) type, w'\<lparr>d_sm := sm'\<rparr>))"

definition handle_line :: "('c, 'n) platform \<Rightarrow> line_env \<Rightarrow> string \<Rightarrow> 'c daemon \<Rightarrow> string option \<times> 'c daemon" where
  "handle_line P env line w =
     (case parse_message (pf_json P) line of
        Inr e \<Rightarrow> (encode_error (pf_json P) ''error'' e, w)
      | Inl type \<Rightarrow>
          if type = kStartRecording then handle_start_recording P env type w
          else if type = kStopRecording then handle_stop_recording P env type w
          else if type = kCancelJob then handle_cancel_job P type line w
          else if type = kCancelSession then handle_cancel_session P env type w
          else if type = kGetState then (encode_state (pf_json P) type (status (d_sm w)), w)
          else if type = kGetConfig then (encode_config (pf_json P) type (cm_configuration (d_cm w)), w)
          else if type = kSetConfig then handle_set_config P env type line w
          else if type = kListModels then
            (encode_models (pf_json P) type (list_available_models (le_listing env)), w)
          else (encode_error (pf_json P) type (''unknown command: '' @ type), w))"

section \<open>The IPC service\<close>

text \<open>\<^verbatim>\<open>server_.send_line(client_id, encode...)\<close>: encoding may throw.\<close>

definition send_reply :: "client_id \<Rightarrow> string option \<Rightarrow> 'c daemon \<Rightarrow> 'c daemon" where
  "send_reply client r w =
     (if d_abnormal w \<noteq> None then w
      else case r of
        None \<Rightarrow> w\<lparr>d_abnormal := Some DumpThrows\<rparr>
      | Some line \<Rightarrow> w\<lparr>d_server := send_line client line (d_server w)\<rparr>)"

definition daemon_worker_step :: "('c, 'n) platform \<Rightarrow> 'c daemon \<Rightarrow> 'c daemon" where
  "daemon_worker_step P w =
     (case worker_step (backend_of P) (sm_queue (d_sm w), d_backend w) of
        ((q, b), ring) \<Rightarrow>
          let w' = w\<lparr>d_sm := (d_sm w)\<lparr>sm_queue := q\<rparr>, d_backend := b\<rparr>
          in case ring of None \<Rightarrow> w' | Some _ \<Rightarrow> w'\<lparr>d_server := sv_wake (d_server w')\<rparr>)"

fun background_step :: "('c, 'n) platform \<Rightarrow> background \<Rightarrow> 'c daemon \<Rightarrow> 'c daemon" where
  "background_step P WorkerStep w = daemon_worker_step P w"
| "background_step P (AudioStep a) w =
     w\<lparr>d_sm := (d_sm w)\<lparr>sm_recording_manager := audio_step_exec a (sm_recording_manager (d_sm w))\<rparr>\<rparr>"

definition background_steps :: "('c, 'n) platform \<Rightarrow> background list \<Rightarrow> 'c daemon \<Rightarrow> 'c daemon" where
  "background_steps P ms w = fold (background_step P) ms w"

text \<open>The two callbacks \<^verbatim>\<open>IpcService::poll_once\<close> hands to the server.\<close>

definition handle_message :: "('c, 'n) platform \<Rightarrow> client_id \<Rightarrow> string \<Rightarrow> 'c daemon \<Rightarrow> 'c daemon" where
  "handle_message P client line w =
     (let env = pf_line P (d_lines w);
          w0 = background_steps P (le_background env) (w\<lparr>d_lines := Suc (d_lines w)\<rparr>)
      in if parse_message (pf_json P) line = Inl kSubscribeEvents then
           send_reply client (encode_ack (pf_json P) kSubscribeEvents) (bridge_subscribe P client w0)
         else if parse_message (pf_json P) line = Inl kUnsubscribeEvents then
           send_reply client (encode_ack (pf_json P) kUnsubscribeEvents) (bridge_unsubscribe client w0)
         else
           let (r, w1) = handle_line P env line w0
           in send_reply client r w1)"

definition on_line :: "('c, 'n) platform \<Rightarrow> 'c daemon line_callback" where
  "on_line P client line s =
     (case s of (sv, w) \<Rightarrow>
        if d_abnormal w \<noteq> None then (sv, w)
        else let w' = handle_message P client line (w\<lparr>d_server := sv\<rparr>) in (d_server w', w'))"

definition on_disconnect :: "'c daemon disconnect_callback" where
  "on_disconnect client s = (case s of (sv, w) \<Rightarrow> (sv, bridge_unsubscribe client w))"

definition service_start :: "start_env \<Rightarrow> 'c daemon \<Rightarrow> ipc_error option \<times> 'c daemon" where
  "service_start env w = (case sv_start env (d_server w) of (e, sv) \<Rightarrow> (e, w\<lparr>d_server := sv\<rparr>))"

definition service_stop :: "'c daemon \<Rightarrow> 'c daemon" where
  "service_stop w = w\<lparr>d_server := sv_stop (d_server w)\<rparr>"

definition service_poll :: "('c, 'n) platform \<Rightarrow> poll_env option \<Rightarrow> 'c daemon \<Rightarrow> 'c daemon" where
  "service_poll P env w =
     (case poll_once env (on_line P) on_disconnect (d_server w, w) of (sv, w') \<Rightarrow> w'\<lparr>d_server := sv\<rparr>)"

section \<open>Starting up\<close>

record boot_env =
  bo_environment :: environment
  bo_io :: config_io
  bo_fs :: file_system
  bo_listing :: "dir_entry list option"
  bo_exists :: "string \<Rightarrow> string + bool"
  bo_answers :: "write_answer list"
  bo_start :: start_env

definition log_domain_events :: "(event_kind, handler) event_bus \<Rightarrow> (event_kind, handler) event_bus" where
  "log_domain_events b =
     fold (\<lambda>k. subscribe k LogEvent)
       [KRecordingStarted, KRecordingFinished, KTranscriptionQueued, KTranscriptionStarted,
        KTranscriptionCompleted, KTranscriptionPartial, KModelLoaded, KSessionCancelled, KConfigurationChanged] b"

definition event_bridge_handlers :: "(event_kind, handler) event_bus \<Rightarrow> (event_kind, handler) event_bus" where
  "event_bridge_handlers b =
     fold (\<lambda>k. subscribe k Broadcast)
       [KRecordingStarted, KRecordingFinished, KTranscriptionQueued, KTranscriptionStarted,
        KTranscriptionCompleted, KTranscriptionPartial, KModelLoaded, KConfigurationChanged, KErrorOccurred,
        KSessionCancelled] b"

definition load_configured_model ::
  "('c, 'n) platform \<Rightarrow> boot_env \<Rightarrow> configuration \<Rightarrow> 'c daemon \<Rightarrow> 'c daemon" where
  "load_configured_model P bo c w =
     (case find_model (list_available_models (bo_listing bo)) (selected_model c) of
        None \<Rightarrow>
          logger P Warn (''configured model \"'' @ selected_model c @ ''\" not found in '' @
            default_models_path (bo_environment bo) @ ''; transcription will fail until one is available'') w
      | Some m \<Rightarrow>
          (case load_model (pf_whisper P) (daemon_pub P) (bo_exists bo) m (d_backend w) w of
             (None, b', w') \<Rightarrow> w'\<lparr>d_backend := b'\<rparr>
           | (Some (SpeechError message), b', w') \<Rightarrow>
               logger P Warn (''failed to load model \"'' @ selected_model c @ ''\": '' @ message) (w'\<lparr>d_backend := b'\<rparr>)))"

text \<open>The process before its objects are constructed; the placeholders are replaced before they are used.\<close>

definition bare_process :: "boot_env \<Rightarrow> 'c daemon" where
  "bare_process bo =
     \<lparr>d_bus = empty_bus, d_log = initial_log,
      d_cm = new_configuration_manager (default_config_path (bo_environment bo)), d_fs = bo_fs bo,
      d_sm = new_session_manager new_recording_manager default_configuration default_capacity,
      d_lt = new_live_transcriber default_configuration default_live_config,
      d_clip = new_auto_clipboard default_configuration default_adapter,
      d_backend = new_whisper_backend,
      d_server = new_ipc_server (default_socket_path (bo_environment bo)) (bo_answers bo),
      d_subscribed = [], d_lines = 0, d_copies = 0, d_trace = [], d_abnormal = None\<rparr>"

definition construct_session_manager :: "'c daemon \<Rightarrow> 'c daemon" where
  "construct_session_manager w =
     w\<lparr>d_sm := new_session_manager new_recording_manager (cm_configuration (d_cm w)) default_capacity,
       d_bus := subscribe KConfigurationChanged SessionConfigured (d_bus w)\<rparr>"

definition construct_live_transcriber :: "'c daemon \<Rightarrow> 'c daemon" where
  "construct_live_transcriber w =
     w\<lparr>d_lt := new_live_transcriber (cm_configuration (d_cm w)) default_live_config,
       d_bus := subscribe KConfigurationChanged PreviewConfigured (subscribe KRecordingStarted PreviewReset (d_bus w))\<rparr>"

definition construct_auto_clipboard :: "'c daemon \<Rightarrow> 'c daemon" where
  "construct_auto_clipboard w =
     w\<lparr>d_clip := new_auto_clipboard (cm_configuration (d_cm w)) default_adapter,
       d_bus := subscribe KConfigurationChanged ClipboardConfigured
                  (subscribe KTranscriptionCompleted ClipboardCopy (d_bus w))\<rparr>"

definition construct_event_bridge :: "'c daemon \<Rightarrow> 'c daemon" where
  "construct_event_bridge w = w\<lparr>d_bus := event_bridge_handlers (d_bus w)\<rparr>"

definition boot :: "('c, 'n) platform \<Rightarrow> boot_env \<Rightarrow> 'c daemon" where
  "boot P bo =
     (let w0 = logger P Info ''Yoru Speech started'' (bare_process bo);
          w1 = w0\<lparr>d_bus := log_domain_events (subscribe KErrorOccurred LogError (d_bus w0))\<rparr>;
          (errors, cm, trace) = cm_load (pf_toml P) (bo_io bo) (d_cm w1) (d_fs w1);
          w2 = fold (\<lambda>e. logger P Warn (''config: '' @ ve_field e @ '': '' @ ve_message e)) errors
                 (w1\<lparr>d_cm := cm, d_fs := last trace\<rparr>);
          w3 = load_configured_model P bo (cm_configuration (d_cm w2)) w2
      in construct_event_bridge (construct_auto_clipboard (construct_live_transcriber (construct_session_manager w3))))"

text \<open>The first part of \<^verbatim>\<open>main\<close>: \<open>False\<close> when it returns 1 because the socket could not be taken.\<close>

definition start_up :: "('c, 'n) platform \<Rightarrow> boot_env \<Rightarrow> bool \<times> 'c daemon" where
  "start_up P bo =
     (case service_start (bo_start bo) (boot P bo) of
        (Some (IpcError m), w) \<Rightarrow> (False, logger P Error (''failed to start IPC server: '' @ m) w)
      | (None, w) \<Rightarrow>
          (True, (logger P Info (''listening on '' @ default_socket_path (bo_environment bo)) w)
                   \<lparr>d_sm := sm_set_activity_callback (Some ()) (d_sm w)\<rparr>))"

section \<open>Running and shutting down\<close>

record iteration =
  it_poll :: "poll_env option"
  it_before_results :: "background list"
  it_between_drains :: nat
  it_before_tick :: "background list"
  it_now :: time_point
  it_late :: "audio_step list"
  it_after :: "background list"

text \<open>\<open>n\<close> is how many steps the worker makes between the two drains; it may ring while it does.\<close>

definition poll_results :: "('c, 'n) platform \<Rightarrow> nat \<Rightarrow> 'c daemon \<Rightarrow> 'c daemon" where
  "poll_results P n w =
     (let rang = worker_rings (backend_of P) n (snd (drain_completed (sm_queue (d_sm w))), d_backend w);
          (_, sm', b', w') = poll_completed (daemon_pub P) (backend_of P) n (d_sm w) (d_backend w) w
      in w'\<lparr>d_sm := sm', d_backend := b', d_server := (if rang then sv_wake (d_server w') else d_server w')\<rparr>)"

text \<open>\<open>late\<close> is what the audio threads do while the tick runs.\<close>

definition preview_tick :: "('c, 'n) platform \<Rightarrow> time_point \<Rightarrow> audio_step list \<Rightarrow> 'c daemon \<Rightarrow> 'c daemon" where
  "preview_tick P now late w =
     (case tick (daemon_pub P) (pf_round P) (backend_of P) now late (d_sm w) (d_lt w) (d_backend w) w of
        (lt', b', w') \<Rightarrow>
          w'\<lparr>d_lt := lt', d_backend := b',
             d_sm := (d_sm w')\<lparr>sm_recording_manager := audio_steps late (sm_recording_manager (d_sm w'))\<rparr>\<rparr>)"

text \<open>One round of \<^verbatim>\<open>while (g_should_stop == 0)\<close>, with the other threads in between.\<close>

definition loop_step :: "('c, 'n) platform \<Rightarrow> iteration \<Rightarrow> 'c daemon \<Rightarrow> 'c daemon" where
  "loop_step P it w =
     (if d_abnormal w \<noteq> None then w
      else
        let w1 = service_poll P (it_poll it) w;
            w2 = background_steps P (it_before_results it) w1;
            w3 = poll_results P (it_between_drains it) w2;
            w4 = background_steps P (it_before_tick it) w3;
            w5 = preview_tick P (it_now it) (it_late it) w4
        in background_steps P (it_after it) w5)"

definition run_loop :: "('c, 'n) platform \<Rightarrow> iteration list \<Rightarrow> 'c daemon \<Rightarrow> 'c daemon" where
  "run_loop P its w = fold (loop_step P) its w"

record stop_env =
  sp_late :: "audio_step list"
  sp_background :: "background list"
  sp_before_abort :: nat
  sp_between_drains :: nat
  sp_before_abort_again :: nat

definition shut_down :: "('c, 'n) platform \<Rightarrow> stop_env \<Rightarrow> 'c daemon \<Rightarrow> 'c daemon" where
  "shut_down P sp w =
     (let w0 = logger P Info ''shutting down'' w;
          (_, sm1, w1) = cancel_session (daemon_pub P) (sp_late sp) (d_sm w0) w0;
          w2 = background_steps P (sp_background sp) (w1\<lparr>d_sm := sm1\<rparr>);
          (dropped, sm3, b3, w3) = sm_shutdown (daemon_pub P) (backend_of P) (sp_before_abort sp) (d_sm w2) (d_backend w2) w2;
          w4 = w3\<lparr>d_sm := sm_set_activity_callback None sm3, d_backend := b3\<rparr>;
          w5 = (if dropped \<noteq> []
                then logger P Warn (''dropped '' @ to_string_nat (length dropped) @
                       '' queued transcription(s) at shutdown'') w4
                else w4)
      in service_stop (poll_results P (sp_between_drains sp) w5))"

text \<open>
  The objects of \<^verbatim>\<open>main\<close> are destroyed in the reverse order of their declaration when it returns:
  \<^verbatim>\<open>~IpcServer\<close> stops the server, \<^verbatim>\<open>~TranscriptionQueue\<close> shuts the queue down (nothing is reported),
  \<^verbatim>\<open>~WhisperBackend\<close> unloads the model, \<^verbatim>\<open>~CaptureDevice\<close> stops the device. The other destructors do nothing.
\<close>

definition destroy :: "('c, 'n) platform \<Rightarrow> nat \<Rightarrow> 'c daemon \<Rightarrow> 'c daemon" where
  "destroy P n w =
     (let w1 = service_stop w;
          (_, q, b) = queue_shutdown (backend_of P) n (sm_queue (d_sm w1), d_backend w1);
          rm = sm_recording_manager (d_sm w1)
      in w1\<lparr>d_backend := unload_model b,
            d_sm := (d_sm w1)\<lparr>sm_queue := q, sm_recording_manager := rm\<lparr>rm_device := device_stop (rm_device rm)\<rparr>\<rparr>\<rparr>)"

text \<open>
  The exit status and the final state; \<open>its\<close> are the rounds until the signal arrives. There is no
  status (\<open>None\<close>) when an uncaught exception or a call that never returns ends the program before
  \<^verbatim>\<open>main\<close> does.
\<close>

definition main :: "('c, 'n) platform \<Rightarrow> boot_env \<Rightarrow> iteration list \<Rightarrow> stop_env \<Rightarrow> nat option \<times> 'c daemon" where
  "main P bo its sp =
     (case start_up P bo of
        (False, w) \<Rightarrow> (Some 1, destroy P (sp_before_abort_again sp) w)
      | (True, w) \<Rightarrow>
          let w1 = run_loop P its w
          in if d_abnormal w1 \<noteq> None then (None, w1)
             else let w2 = shut_down P sp w1
                  in if d_abnormal w2 \<noteq> None then (None, w2)
                     else (Some 0, destroy P (sp_before_abort_again sp) w2))"

end
