(* ===== verification/Published_Effects.thy ===== *)
theory Published_Effects
  imports Live_Transcriber Configuration Clipboard
begin

text \<open>
  What the components' operations do to the rest of the process: nothing but publishing. Every
  operation takes the publisher as an argument, so whatever relation publishing keeps between the
  world before and after, the operation keeps too. \<open>command_publisher\<close> and \<open>publisher_contract\<close>, which extends it by completed transcriptions,
  state the laws of such a relation; their lemmas cover every operation that publishes. The second half of the theory states
  which parts of the session manager its operations leave alone.
\<close>

definition about_configuration :: "event \<Rightarrow> bool" where
  "about_configuration e \<longleftrightarrow> kind_of e = KConfigurationChanged"

lemma about_configuration_simps [simp]:
  "\<not> about_configuration (RecordingStarted i)" "\<not> about_configuration (RecordingFinished i r)"
  "\<not> about_configuration (TranscriptionQueued i n)" "\<not> about_configuration (TranscriptionStarted i)"
  "\<not> about_configuration (TranscriptionCompleted i t)" "\<not> about_configuration (TranscriptionPartial i a b)"
  "\<not> about_configuration (ModelLoaded m)" "about_configuration (ConfigurationChanged c)"
  "\<not> about_configuration (ErrorOccurred s a b)" "\<not> about_configuration (SessionCancelled i)"
  by (simp_all add: about_configuration_def)

fun is_completed :: "event \<Rightarrow> bool" where
  "is_completed (TranscriptionCompleted _ _) = True"
| "is_completed _ = False"

text \<open>
  What the commands of clients publish: neither a new configuration, which the configuration manager
  publishes, nor a completed transcription, which only the main loop does.
\<close>

locale command_publisher =
  fixes pub :: "(event, 'w) publisher" and R :: "'w \<Rightarrow> 'w \<Rightarrow> bool"
  assumes R_refl: "R w w"
    and R_trans: "R w w' \<Longrightarrow> R w' w'' \<Longrightarrow> R w w''"
    and R_command: "\<not> about_configuration e \<Longrightarrow> \<not> is_completed e \<Longrightarrow> R w (pub e w)"
begin

lemma R_command_after: "R w w' \<Longrightarrow> \<not> about_configuration e \<Longrightarrow> \<not> is_completed e \<Longrightarrow> R w (pub e w')"
  using R_trans R_command by blast

lemma rm_start_R: "rm_start pub env sid rm w = (r, rm', w') \<Longrightarrow> R w w'"
  by (auto simp: rm_start_def Let_def R_refl R_command split: if_splits prod.splits option.splits capture_error.splits)

lemma rm_stop_R: "rm_stop pub late rm w = (r, rm', w') \<Longrightarrow> R w w'"
  by (auto simp: rm_stop_def Let_def R_refl R_command split: if_splits option.splits)

lemma load_model_R: "load_model api pub ex m b w = (r, b', w') \<Longrightarrow> R w w'"
  by (auto simp: load_model_def R_refl R_command split: sum.splits bool.splits option.splits)

lemma start_session_R:
  assumes "start_session pub env now now' sm w = (r, sm', w')"
  shows "R w w'"
proof -
  obtain e rm1 w1 where s: "rm_start pub env (sm_next_session_id sm) (sm_recording_manager sm) w = (e, rm1, w1)"
    by (cases "rm_start pub env (sm_next_session_id sm) (sm_recording_manager sm) w")
  from rm_start_R [OF s] s assms show ?thesis
    by (auto simp: start_session_def Let_def R_refl R_command R_command_after split: if_splits option.splits recording_error.splits)
qed

lemma stop_session_R:
  assumes "stop_session pub late now now' enq sm w = (r, sm', w')"
  shows "R w w'"
proof -
  obtain e rm1 w1 where s: "rm_stop pub late (sm_recording_manager sm) w = (e, rm1, w1)"
    by (cases "rm_stop pub late (sm_recording_manager sm) w")
  from rm_stop_R [OF s] s assms show ?thesis
    by (auto simp: stop_session_def fail_def Let_def R_refl R_command_after
        split: if_splits option.splits sum.splits recording_error.splits prod.splits)
qed

lemma cancel_session_R:
  assumes "cancel_session pub late sm w = (r, sm', w')"
  shows "R w w'"
proof -
  obtain e rm1 w1 where s: "rm_stop pub late (sm_recording_manager sm) w = (e, rm1, w1)"
    by (cases "rm_stop pub late (sm_recording_manager sm) w")
  from rm_stop_R [OF s] s assms show ?thesis
    by (auto simp: cancel_session_def Let_def R_refl R_command R_command_after split: if_splits option.splits)
qed

lemma cancel_job_R: "cancel_job pub sid sm w = (r, sm', w') \<Longrightarrow> R w w'"
  by (auto simp: cancel_job_def R_refl R_command split: prod.splits bool.splits)

end

locale publisher_contract = command_publisher +
  assumes R_completed: "R w (pub (TranscriptionCompleted i t) w)"
begin

lemma R_pub: "\<not> about_configuration e \<Longrightarrow> R w (pub e w)"
  by (cases e) (simp_all add: R_command R_completed)

lemma R_fold_pub: "(\<And>i. \<not> about_configuration (f i)) \<Longrightarrow> R w (fold (\<lambda>i. pub (f i)) is w)"
proof (induction "is" arbitrary: w)
  case (Cons i "is")
  from R_pub [OF Cons.prems] Cons.IH [OF Cons.prems] show ?case by (auto intro: R_trans)
qed (simp add: R_refl)

lemma publish_result_R: "publish_result pub r (sm, w) = (sm', w') \<Longrightarrow> R w w'"
  by (auto simp: publish_result_def R_pub split: sum.splits speech_error.splits)

lemma publish_results_R: "fold (publish_result pub) rs (sm, w) = (sm', w') \<Longrightarrow> R w w'"
proof (induction rs arbitrary: sm w)
  case (Cons r rs)
  obtain sm1 w1 where p: "publish_result pub r (sm, w) = (sm1, w1)" by (cases "publish_result pub r (sm, w)")
  from Cons.IH [of sm1 w1] Cons.prems p publish_result_R [OF p] show ?case by (auto intro: R_trans)
qed (simp add: R_refl)

lemma poll_completed_R:
  assumes "poll_completed pub be n sm b w = (k, sm', b', w')"
  shows "R w w'"
proof -
  obtain q b2 where run: "worker_run be n (snd (drain_completed (sm_queue sm)), b) = (q, b2)"
    by (cases "worker_run be n (snd (drain_completed (sm_queue sm)), b)")
  let ?w1 = "fold (\<lambda>i. pub (TranscriptionStarted i)) (fst (drain_started q)) w"
  from assms run have "fold (publish_result pub) (fst (drain_completed (sm_queue sm)))
      (sm\<lparr>sm_queue := snd (drain_started q)\<rparr>, ?w1) = (sm', w')"
    by (auto simp: poll_completed_def Let_def drain_completed_def drain_started_def split: prod.splits)
  from publish_results_R [OF this] have "R ?w1 w'" .
  moreover have "R w ?w1" by (rule R_fold_pub) simp
  ultimately show ?thesis by (rule R_trans [rotated])
qed

lemma sm_shutdown_R: "sm_shutdown pub be n sm b w = (dropped, sm', b', w') \<Longrightarrow> R w w'"
  by (auto simp: sm_shutdown_def Let_def split: prod.splits intro: R_fold_pub)

lemma tick_R: "tick pub rnd be now late sm lt b w = (lt', b', w') \<Longrightarrow> R w w'"
  by (auto simp: tick_def Let_def R_refl R_pub split: if_splits option.splits prod.splits sum.splits)

lemma ac_R: "R w (ac_on_transcription_completed pub cp sid t ac w)"
  by (auto simp: ac_on_transcription_completed_def R_refl R_pub split: option.splits clipboard_error.splits)

end

text \<open>A relation that announcing a new configuration keeps as well.\<close>

locale configuration_publisher = publisher_contract +
  assumes R_configuration: "R w (pub (ConfigurationChanged c) w)"
begin

lemma cm_update_R: "cm_update pub T io c cm fs w = (errors, cm', trace, w') \<Longrightarrow> R w w'"
  by (auto simp: cm_update_def Let_def R_refl R_configuration split: if_splits option.splits prod.splits)

end

section \<open>Two publishers\<close>

text \<open>The events the session manager publishes, itself or through the recording manager.\<close>

fun session_event :: "event \<Rightarrow> bool" where
  "session_event (TranscriptionPartial _ _ _) = False"
| "session_event (ModelLoaded _) = False"
| "session_event (ConfigurationChanged _) = False"
| "session_event (ErrorOccurred _ component _) = (component \<noteq> ''clipboard'')"
| "session_event _ = True"

text \<open>
  The same operation run with two publishers: if publishing keeps a relation between the two worlds,
  the operation gives the same answer and the same state in both, and keeps the relation.
\<close>

locale publisher_simulation =
  fixes pub :: "(event, 'w) publisher" and pub' :: "(event, 'v) publisher" and S :: "'w \<Rightarrow> 'v \<Rightarrow> bool"
  assumes S_pub: "session_event e \<Longrightarrow> S w v \<Longrightarrow> S (pub e w) (pub' e v)"
    and S_silent: "\<not> session_event e \<Longrightarrow> S w v \<Longrightarrow> S (pub e w) v"
begin

lemma S_fold_pub:
  "(\<And>i. session_event (f i)) \<Longrightarrow> S w v \<Longrightarrow> S (fold (\<lambda>i. pub (f i)) is w) (fold (\<lambda>i. pub' (f i)) is v)"
  by (induction "is" arbitrary: w v) (simp_all add: S_pub)

lemma rm_start_sim:
  "S w v \<Longrightarrow> rm_start pub env sid rm w = (r, rm', w') \<Longrightarrow> \<exists>v'. rm_start pub' env sid rm v = (r, rm', v') \<and> S w' v'"
  by (auto simp: rm_start_def Let_def S_pub split: if_splits prod.splits option.splits capture_error.splits)

lemma rm_stop_sim:
  "S w v \<Longrightarrow> rm_stop pub late rm w = (r, rm', w') \<Longrightarrow> \<exists>v'. rm_stop pub' late rm v = (r, rm', v') \<and> S w' v'"
  by (auto simp: rm_stop_def Let_def S_pub split: if_splits option.splits)

lemma start_session_sim:
  assumes "S w v" and "start_session pub env now now' sm w = (r, sm', w')"
  shows "\<exists>v'. start_session pub' env now now' sm v = (r, sm', v') \<and> S w' v'"
proof -
  obtain e rm1 w1 where s: "rm_start pub env (sm_next_session_id sm) (sm_recording_manager sm) w = (e, rm1, w1)"
    by (metis prod.collapse)
  from rm_start_sim [OF assms(1) s] obtain v1 where
    "rm_start pub' env (sm_next_session_id sm) (sm_recording_manager sm) v = (e, rm1, v1)" "S w1 v1" by blast
  with assms s show ?thesis
    by (auto simp: start_session_def Let_def S_pub split: if_splits option.splits recording_error.splits)
qed

lemma stop_session_sim:
  assumes "S w v" and "stop_session pub late now now' enq sm w = (r, sm', w')"
  shows "\<exists>v'. stop_session pub' late now now' enq sm v = (r, sm', v') \<and> (r \<noteq> None \<longrightarrow> S w' v')"
proof -
  obtain e rm1 w1 where s: "rm_stop pub late (sm_recording_manager sm) w = (e, rm1, w1)" by (metis prod.collapse)
  from rm_stop_sim [OF assms(1) s] obtain v1 where
    "rm_stop pub' late (sm_recording_manager sm) v = (e, rm1, v1)" "S w1 v1" by blast
  with assms s show ?thesis
    by (auto simp: stop_session_def fail_def Let_def S_pub
        split: if_splits option.splits sum.splits recording_error.splits prod.splits)
qed

lemma cancel_session_sim:
  assumes "S w v" and "cancel_session pub late sm w = (r, sm', w')"
  shows "\<exists>v'. cancel_session pub' late sm v = (r, sm', v') \<and> S w' v'"
proof -
  obtain e rm1 w1 where s: "rm_stop pub late (sm_recording_manager sm) w = (e, rm1, w1)" by (metis prod.collapse)
  from rm_stop_sim [OF assms(1) s] obtain v1 where
    "rm_stop pub' late (sm_recording_manager sm) v = (e, rm1, v1)" "S w1 v1" by blast
  with assms s show ?thesis
    by (auto simp: cancel_session_def Let_def S_pub split: if_splits option.splits)
qed

lemma cancel_job_sim:
  "S w v \<Longrightarrow> cancel_job pub i sm w = (r, sm', w') \<Longrightarrow> \<exists>v'. cancel_job pub' i sm v = (r, sm', v') \<and> S w' v'"
  by (auto simp: cancel_job_def S_pub split: prod.splits bool.splits)

lemma publish_results_sim:
  "S w v \<Longrightarrow> fold (publish_result pub) rs (sm, w) = (sm', w') \<Longrightarrow>
     \<exists>v'. fold (publish_result pub') rs (sm, v) = (sm', v') \<and> S w' v'"
proof (induction rs arbitrary: sm w v)
  case (Cons r rs)
  obtain sm1 w1 where p: "publish_result pub r (sm, w) = (sm1, w1)" by (cases "publish_result pub r (sm, w)")
  with Cons.prems(1) obtain v1 where "publish_result pub' r (sm, v) = (sm1, v1)" "S w1 v1"
    by (auto simp: publish_result_def S_pub split: sum.splits speech_error.splits)
  with Cons p show ?case by simp
qed simp

lemma poll_completed_sim:
  assumes "S w v" and "poll_completed pub be n sm b w = (k, sm', b', w')"
  shows "\<exists>v'. poll_completed pub' be n sm b v = (k, sm', b', v') \<and> S w' v'"
proof -
  obtain q b2 where run: "worker_run be n (snd (drain_completed (sm_queue sm)), b) = (q, b2)"
    by (cases "worker_run be n (snd (drain_completed (sm_queue sm)), b)")
  have "S (fold (\<lambda>i. pub (TranscriptionStarted i)) (fst (drain_started q)) w)
      (fold (\<lambda>i. pub' (TranscriptionStarted i)) (fst (drain_started q)) v)" using assms(1) by (intro S_fold_pub) simp_all
  moreover have "fold (publish_result pub) (fst (drain_completed (sm_queue sm)))
      (sm\<lparr>sm_queue := snd (drain_started q)\<rparr>, fold (\<lambda>i. pub (TranscriptionStarted i)) (fst (drain_started q)) w) = (sm', w')"
    and "k = length (fst (drain_completed (sm_queue sm)))" "b' = b2"
    using assms(2) run by (auto simp: poll_completed_def Let_def drain_completed_def drain_started_def split: prod.splits)
  ultimately show ?thesis
    using publish_results_sim run
    by (fastforce simp: poll_completed_def Let_def drain_completed_def drain_started_def)
qed

lemma sm_shutdown_sim:
  "S w v \<Longrightarrow> sm_shutdown pub be n sm b w = (dropped, sm', b', w') \<Longrightarrow>
     \<exists>v'. sm_shutdown pub' be n sm b v = (dropped, sm', b', v') \<and> S w' v'"
  by (auto simp: sm_shutdown_def Let_def intro!: S_fold_pub split: prod.splits)

lemma tick_sim:
  assumes "S w v" and "tick pub rnd be now late sm lt b w = (lt', b', w')"
  shows "S w' v \<and> (b' = b \<or> \<not> transcription_busy sm \<and> (\<exists>window req. b' = snd (transcribe_partial be b window req)))"
proof -
  have "S w' v"
    using assms by (auto simp: tick_def Let_def S_silent split: if_splits option.splits prod.splits sum.splits)
  moreover have "b' = b \<or> (\<exists>window req. b' = snd (transcribe_partial be b window req))"
    using assms(2) by (auto simp: tick_def Let_def split: if_splits option.splits prod.splits sum.splits) (metis snd_conv)+
  moreover have "transcription_busy sm \<Longrightarrow> b' = b" using assms(2) by (auto simp: tick_def split: if_splits)
  ultimately show ?thesis by blast
qed

lemma load_model_sim: "S w v \<Longrightarrow> load_model api pub ex m b w = (r, b', w') \<Longrightarrow> S w' v"
  by (auto simp: load_model_def S_silent split: sum.splits bool.splits option.splits)

end

section \<open>What the session manager's operations keep\<close>

definition sm_settings :: "'cb session_manager \<Rightarrow> string \<times> string \<times> nat \<times> 'cb option" where
  "sm_settings sm =
     (sm_default_language sm, sm_transcription_prompt sm, q_capacity (sm_queue sm), q_on_activity (sm_queue sm))"

lemma worker_step_keeps_settings [simp]:
  "q_capacity (fst (fst (worker_step be s))) = q_capacity (fst s)"
  "q_on_activity (fst (fst (worker_step be s))) = q_on_activity (fst s)"
proof -
  show "q_capacity (fst (fst (worker_step be s))) = q_capacity (fst s)" by (cases s) (simp add: worker_step_capacity)
  show "q_on_activity (fst (fst (worker_step be s))) = q_on_activity (fst s)"
    by (cases s) (auto simp: worker_step.simps take_job_def transcribe_job_def store_result_def
        split: worker_pc.splits list.splits prod.splits)
qed

lemma worker_run_settings [simp]:
  "q_capacity (fst (worker_run be n s)) = q_capacity (fst s)"
  "q_on_activity (fst (worker_run be n s)) = q_on_activity (fst s)"
  by (induction n arbitrary: s) simp_all

lemma join_worker_settings [simp]:
  "q_capacity (fst (join_worker be n s)) = q_capacity (fst s)"
  "q_on_activity (fst (join_worker be n s)) = q_on_activity (fst s)"
  by (induction n arbitrary: s) simp_all

lemma cancel_pending_settings:
  "q_capacity (snd (cancel_pending i q)) = q_capacity q" "q_on_activity (snd (cancel_pending i q)) = q_on_activity q"
  by (simp_all add: cancel_pending_def split: option.splits)

lemma try_enqueue_settings: "try_enqueue j q = (r, q') \<Longrightarrow> q_capacity q' = q_capacity q \<and> q_on_activity q' = q_on_activity q"
  by (auto simp: try_enqueue_def split: if_splits)

lemma start_session_settings:
  "start_session pub env now now' sm w = (r, sm', w') \<Longrightarrow> sm_settings sm' = sm_settings sm"
  by (auto simp: start_session_def sm_settings_def Let_def split: if_splits option.splits prod.splits recording_error.splits)

lemma stop_session_settings:
  "stop_session pub late now now' enq sm w = (r, sm', w') \<Longrightarrow> sm_settings sm' = sm_settings sm"
  by (auto simp: stop_session_def fail_def sm_settings_def Let_def try_enqueue_settings
      split: if_splits option.splits prod.splits sum.splits recording_error.splits)

lemma cancel_session_settings:
  "cancel_session pub late sm w = (r, sm', w') \<Longrightarrow> sm_settings sm' = sm_settings sm"
  by (auto simp: cancel_session_def sm_settings_def Let_def split: if_splits prod.splits)

lemma cancel_job_settings:
  "cancel_job pub i sm w = (r, sm', w') \<Longrightarrow> sm_settings sm' = sm_settings sm"
  using cancel_pending_settings [of i "sm_queue sm"]
  by (auto simp: cancel_job_def sm_settings_def split: prod.splits bool.splits)

lemma publish_result_settings:
  "publish_result pub r (sm, w) = (sm', w') \<Longrightarrow> sm_settings sm' = sm_settings sm"
  by (auto simp: publish_result_def sm_settings_def split: sum.splits speech_error.splits)

lemma publish_results_settings:
  "fold (publish_result pub) rs (sm, w) = (sm', w') \<Longrightarrow> sm_settings sm' = sm_settings sm"
proof (induction rs arbitrary: sm w)
  case (Cons r rs)
  obtain sm1 w1 where p: "publish_result pub r (sm, w) = (sm1, w1)" by (cases "publish_result pub r (sm, w)")
  from Cons.IH [of sm1 w1] Cons.prems p publish_result_settings [OF p] show ?case by simp
qed simp

lemma poll_completed_settings:
  assumes "poll_completed pub be n sm b w = (k, sm', b', w')"
  shows "sm_settings sm' = sm_settings sm"
proof -
  obtain q b2 where run: "worker_run be n (snd (drain_completed (sm_queue sm)), b) = (q, b2)"
    by (cases "worker_run be n (snd (drain_completed (sm_queue sm)), b)")
  have "q_capacity (fst (q, b2)) = q_capacity (sm_queue sm)" "q_on_activity (fst (q, b2)) = q_on_activity (sm_queue sm)"
    unfolding run [symmetric] by (simp_all add: drain_completed_def)
  then have "sm_settings (sm\<lparr>sm_queue := snd (drain_started q)\<rparr>) = sm_settings sm"
    by (simp add: sm_settings_def drain_started_def)
  moreover from assms run have "fold (publish_result pub) (fst (drain_completed (sm_queue sm)))
      (sm\<lparr>sm_queue := snd (drain_started q)\<rparr>, fold (\<lambda>i. pub (TranscriptionStarted i)) (fst (drain_started q)) w) = (sm', w')"
    by (auto simp: poll_completed_def Let_def drain_completed_def drain_started_def split: prod.splits)
  ultimately show ?thesis using publish_results_settings by metis
qed

lemma sm_shutdown_settings:
  assumes "sm_shutdown pub be n sm b w = (dropped, sm', b', w')"
  shows "sm_settings sm' = sm_settings sm"
proof -
  obtain q2 b2 where run: "worker_run be n (snd (begin_shutdown (sm_queue sm)), b) = (q2, b2)"
    by (cases "worker_run be n (snd (begin_shutdown (sm_queue sm)), b)")
  have "q_capacity (fst (q2, b2)) = q_capacity (sm_queue sm)" "q_on_activity (fst (q2, b2)) = q_on_activity (sm_queue sm)"
    unfolding run [symmetric] by (simp_all add: begin_shutdown_def)
  moreover have "sm_queue sm' = fst (join_worker be 7 (q2, request_abort be b2))"
    "sm_default_language sm' = sm_default_language sm" "sm_transcription_prompt sm' = sm_transcription_prompt sm"
    using assms run by (auto simp: sm_shutdown_def queue_shutdown_def begin_shutdown_def Let_def split: prod.splits)
  ultimately show ?thesis by (simp add: sm_settings_def)
qed

section \<open>What a tick keeps\<close>

lemma absorb_words_settings [simp]:
  "lt_default_language (absorb_words rnd window ws lt) = lt_default_language lt"
  "lt_transcription_prompt (absorb_words rnd window ws lt) = lt_transcription_prompt lt"
  by (simp_all add: absorb_words_def force_commit_def agree_commit_def skip_overlap_def commit_def Let_def)

lemma cap_window_settings:
  "cap_window rm window lt = (window', lt') \<Longrightarrow>
     lt_default_language lt' = lt_default_language lt \<and> lt_transcription_prompt lt' = lt_transcription_prompt lt"
  by (auto simp: cap_window_def Let_def split: if_splits)

lemma tick_settings:
  assumes "tick pub rnd be now late sm lt b w = (lt', b', w')"
  shows "lt_default_language lt' = lt_default_language lt \<and> lt_transcription_prompt lt' = lt_transcription_prompt lt"
proof -
  obtain window lt1 where c: "cap_window (audio_steps late (sm_recording_manager sm))
      (samples_snapshot (lt_committed_sample_count lt) (sm_recording_manager sm)) lt = (window, lt1)" by fastforce
  from cap_window_settings [OF c] assms c show ?thesis
    by (auto simp: tick_def Let_def split: if_splits option.splits prod.splits sum.splits)
qed

end
