(* ===== verification/Daemon_Publishing.thy ===== *)
theory Daemon_Publishing
  imports Daemon Published_Effects
begin

text \<open>
  What publishing does to the process. Handlers never publish more than two levels deep; and whatever
  is published, the bus, the configuration, the backend, the subscriptions and the registry of clients
  stay as they are, and every subscribed client receives the same event lines (\<open>published\<close>). The event
  bus's contract \<open>handler_contract\<close> and the components' contract \<open>publisher_contract\<close> are interpreted
  on the process's own handlers.
\<close>

section \<open>Two levels suffice\<close>

definition note_event :: "event \<Rightarrow> 'c daemon \<Rightarrow> 'c daemon" where
  "note_event e w = w\<lparr>d_trace := d_trace w @ [e]\<rparr>"

lemma note_event_frame [simp]:
  "d_bus (note_event e w) = d_bus w" "d_sm (note_event e w) = d_sm w" "d_lt (note_event e w) = d_lt w"
  "d_clip (note_event e w) = d_clip w" "d_cm (note_event e w) = d_cm w" "d_server (note_event e w) = d_server w"
  "d_subscribed (note_event e w) = d_subscribed w" "d_abnormal (note_event e w) = d_abnormal w"
  "d_copies (note_event e w) = d_copies w" "d_backend (note_event e w) = d_backend w" "d_lines (note_event e w) = d_lines w"
  "d_fs (note_event e w) = d_fs w" "d_trace (note_event e w) = d_trace w @ [e]"
  by (simp_all add: note_event_def)

lemma publish_nested_Suc:
  "publish_nested (Suc n) P e w =
     (if d_abnormal w \<noteq> None then w
      else fst (invoke_all (run_handler (publish_nested n P) P) (subscribers (kind_of e) (d_bus w)) e (note_event e w)))"
  by (simp add: publish_subscribers note_event_def)

declare publish_nested.simps(2) [simp del]

lemma invoke_all_cong:
  "(\<And>h w. run h e w = run' h e w) \<Longrightarrow> invoke_all run hs e w = invoke_all run' hs e w"
  by (induction hs arbitrary: w) (auto split: prod.splits option.splits)

lemma run_handler_leaf: "\<not> is_completed e \<Longrightarrow> run_handler pub P h e w = run_handler pub' P h e w"
  by (cases h; cases e) (simp_all add: run_handler_def)

lemma publish_leaf: "\<not> is_completed e \<Longrightarrow> publish_nested (Suc n) P e w = publish_nested (Suc m) P e w"
  by (simp add: publish_nested_Suc run_handler_leaf [where pub = "publish_nested n P" and pub' = "publish_nested m P"]
      cong: invoke_all_cong)

lemma clipboard_copy_cong:
  "(\<And>s c m w. pub (ErrorOccurred s c m) w = pub' (ErrorOccurred s c m) w) \<Longrightarrow>
     clipboard_copy pub P sid t w = clipboard_copy pub' P sid t w"
  by (simp add: clipboard_copy_def ac_on_transcription_completed_def Let_def split: option.splits clipboard_error.splits)

lemma run_handler_error_cong:
  assumes "\<And>s c m w. pub (ErrorOccurred s c m) w = pub' (ErrorOccurred s c m) w"
  shows "run_handler pub P h e w = run_handler pub' P h e w"
proof (cases "is_completed e \<and> h = ClipboardCopy")
  case True
  then show ?thesis
    using clipboard_copy_cong [of pub pub' P, OF assms] by (cases e) (simp_all add: run_handler_def Let_def)
next
  case False
  then show ?thesis by (cases h) (cases e; simp add: run_handler_def)+
qed

lemma publish_depth: "publish_nested (Suc (Suc n)) P e w = daemon_pub P e w"
proof -
  have "run_handler (publish_nested (Suc n) P) P h e w = run_handler (publish_nested (Suc 0) P) P h e w" for h w
    by (rule run_handler_error_cong) (rule publish_leaf, simp)
  then show ?thesis
    by (simp add: daemon_pub_def numeral_2_eq_2 publish_nested_Suc cong: invoke_all_cong)
qed

section \<open>Delivering an event\<close>

definition lines_of :: "string list \<Rightarrow> string" where
  "lines_of ls = concat (map (\<lambda>l. l @ [CHR 0x0A]) ls)"

lemma lines_of_simps [simp]:
  "lines_of [] = []" "lines_of [l] = l @ [CHR 0x0A]" "lines_of (ls @ ls') = lines_of ls @ lines_of ls'"
  by (simp_all add: lines_of_def)

lemma write_loop_open [simp]: "write_loop [] data = (True, data, [])"
  by (cases data) simp_all

lemma send_line_open:
  "sv_kernel sv = [] \<Longrightarrow>
     send_line c line sv =
       (if sv_read_buffers sv c = None then sv
        else sv\<lparr>sv_kernel := [], sv_sent := (sv_sent sv)(c := sv_sent sv c @ line @ [CHR 0x0A])\<rparr>)"
  by (simp add: send_line_def)

lemma send_lines_open:
  assumes "sv_kernel sv = []" and "distinct cs"
  shows "sv_kernel (fold (\<lambda>c. send_line c line) cs sv) = []"
    and "sv_pending_disconnects (fold (\<lambda>c. send_line c line) cs sv) = sv_pending_disconnects sv"
    and "sv_sent (fold (\<lambda>c. send_line c line) cs sv) c =
       sv_sent sv c @ (if c \<in> set cs \<and> sv_read_buffers sv c \<noteq> None then line @ [CHR 0x0A] else [])"
  using assms by (induction cs arbitrary: sv) (auto simp: send_line_open)

lemma send_lines_frame [simp]:
  "sv_read_buffers (fold (\<lambda>c. send_line c line) cs sv) = sv_read_buffers sv"
  "sv_open (fold (\<lambda>c. send_line c line) cs sv) = sv_open sv"
  "sv_listening (fold (\<lambda>c. send_line c line) cs sv) = sv_listening sv"
  "sv_wake_open (fold (\<lambda>c. send_line c line) cs sv) = sv_wake_open sv"
  "sv_wake_pending (fold (\<lambda>c. send_line c line) cs sv) = sv_wake_pending sv"
  by (induction cs arbitrary: sv) simp_all

section \<open>What publishing keeps\<close>

definition same_process :: "'c daemon \<Rightarrow> 'c daemon \<Rightarrow> bool" where
  "same_process w w' \<longleftrightarrow>
     d_bus w' = d_bus w \<and> d_cm w' = d_cm w \<and> d_fs w' = d_fs w \<and> d_backend w' = d_backend w \<and>
     d_subscribed w' = d_subscribed w \<and> d_lines w' = d_lines w \<and>
     sv_read_buffers (d_server w') = sv_read_buffers (d_server w) \<and> sv_open (d_server w') = sv_open (d_server w) \<and>
     sv_listening (d_server w') = sv_listening (d_server w) \<and> sv_wake_open (d_server w') = sv_wake_open (d_server w) \<and>
     sv_wake_pending (d_server w') = sv_wake_pending (d_server w) \<and> sm_queue (d_sm w') = sm_queue (d_sm w)"

definition same_settings :: "'c daemon \<Rightarrow> 'c daemon \<Rightarrow> bool" where
  "same_settings w w' \<longleftrightarrow>
     d_sm w' = d_sm w \<and> d_clip w' = d_clip w \<and> lt_default_language (d_lt w') = lt_default_language (d_lt w) \<and>
     lt_transcription_prompt (d_lt w') = lt_transcription_prompt (d_lt w)"

text \<open>What it takes for every clipboard copy to return (\<open>copy_answers\<close>).\<close>

definition copies_return :: "('c, 'n) platform \<Rightarrow> bool" where
  "copies_return P \<longleftrightarrow> (\<forall>i. clock_runs (pf_copy P i) \<and> writes_return (pf_copy P i))"

definition abnormal_step :: "('c, 'n) platform \<Rightarrow> 'c daemon \<Rightarrow> 'c daemon \<Rightarrow> bool" where
  "abnormal_step P w w' \<longleftrightarrow>
     d_abnormal w' = d_abnormal w \<or> d_abnormal w' = Some DumpThrows \<or>
     (d_abnormal w' = Some CopyHangs \<and> \<not> copies_return P)"

text \<open>\<open>quiet\<close>: nothing published in between announced a new configuration.\<close>

definition published :: "('c, 'n) platform \<Rightarrow> bool \<Rightarrow> 'c daemon \<Rightarrow> 'c daemon \<Rightarrow> bool" where
  "published P quiet w w' \<longleftrightarrow>
     same_process w w' \<and> abnormal_step P w w' \<and> (quiet \<longrightarrow> same_settings w w')"

lemma published_refl: "published P q w w"
  by (simp add: published_def same_process_def abnormal_step_def same_settings_def)

lemma published_trans: "published P q w w' \<Longrightarrow> published P q w' w'' \<Longrightarrow> published P q w w''"
  unfolding published_def
  by (auto simp: same_process_def same_settings_def abnormal_step_def)

lemma published_local:
  "same_process w w' \<Longrightarrow> abnormal_step P w w' \<Longrightarrow> q \<longrightarrow> same_settings w w' \<Longrightarrow> published P q w w'"
  by (simp add: published_def)

section \<open>The handlers keep it\<close>

lemma note_event_published: "published P q w (note_event e w)"
  by (rule published_local) (simp_all add: same_process_def abnormal_step_def same_settings_def)

lemma logger_published: "published P q w (logger P l m w)"
  by (rule published_local) (simp_all add: logger_def same_process_def abnormal_step_def same_settings_def)

lemma broadcast_published: "published P q w (broadcast P e w)"
  by (auto simp: broadcast_def published_def same_process_def abnormal_step_def same_settings_def split: option.split)

lemma clipboard_copy_published:
  assumes "\<And>s c m w. published P q w (pub (ErrorOccurred s c m) w)"
  shows "published P q w (clipboard_copy pub P sid t w)"
proof -
  let ?answer = "copy (pf_copy P (d_copies w)) (transcript_text t) (ac_adapter (d_clip w))"
  let ?w = "w\<lparr>d_copies := Suc (d_copies w)\<rparr>"
  have w: "published P q w ?w"
    by (rule published_local) (simp_all add: same_process_def abnormal_step_def same_settings_def)
  show ?thesis
  proof (cases "ac_enabled (d_clip w) \<and> ?answer = None")
    case True
    then have "\<not> copies_return P" using copy_answers unfolding copies_return_def by blast
    with True show ?thesis
      by (intro published_local) (simp_all add: clipboard_copy_def same_process_def abnormal_step_def same_settings_def)
  next
    case False
    with w published_trans [OF w assms] show ?thesis
      by (auto simp: clipboard_copy_def ac_on_transcription_completed_def published_refl Let_def
          split: option.splits clipboard_error.splits)
  qed
qed

lemma run_handler_fst: "fst (run_handler pub P h e w) = handler_effect pub P h e w"
  by (simp add: run_handler_def Let_def)

lemma configured_published:
  "published P False w (w\<lparr>d_sm := sm_on_configuration_changed c (d_sm w)\<rparr>)" "published P False w (w\<lparr>d_lt := lt\<rparr>)" "published P False w (w\<lparr>d_clip := ac\<rparr>)"
  "published P q w (w\<lparr>d_lt := lt_reset (d_lt w)\<rparr>)"
  by (rule published_local; simp add: same_process_def abnormal_step_def same_settings_def lt_reset_def sm_on_configuration_changed_def)+

lemma handler_published:
  assumes "\<And>s c m w. published P q w (pub (ErrorOccurred s c m) w)" and "q \<longrightarrow> \<not> about_configuration e"
  shows "published P q w (fst (run_handler pub P h e w))"
proof (cases "is_completed e \<and> h = ClipboardCopy")
  case True
  then show ?thesis
    using clipboard_copy_published [where pub = pub, OF assms(1)] by (cases e) (simp_all add: run_handler_fst)
next
  case False
  then show ?thesis
    using assms(2) configured_published [where P = P and w = w] published_refl [of P q w]
      logger_published [of P q w] broadcast_published [of P q w e]
    by (cases h) (auto simp: run_handler_fst split: event.split)
qed

text \<open>The nested dispatch, of events other than a completed transcription.\<close>

lemma leaf_published:
  "q \<longrightarrow> \<not> about_configuration e \<Longrightarrow> \<not> is_completed e \<Longrightarrow> published P q w (fst (run_handler pub P h e w))"
  using handler_published [of P q "\<lambda>e w. w" e w h, OF published_refl] run_handler_leaf [of e pub P h w "\<lambda>e w. w"]
  by simp

interpretation nested: handler_contract d_bus kind_of "run_handler (publish_nested 0 P) P"
  "\<lambda>e. (q \<longrightarrow> \<not> about_configuration e) \<and> \<not> is_completed e" "published P q" for P q
  by unfold_locales (auto intro: published_refl published_trans leaf_published)

lemma nested_published: "published P q w (publish_nested (Suc 0) P (ErrorOccurred s c m) w)"
  using published_trans [OF note_event_published nested.invoke_all_inv [of q "ErrorOccurred s c m" P]]
  by (simp add: publish_nested_Suc published_refl)

interpretation outer: handler_contract d_bus kind_of "run_handler (publish_nested (Suc 0) P) P"
  "\<lambda>e. q \<longrightarrow> \<not> about_configuration e" "published P q" for P q
  by unfold_locales (auto intro: published_refl published_trans handler_published nested_published)

lemma daemon_pub_published: "q \<longrightarrow> \<not> about_configuration e \<Longrightarrow> published P q w (daemon_pub P e w)"
  using published_trans [OF note_event_published outer.invoke_all_inv [of q e P]]
  by (simp add: daemon_pub_def numeral_2_eq_2 publish_nested_Suc published_refl)

interpretation quiet: publisher_contract "daemon_pub P" "published P True" for P
  by unfold_locales (auto intro: published_refl published_trans daemon_pub_published)

interpretation announcing: configuration_publisher "daemon_pub P" "published P False" for P
  by unfold_locales (auto intro: published_refl published_trans daemon_pub_published)

end
