(* ===== verification/Daemon_Safety.thy ===== *)
theory Daemon_Safety
  imports Daemon_Publishing
begin

text \<open>
  The running process keeps its promises: what every step of the main loop leaves true of the session
  manager, the settings of the components, the clients and the subscriptions. The server's contracts
  \<open>server_callbacks\<close>, \<open>server_clients\<close> and \<open>server_world\<close> are interpreted on the callbacks of
  \<^verbatim>\<open>IpcService\<close>.
\<close>

section \<open>The other threads\<close>

lemma daemon_worker_step_form:
  "\<exists>q b wk. daemon_worker_step P w =
     w\<lparr>d_sm := (d_sm w)\<lparr>sm_queue := q\<rparr>, d_backend := b, d_server := (d_server w)\<lparr>sv_wake_pending := wk\<rparr>\<rparr> \<and>
     q = fst (fst (worker_step (backend_of P) (sm_queue (d_sm w), d_backend w)))"
proof -
  obtain q b ring where s: "worker_step (backend_of P) (sm_queue (d_sm w), d_backend w) = ((q, b), ring)"
    by (metis prod.collapse)
  show ?thesis
  proof (cases "ring = None \<or> \<not> sv_wake_open (d_server w)")
    case True
    then show ?thesis
      by (intro exI [of _ q] exI [of _ b] exI [of _ "sv_wake_pending (d_server w)"])
         (auto simp: daemon_worker_step_def s sv_wake_def Let_def split: option.splits)
  next
    case False
    then show ?thesis
      by (intro exI [of _ q] exI [of _ b] exI [of _ True])
         (auto simp: daemon_worker_step_def s sv_wake_def Let_def split: option.splits)
  qed
qed

text \<open>All that a step of another thread changes.\<close>

definition background_effect :: "'c daemon \<Rightarrow> 'c daemon \<Rightarrow> bool" where
  "background_effect w w' \<longleftrightarrow>
     (\<exists>sm b wk. w' = w\<lparr>d_sm := sm, d_backend := b, d_server := (d_server w)\<lparr>sv_wake_pending := wk\<rparr>\<rparr> \<and>
        sm_settings sm = sm_settings (d_sm w) \<and> sm_state sm = sm_state (d_sm w) \<and> (sm_inv (d_sm w) \<longrightarrow> sm_inv sm))"

lemma background_effect_refl: "background_effect w w"
  unfolding background_effect_def
  by (intro exI [of _ "d_sm w"] exI [of _ "d_backend w"] exI [of _ "sv_wake_pending (d_server w)"]) simp

lemma background_effect_trans: "background_effect w w' \<Longrightarrow> background_effect w' w'' \<Longrightarrow> background_effect w w''"
  unfolding background_effect_def by fastforce

lemma sm_inv_worker_step:
  "sm_inv sm \<Longrightarrow> sm_inv (sm\<lparr>sm_queue := fst (fst (worker_step be (sm_queue sm, b)))\<rparr>)"
  using sm_inv_exec [of "(sm, b, [])" be "WorkerMoves 1"] by (simp split: prod.splits)

lemma sm_inv_audio_step:
  "sm_inv sm \<Longrightarrow> sm_inv (sm\<lparr>sm_recording_manager := audio_step_exec a (sm_recording_manager sm)\<rparr>)"
  using sm_inv_exec [of "(sm, undefined, [])" undefined "AudioMoves a"] by simp

lemma sm_inv_audio_steps:
  "sm_inv sm \<Longrightarrow> sm_inv (sm\<lparr>sm_recording_manager := audio_steps as (sm_recording_manager sm)\<rparr>)"
proof (induction "as" arbitrary: sm)
  case (Cons a "as")
  from Cons.IH [OF sm_inv_audio_step [OF Cons.prems, of a]] show ?case by (simp add: audio_steps_def)
qed (simp add: audio_steps_def)

lemma background_step_effect: "background_effect w (background_step P m w)"
proof (cases m)
  case WorkerStep
  obtain q b wk where f: "daemon_worker_step P w =
      w\<lparr>d_sm := (d_sm w)\<lparr>sm_queue := q\<rparr>, d_backend := b, d_server := (d_server w)\<lparr>sv_wake_pending := wk\<rparr>\<rparr>"
    and q: "q = fst (fst (worker_step (backend_of P) (sm_queue (d_sm w), d_backend w)))"
    using daemon_worker_step_form by blast
  have "sm_settings ((d_sm w)\<lparr>sm_queue := q\<rparr>) = sm_settings (d_sm w)"
    "sm_state ((d_sm w)\<lparr>sm_queue := q\<rparr>) = sm_state (d_sm w)" by (simp_all add: sm_settings_def q)
  moreover have "sm_inv (d_sm w) \<Longrightarrow> sm_inv ((d_sm w)\<lparr>sm_queue := q\<rparr>)" unfolding q by (rule sm_inv_worker_step)
  ultimately show ?thesis
    unfolding background_effect_def WorkerStep background_step.simps f by blast
next
  case (AudioStep a)
  let ?sm = "(d_sm w)\<lparr>sm_recording_manager := audio_step_exec a (sm_recording_manager (d_sm w))\<rparr>"
  show ?thesis
    unfolding background_effect_def AudioStep background_step.simps
    by (intro exI [of _ ?sm] exI [of _ "d_backend w"] exI [of _ "sv_wake_pending (d_server w)"])
       (simp add: sm_settings_def sm_inv_audio_step)
qed

lemma background_steps_effect: "background_effect w (background_steps P ms w)"
  unfolding background_steps_def
proof (induction ms arbitrary: w)
  case (Cons m ms)
  from Cons.IH [of "background_step P m w"] background_step_effect show ?case
    by (auto intro: background_effect_trans)
qed (simp add: background_effect_refl)

section \<open>The subscriptions made by main\<close>

definition main_bus :: "(event_kind, handler) event_bus" where
  "main_bus =
     event_bridge_handlers
       (subscribe KConfigurationChanged ClipboardConfigured (subscribe KTranscriptionCompleted ClipboardCopy
         (subscribe KConfigurationChanged PreviewConfigured (subscribe KRecordingStarted PreviewReset
           (subscribe KConfigurationChanged SessionConfigured
             (log_domain_events (subscribe KErrorOccurred LogError empty_bus)))))))"

lemma main_subscribers:
  "subscribers KConfigurationChanged main_bus =
     [LogEvent, SessionConfigured, PreviewConfigured, ClipboardConfigured, Broadcast]"
  "subscribers KTranscriptionCompleted main_bus = [LogEvent, ClipboardCopy, Broadcast]"
  "subscribers KErrorOccurred main_bus = [LogError, Broadcast]"
  "subscribers KRecordingStarted main_bus = [LogEvent, PreviewReset, Broadcast]"
  by (simp_all add: main_bus_def event_bridge_handlers_def log_domain_events_def)

lemma broadcast_frame [simp]:
  "d_sm (broadcast P e w) = d_sm w" "d_lt (broadcast P e w) = d_lt w" "d_clip (broadcast P e w) = d_clip w"
  "d_cm (broadcast P e w) = d_cm w" "d_bus (broadcast P e w) = d_bus w" "d_copies (broadcast P e w) = d_copies w"
  "d_subscribed (broadcast P e w) = d_subscribed w"
  by (simp_all add: broadcast_def split: option.splits)

lemma logger_frame [simp]:
  "d_sm (logger P l m w) = d_sm w" "d_lt (logger P l m w) = d_lt w" "d_clip (logger P l m w) = d_clip w"
  "d_cm (logger P l m w) = d_cm w" "d_bus (logger P l m w) = d_bus w" "d_copies (logger P l m w) = d_copies w"
  "d_subscribed (logger P l m w) = d_subscribed w" "d_server (logger P l m w) = d_server w"
  "d_abnormal (logger P l m w) = d_abnormal w" "d_backend (logger P l m w) = d_backend w"
  by (simp_all add: logger_def)

lemma invoke_run_Cons:
  "d_abnormal (handler_effect pub P h e w) = None \<Longrightarrow>
     invoke_all (run_handler pub P) (h # hs) e w = invoke_all (run_handler pub P) hs e (handler_effect pub P h e w)"
  by (simp add: run_handler_def Let_def)

lemma invoke_run_last: "fst (invoke_all (run_handler pub P) [h] e w) = handler_effect pub P h e w"
  by (simp add: run_handler_def Let_def split: option.splits)

lemma daemon_pub_main:
  "d_bus w = main_bus \<Longrightarrow> d_abnormal w = None \<Longrightarrow>
     daemon_pub P e w =
       fst (invoke_all (run_handler (publish_nested (Suc 0) P) P) (subscribers (kind_of e) main_bus) e (note_event e w))"
  by (simp add: daemon_pub_def numeral_2_eq_2 publish_nested_Suc)

lemma configured_handlers:
  "handler_effect pub P SessionConfigured (ConfigurationChanged c) w = w\<lparr>d_sm := sm_on_configuration_changed c (d_sm w)\<rparr>"
  "handler_effect pub P PreviewConfigured (ConfigurationChanged c) w = w\<lparr>d_lt := lt_on_configuration_changed c (d_lt w)\<rparr>"
  "handler_effect pub P ClipboardConfigured (ConfigurationChanged c) w = w\<lparr>d_clip := ac_on_configuration_changed c (d_clip w)\<rparr>"
  "handler_effect pub P LogEvent e w = logger P (fst (event_message e)) (snd (event_message e)) w"
  "handler_effect pub P Broadcast e w = broadcast P e w"
  by simp_all

lemma configured_abnormal:
  "d_abnormal (w\<lparr>d_sm := sm\<rparr>) = d_abnormal w" "d_abnormal (w\<lparr>d_lt := lt\<rparr>) = d_abnormal w"
  "d_abnormal (w\<lparr>d_clip := ac\<rparr>) = d_abnormal w"
  by simp_all

lemma configure_effect:
  assumes "d_bus w = main_bus" and "d_abnormal w = None"
  shows "d_sm (daemon_pub P (ConfigurationChanged c) w) = sm_on_configuration_changed c (d_sm w)"
    and "d_lt (daemon_pub P (ConfigurationChanged c) w) = lt_on_configuration_changed c (d_lt w)"
    and "d_clip (daemon_pub P (ConfigurationChanged c) w) = ac_on_configuration_changed c (d_clip w)"
  using assms(2)
  by (simp_all only: daemon_pub_main [OF assms] kind_of.simps main_subscribers invoke_run_Cons invoke_run_last
      configured_handlers configured_abnormal logger_frame broadcast_frame note_event_frame)
     simp_all

section \<open>What subscribers are told\<close>

definition same_clients :: "'c daemon \<Rightarrow> 'c daemon \<Rightarrow> bool" where
  "same_clients w w' \<longleftrightarrow>
     d_bus w' = d_bus w \<and> d_subscribed w' = d_subscribed w \<and>
     sv_read_buffers (d_server w') = sv_read_buffers (d_server w) \<and> sv_open (d_server w') = sv_open (d_server w) \<and>
     sv_listening (d_server w') = sv_listening (d_server w) \<and> sv_wake_open (d_server w') = sv_wake_open (d_server w)"

lemma same_clients_trans: "same_clients w w' \<Longrightarrow> same_clients w' w'' \<Longrightarrow> same_clients w w''"
  by (simp add: same_clients_def)

lemma published_clients: "published P q w w' \<Longrightarrow> same_clients w w'"
  by (simp add: published_def same_process_def same_clients_def)

abbreviation lines_for :: "('c, 'n) platform \<Rightarrow> event list \<Rightarrow> string" where
  "lines_for P es \<equiv> lines_of (map (\<lambda>e. the (encode_event (pf_json P) e)) es)"

text \<open>
  When the kernel takes everything that is written, each subscribed client is sent exactly the lines of what was published in
  between, in that order, and nobody else is sent anything. A process that ends on the way stays ended.
\<close>

definition announced :: "('c, 'n) platform \<Rightarrow> 'c daemon \<Rightarrow> 'c daemon \<Rightarrow> bool" where
  "announced P w w' \<longleftrightarrow>
     same_clients w w' \<and> (d_abnormal w \<noteq> None \<longrightarrow> d_abnormal w' \<noteq> None) \<and>
     (d_bus w = main_bus \<and> d_abnormal w' = None \<and> sv_kernel (d_server w) = [] \<and> distinct (d_subscribed w) \<longrightarrow>
        sv_kernel (d_server w') = [] \<and>
        (\<exists>es. d_trace w' = d_trace w @ es \<and>
           (d_subscribed w \<noteq> [] \<longrightarrow> (\<forall>e \<in> set es. encode_event (pf_json P) e \<noteq> None)) \<and>
           (\<forall>c. sv_sent (d_server w') c = sv_sent (d_server w) c @
              (if c \<in> set (d_subscribed w) \<and> sv_read_buffers (d_server w) c \<noteq> None then lines_for P es else []))))"

lemma announced_refl: "announced P w w"
  unfolding announced_def by (auto simp: same_clients_def intro!: exI [of _ "[]"])

lemma announced_trans:
  assumes "announced P w w'" and "announced P w' w''"
  shows "announced P w w''"
proof -
  have same: "same_clients w w'" "same_clients w' w''" and dead: "d_abnormal w \<noteq> None \<Longrightarrow> d_abnormal w'' \<noteq> None"
    and alive: "d_abnormal w'' = None \<Longrightarrow> d_abnormal w' = None"
    using assms by (auto simp: announced_def)
  then have frame: "d_bus w' = d_bus w" "d_subscribed w' = d_subscribed w" "sv_read_buffers (d_server w') = sv_read_buffers (d_server w)"
    by (simp_all add: same_clients_def)
  have "sv_kernel (d_server w'') = [] \<and> (\<exists>es. d_trace w'' = d_trace w @ es \<and>
      (d_subscribed w \<noteq> [] \<longrightarrow> (\<forall>e \<in> set es. encode_event (pf_json P) e \<noteq> None)) \<and>
      (\<forall>c. sv_sent (d_server w'') c = sv_sent (d_server w) c @
         (if c \<in> set (d_subscribed w) \<and> sv_read_buffers (d_server w) c \<noteq> None then lines_for P es else [])))"
    if "d_bus w = main_bus \<and> d_abnormal w'' = None \<and> sv_kernel (d_server w) = [] \<and> distinct (d_subscribed w)"
  proof -
    from that assms(1) alive obtain es where 1: "sv_kernel (d_server w') = []" "d_trace w' = d_trace w @ es"
      "d_subscribed w \<noteq> [] \<longrightarrow> (\<forall>e \<in> set es. encode_event (pf_json P) e \<noteq> None)"
      "\<And>c. sv_sent (d_server w') c = sv_sent (d_server w) c @
         (if c \<in> set (d_subscribed w) \<and> sv_read_buffers (d_server w) c \<noteq> None then lines_for P es else [])"
      unfolding announced_def by blast
    from that assms(2) 1(1) obtain es' where 2: "sv_kernel (d_server w'') = []" "d_trace w'' = d_trace w' @ es'"
      "d_subscribed w \<noteq> [] \<longrightarrow> (\<forall>e \<in> set es'. encode_event (pf_json P) e \<noteq> None)"
      "\<And>c. sv_sent (d_server w'') c = sv_sent (d_server w') c @
         (if c \<in> set (d_subscribed w) \<and> sv_read_buffers (d_server w) c \<noteq> None then lines_for P es' else [])"
      unfolding announced_def frame by blast
    from 1 2 show ?thesis by (intro conjI exI [of _ "es @ es'"]) auto
  qed
  moreover have "same_clients w w''" using same by (rule same_clients_trans)
  ultimately show ?thesis using dead unfolding announced_def by blast
qed

text \<open>Handlers before the bridge's do not touch the clients, except the clipboard's when a transcript is complete.\<close>

lemma leaf_handler:
  assumes "h \<noteq> Broadcast" and "\<not> is_completed e"
  shows "d_server (handler_effect pub P h e w) = d_server w \<and> d_subscribed (handler_effect pub P h e w) = d_subscribed w \<and>
     d_abnormal (handler_effect pub P h e w) = d_abnormal w \<and> d_trace (handler_effect pub P h e w) = d_trace w"
  using assms by (cases h) (auto simp: logger_def split: event.split)

lemma invoke_leaf:
  assumes "Broadcast \<notin> set hs" and "\<not> is_completed e" and "d_abnormal w = None"
  shows "\<exists>w'. invoke_all (run_handler pub P) (hs @ hs') e w = invoke_all (run_handler pub P) hs' e w' \<and>
     d_server w' = d_server w \<and> d_subscribed w' = d_subscribed w \<and> d_abnormal w' = None \<and> d_trace w' = d_trace w"
  using assms
proof (induction hs arbitrary: w)
  case (Cons h hs)
  let ?w = "handler_effect pub P h e w"
  have "h \<noteq> Broadcast" using Cons.prems(1) by auto
  note keep = leaf_handler [OF this Cons.prems(2), of pub P w]
  with Cons.IH [of ?w] Cons.prems show ?case by (simp only: append_Cons invoke_run_Cons) auto
qed auto

lemma main_bus_bridge_last: "\<exists>hs. subscribers k main_bus = hs @ [Broadcast] \<and> Broadcast \<notin> set hs"
  by (rule exI [of _ "butlast (subscribers k main_bus)"])
     (cases k; simp add: main_bus_def event_bridge_handlers_def log_domain_events_def)

lemma daemon_pub_announced:
  assumes "\<not> is_completed e"
  shows "announced P w (daemon_pub P e w)"
proof -
  have same: "same_clients w (daemon_pub P e w)" using published_clients [OF daemon_pub_published [of False e P w]] by simp
  have dead: "d_abnormal w \<noteq> None \<Longrightarrow> daemon_pub P e w = w" by (simp add: daemon_pub_def numeral_2_eq_2 publish_nested_Suc)
  show ?thesis
  proof (cases "d_abnormal w = None \<and> d_bus w = main_bus \<and> d_abnormal (daemon_pub P e w) = None")
    case False
    with same dead show ?thesis by (auto simp: announced_def)
  next
    case True
    obtain hs where hs: "subscribers (kind_of e) main_bus = hs @ [Broadcast]" "Broadcast \<notin> set hs"
      using main_bus_bridge_last by blast
    from invoke_leaf [OF hs(2) assms, of "note_event e w" "publish_nested (Suc 0) P" P "[Broadcast]"] True obtain w' where
      w': "daemon_pub P e w = broadcast P e w'" "d_server w' = d_server w" "d_subscribed w' = d_subscribed w" "d_trace w' = d_trace w @ [e]"
      using daemon_pub_main [of w P e] invoke_run_last [of "publish_nested (Suc 0) P" P Broadcast e]
      unfolding hs(1) note_event_frame by (metis handler_effect.simps(8))
    have b: "d_subscribed w = [] \<and> broadcast P e w' = w' \<or>
        (\<exists>line. encode_event (pf_json P) e = Some line \<and>
           broadcast P e w' = w'\<lparr>d_server := fold (\<lambda>c. send_line c line) (d_subscribed w) (d_server w)\<rparr>)"
      using True unfolding w'(1) by (auto simp: broadcast_def w' split: if_splits option.splits)
    then have "sv_kernel (d_server (broadcast P e w')) = [] \<and> d_trace (broadcast P e w') = d_trace w @ [e] \<and>
        (d_subscribed w \<noteq> [] \<longrightarrow> encode_event (pf_json P) e \<noteq> None) \<and>
        (\<forall>c. sv_sent (d_server (broadcast P e w')) c = sv_sent (d_server w) c @
           (if c \<in> set (d_subscribed w) \<and> sv_read_buffers (d_server w) c \<noteq> None then lines_for P [e] else []))"
      if "sv_kernel (d_server w) = []" "distinct (d_subscribed w)"
      using that by (auto simp: w' send_lines_open)
    with same True show ?thesis unfolding announced_def w'(1) by (auto intro!: exI [of _ "[e]"])
  qed
qed

interpretation telling: command_publisher "daemon_pub P" "announced P" for P
  by unfold_locales (auto intro: announced_refl announced_trans daemon_pub_announced)

lemma announced_update [simp]:
  "announced P w (w'\<lparr>d_sm := sm\<rparr>) = announced P w w'" "announced P w (w'\<lparr>d_fs := fs\<rparr>) = announced P w w'"
  "announced P w (w'\<lparr>d_cm := cm\<rparr>) = announced P w w'"
  by (simp_all add: announced_def same_clients_def)

lemma announced_ended: "announced P w w' \<Longrightarrow> announced P w (w'\<lparr>d_abnormal := Some a\<rparr>)"
  by (simp add: announced_def same_clients_def)

section \<open>What stays true of the components\<close>

definition settings_agree :: "'c daemon \<Rightarrow> bool" where
  "settings_agree w \<longleftrightarrow>
     (let c = cm_configuration (d_cm w)
      in sm_default_language (d_sm w) = default_language c \<and> sm_transcription_prompt (d_sm w) = transcription_prompt c \<and>
         lt_default_language (d_lt w) = default_language c \<and> lt_transcription_prompt (d_lt w) = transcription_prompt c \<and>
         is_enabled (d_clip w) = auto_clipboard c \<and> validate c = [])"

definition abnormal_ok :: "('c, 'n) platform \<Rightarrow> 'c daemon \<Rightarrow> bool" where
  "abnormal_ok P w \<longleftrightarrow>
     d_abnormal w = None \<or> d_abnormal w = Some DumpThrows \<or>
     (d_abnormal w = Some CopyHangs \<and> \<not> copies_return P)"

definition world_ok :: "('c, 'n) platform \<Rightarrow> 'c daemon \<Rightarrow> bool" where
  "world_ok P w \<longleftrightarrow>
     d_bus w = main_bus \<and> distinct (d_subscribed w) \<and> abnormal_ok P w \<and>
     sm_inv (d_sm w) \<and> q_capacity (sm_queue (d_sm w)) = default_capacity \<and> settings_agree w"

lemma abnormal_ok_step: "abnormal_ok P w \<Longrightarrow> abnormal_step P w w' \<Longrightarrow> abnormal_ok P w'"
  by (auto simp: abnormal_ok_def abnormal_step_def)

lemma world_ok_background:
  assumes "world_ok P w" and "background_effect w w'"
  shows "world_ok P w'"
  using assms by (auto simp: world_ok_def background_effect_def settings_agree_def sm_settings_def abnormal_ok_def Let_def)

text \<open>An operation of the session manager: it published, and its result is stored.\<close>

lemma world_ok_session:
  assumes "world_ok P w" and "published P True w w1" and "sm_inv sm'" and "sm_settings sm' = sm_settings (d_sm w)"
  shows "world_ok P (w1\<lparr>d_sm := sm', d_backend := b\<rparr>)"
  using assms abnormal_ok_step [of P w w1]
  by (auto simp: world_ok_def published_def same_process_def same_settings_def settings_agree_def sm_settings_def
      abnormal_ok_def Let_def)

lemma world_ok_session':
  assumes "world_ok P w" and "published P True w w1" and "sm_inv sm'" and "sm_settings sm' = sm_settings (d_sm w)"
  shows "world_ok P (w1\<lparr>d_sm := sm'\<rparr>)"
  using world_ok_session [OF assms, of "d_backend w1"] by simp

lemma world_ok_logger: "world_ok P w \<Longrightarrow> world_ok P (logger P l m w)"
  by (simp add: world_ok_def settings_agree_def abnormal_ok_def)

lemma sm_inv_configured: "sm_inv (sm_on_configuration_changed c sm) = sm_inv sm"
  by (cases "sm_state sm") (simp_all add: sm_inv_def sm_on_configuration_changed_def)

lemma world_ok_configured:
  assumes "world_ok P w" and "d_abnormal w = None" and "validate c = []"
    and w1_def: "w1 = daemon_pub P (ConfigurationChanged c) w"
  shows "world_ok P (w1\<lparr>d_cm := (d_cm w)\<lparr>cm_configuration := c\<rparr>, d_fs := fs\<rparr>)"
proof -
  have pub: "published P False w w1" unfolding w1_def by (rule daemon_pub_published) simp
  have eff: "d_sm w1 = sm_on_configuration_changed c (d_sm w)" "d_lt w1 = lt_on_configuration_changed c (d_lt w)"
    "d_clip w1 = ac_on_configuration_changed c (d_clip w)"
    using configure_effect [of w P c] assms(1,2) by (simp_all add: w1_def world_ok_def)
  have "abnormal_ok P w1" using abnormal_ok_step [of P w w1] pub assms(1) by (simp add: published_def world_ok_def)
  moreover have "sm_inv (d_sm w1)" "d_bus w1 = main_bus" "distinct (d_subscribed w1)"
    using assms(1) pub by (simp_all add: world_ok_def eff sm_inv_configured published_def same_process_def)
  moreover have "sm_default_language (d_sm w1) = default_language c" "sm_transcription_prompt (d_sm w1) = transcription_prompt c"
    "q_capacity (sm_queue (d_sm w1)) = default_capacity"
    using assms(1) by (simp_all add: eff sm_on_configuration_changed_def world_ok_def)
  ultimately show ?thesis
    using assms(3)
    by (simp add: world_ok_def settings_agree_def abnormal_ok_def eff lt_on_configuration_changed_def
        ac_on_configuration_changed_def is_enabled_def)
qed

section \<open>What a command does\<close>

inductive command_effect :: "('c, 'n) platform \<Rightarrow> 'c daemon \<Rightarrow> 'c daemon \<Rightarrow> bool" for P w where
  answered: "command_effect P w w"
| session: "published P True w w1 \<Longrightarrow> announced P w w1 \<Longrightarrow> sm_settings sm' = sm_settings (d_sm w) \<Longrightarrow>
    (sm_inv (d_sm w) \<Longrightarrow> sm_inv sm') \<Longrightarrow> command_effect P w (w1\<lparr>d_sm := sm'\<rparr>)"
| empty_optional: "\<not> sm_inv (d_sm w) \<Longrightarrow> published P True w w1 \<Longrightarrow> announced P w w1 \<Longrightarrow>
    command_effect P w (w1\<lparr>d_sm := sm', d_abnormal := Some EmptyOptional\<rparr>)"
| refused: "command_effect P w (w\<lparr>d_fs := fs\<rparr>)"
| configured: "validate c = [] \<Longrightarrow> w1 = daemon_pub P (ConfigurationChanged c) w \<Longrightarrow>
    command_effect P w (w1\<lparr>d_cm := (d_cm w)\<lparr>cm_configuration := c\<rparr>, d_fs := fs\<rparr>)"

lemma start_command: "command_effect P w (snd (handle_start_recording P env type w))"
proof -
  obtain r sm' w1 where s: "start_session (daemon_pub P) (le_open env) (le_now env) (le_now' env) (d_sm w) w = (r, sm', w1)"
    by (metis prod.collapse)
  have "command_effect P w (w1\<lparr>d_sm := sm'\<rparr>)"
    using quiet.start_session_R [OF s] telling.start_session_R [OF s] start_session_settings [OF s] sm_inv_start [OF _ s] by (rule command_effect.session)
  then show ?thesis by (cases r) (simp_all add: handle_start_recording_def s split: session_error.split)
qed

lemma stop_command: "command_effect P w (snd (handle_stop_recording P env type w))"
proof -
  obtain r sm' w1 where s: "stop_session (daemon_pub P) (le_late env) (le_now env) (le_now' env) (le_enqueued_at env) (d_sm w) w = (r, sm', w1)"
    by (metis prod.collapse)
  have "command_effect P w (if r = None then w1\<lparr>d_sm := sm', d_abnormal := Some EmptyOptional\<rparr> else w1\<lparr>d_sm := sm'\<rparr>)"
    using quiet.stop_session_R [OF s] telling.stop_session_R [OF s] stop_session_settings [OF s] sm_inv_stop [OF _ s]
    by (auto intro: command_effect.session command_effect.empty_optional)
  then show ?thesis
    by (cases r) (simp_all add: handle_stop_recording_def s split: sum.split session_error.split)
qed

lemma cancel_job_command: "command_effect P w (snd (handle_cancel_job P type line w))"
proof (cases "decode_cancel_job (pf_json P) line")
  case None
  then show ?thesis by (simp add: handle_cancel_job_def command_effect.answered)
next
  case (Some sid)
  obtain r sm' w1 where s: "cancel_job (daemon_pub P) sid (d_sm w) w = (r, sm', w1)" by (metis prod.collapse)
  have "command_effect P w (w1\<lparr>d_sm := sm'\<rparr>)"
    using quiet.cancel_job_R [OF s] telling.cancel_job_R [OF s] cancel_job_settings [OF s] sm_inv_cancel_job [OF _ s] by (rule command_effect.session)
  then show ?thesis by (simp add: handle_cancel_job_def Some s)
qed

lemma cancel_session_command: "command_effect P w (snd (handle_cancel_session P env type w))"
proof -
  obtain r sm' w1 where s: "cancel_session (daemon_pub P) (le_late env) (d_sm w) w = (r, sm', w1)" by (metis prod.collapse)
  have "command_effect P w (w1\<lparr>d_sm := sm'\<rparr>)"
    using quiet.cancel_session_R [OF s] telling.cancel_session_R [OF s] cancel_session_settings [OF s] sm_inv_cancel [OF _ s] by (rule command_effect.session)
  then show ?thesis by (cases r) (simp_all add: handle_cancel_session_def s split: session_error.split)
qed

lemma update_command:
  assumes "cm_update (daemon_pub P) T io c (d_cm w) (d_fs w) w = (errors, cm', trace, w1)"
  shows "command_effect P w (w1\<lparr>d_cm := cm', d_fs := last trace\<rparr>)"
proof (cases "errors = []")
  case True
  with assms have "validate c = []" "cm' = (d_cm w)\<lparr>cm_configuration := c\<rparr>" "w1 = daemon_pub P (ConfigurationChanged c) w"
    by (auto simp: cm_update_def Let_def split: if_splits prod.splits option.splits)
  then show ?thesis using command_effect.configured by metis
next
  case False
  with assms have "cm' = d_cm w" "w1 = w"
    by (auto simp: cm_update_def Let_def split: if_splits prod.splits option.splits)
  then show ?thesis using command_effect.refused [of P w "last trace"] by simp
qed

lemma set_config_command: "command_effect P w (snd (handle_set_config P env type line w))"
proof -
  obtain c e where d: "decode_set_config (pf_json P) line (cm_configuration (d_cm w)) = (c, e)" by fastforce
  obtain errors cm' trace w1 where u: "cm_update (daemon_pub P) (pf_toml P) (le_io env) c (d_cm w) (d_fs w) w = (errors, cm', trace, w1)"
    by (metis prod.collapse)
  from update_command [OF u] show ?thesis
    by (cases e) (simp_all add: handle_set_config_def d u command_effect.answered Let_def)
qed

lemma handle_line_command: "command_effect P w (snd (handle_line P env line w))"
  by (simp add: handle_line_def start_command stop_command cancel_job_command cancel_session_command set_config_command
      command_effect.answered split: sum.split)

section \<open>What a command keeps\<close>

lemma background_clients: "background_effect w w' \<Longrightarrow> same_clients w w'"
  by (auto simp: background_effect_def same_clients_def)

lemma command_clients: "command_effect P w w' \<Longrightarrow> same_clients w w'"
proof (induction rule: command_effect.induct)
  case (configured c w1 fs)
  have "published P False w w1" unfolding configured by (rule daemon_pub_published) simp
  then show ?case by (simp add: published_def same_process_def same_clients_def)
qed (simp_all add: published_def same_process_def same_clients_def)

lemma command_announced: "command_effect P w w' \<Longrightarrow> announced P w w'"
  by (induction rule: command_effect.induct) (simp_all add: announced_refl announced_ended daemon_pub_announced)

lemma command_world_ok:
  assumes "command_effect P w w'" and "world_ok P w" and "d_abnormal w = None"
  shows "world_ok P w'"
  using assms(1)
proof cases
  case (session w1 sm')
  moreover have "sm_inv (d_sm w)" using assms(2) by (simp add: world_ok_def)
  ultimately show ?thesis using world_ok_session' [OF assms(2)] by simp
next
  case (configured c w1 fs)
  with world_ok_configured [OF assms(2,3)] show ?thesis by simp
next
  case empty_optional
  with assms(2) show ?thesis by (simp add: world_ok_def)
qed (use assms(2) in \<open>simp_all add: world_ok_def settings_agree_def abnormal_ok_def\<close>)

section \<open>Handling a line\<close>

lemma send_reply_clients: "same_clients w (send_reply c r w)"
  by (auto simp: send_reply_def same_clients_def split: option.splits)

lemma send_reply_world_ok: "world_ok P w \<Longrightarrow> world_ok P (send_reply c r w)"
  by (auto simp: send_reply_def world_ok_def settings_agree_def abnormal_ok_def split: option.splits)

lemma bridge_world_ok:
  "world_ok P w \<Longrightarrow> world_ok P (bridge_subscribe P c w)" "world_ok P w \<Longrightarrow> world_ok P (bridge_unsubscribe c w)"
  by (simp_all add: bridge_subscribe_def bridge_unsubscribe_def world_ok_def settings_agree_def abnormal_ok_def
      distinct_insort)

lemma bridge_clients:
  "d_server (bridge_subscribe P c w) = d_server w" "d_server (bridge_unsubscribe c w) = d_server w"
  "set (d_subscribed (bridge_subscribe P c w)) = insert c (set (d_subscribed w))"
  "set (d_subscribed (bridge_unsubscribe c w)) = set (d_subscribed w) - {c}"
  by (auto simp: bridge_subscribe_def bridge_unsubscribe_def set_insort_key)

text \<open>What the other threads did before the line is handled.\<close>

abbreviation before_line :: "('c, 'n) platform \<Rightarrow> 'c daemon \<Rightarrow> 'c daemon" where
  "before_line P w \<equiv> background_steps P (le_background (pf_line P (d_lines w))) (w\<lparr>d_lines := Suc (d_lines w)\<rparr>)"

lemma before_line_effect: "background_effect (w\<lparr>d_lines := Suc (d_lines w)\<rparr>) (before_line P w)"
  by (rule background_steps_effect)

lemma before_line_clients: "same_clients w (before_line P w)"
  using background_clients [OF before_line_effect, of w P] by (simp add: same_clients_def)

lemma before_line_world_ok: "world_ok P w \<Longrightarrow> world_ok P (before_line P w)"
  by (rule world_ok_background [OF _ before_line_effect]) (simp add: world_ok_def settings_agree_def abnormal_ok_def)

lemma before_line_abnormal: "d_abnormal (before_line P w) = d_abnormal w"
  using before_line_effect [of w P] by (auto simp: background_effect_def)

lemma handle_message_clients:
  "sv_read_buffers (d_server (handle_message P c line w)) = sv_read_buffers (d_server w)"
  "sv_open (d_server (handle_message P c line w)) = sv_open (d_server w)"
  "sv_listening (d_server (handle_message P c line w)) = sv_listening (d_server w)"
  "sv_wake_open (d_server (handle_message P c line w)) = sv_wake_open (d_server w)"
  "set (d_subscribed (handle_message P c line w)) \<subseteq> insert c (set (d_subscribed w))"
proof -
  let ?w = "before_line P w"
  obtain r w1 where h: "handle_line P (pf_line P (d_lines w)) line ?w = (r, w1)" by fastforce
  have "same_clients ?w w1" using command_clients [OF handle_line_command [of P ?w "pf_line P (d_lines w)" line]] h by simp
  then have 1: "same_clients w (send_reply c r w1)"
    using before_line_clients [of w P] send_reply_clients [of w1 c r] by (blast intro: same_clients_trans)
  have 2: "same_clients (bridge_subscribe P c ?w) (send_reply c q (bridge_subscribe P c ?w))"
    "same_clients (bridge_unsubscribe c ?w) (send_reply c q (bridge_unsubscribe c ?w))" for q
    by (rule send_reply_clients)+
  show "sv_read_buffers (d_server (handle_message P c line w)) = sv_read_buffers (d_server w)"
    "sv_open (d_server (handle_message P c line w)) = sv_open (d_server w)"
    "sv_listening (d_server (handle_message P c line w)) = sv_listening (d_server w)"
    "sv_wake_open (d_server (handle_message P c line w)) = sv_wake_open (d_server w)"
    "set (d_subscribed (handle_message P c line w)) \<subseteq> insert c (set (d_subscribed w))"
    using 1 2 before_line_clients [of w P] by (auto simp: handle_message_def h same_clients_def bridge_clients Let_def)
qed

lemma handle_message_world_ok:
  assumes "world_ok P w" and "d_abnormal w = None"
  shows "world_ok P (handle_message P c line w)"
proof -
  let ?w = "before_line P w"
  obtain r w1 where h: "handle_line P (pf_line P (d_lines w)) line ?w = (r, w1)" by fastforce
  have "world_ok P ?w" "d_abnormal ?w = None"
    using before_line_world_ok [OF assms(1)] assms(2) by (simp_all add: before_line_abnormal)
  moreover from this have "world_ok P w1"
    using command_world_ok [OF handle_line_command [of P ?w "pf_line P (d_lines w)" line]] h by simp
  ultimately show ?thesis by (simp add: handle_message_def h send_reply_world_ok bridge_world_ok Let_def)
qed

interpretation ipc: server_clients "on_line P" on_disconnect "\<lambda>w. set (d_subscribed w)" for P
proof
  fix fd :: client_id and l :: string and s :: "ipc_server \<times> 'a daemon"
  note facts = handle_message_clients [where P = P and w = "snd s\<lparr>d_server := fst s\<rparr>" and c = fd and line = l]
  show "sv_read_buffers (fst (on_line P fd l s)) = sv_read_buffers (fst s)"
    "sv_open (fst (on_line P fd l s)) = sv_open (fst s)"
    "sv_listening (fst (on_line P fd l s)) = sv_listening (fst s)"
    "sv_wake_open (fst (on_line P fd l s)) = sv_wake_open (fst s)"
    "set (d_subscribed (snd (on_line P fd l s))) \<subseteq> insert fd (set (d_subscribed (snd s)))"
    using facts by (auto simp: on_line_def Let_def split: prod.splits)
qed (auto simp: on_disconnect_def bridge_clients split: prod.splits)

lemma world_ok_server: "world_ok P (w\<lparr>d_server := sv\<rparr>) = world_ok P w"
  by (simp add: world_ok_def settings_agree_def abnormal_ok_def)

interpretation ipc_world: server_world "on_line P" on_disconnect "world_ok P" for P
proof
  fix fd :: client_id and l :: string and s :: "ipc_server \<times> 'a daemon"
  assume ok: "world_ok P (snd s)"
  show "world_ok P (snd (on_line P fd l s))"
    using ok handle_message_world_ok [of P "snd s\<lparr>d_server := fst s\<rparr>" fd l]
    by (auto simp: on_line_def world_ok_server Let_def split: prod.splits)
  show "world_ok P (snd (on_disconnect fd s))"
    using ok by (auto simp: on_disconnect_def bridge_world_ok split: prod.splits)
qed

section \<open>The main loop\<close>

definition daemon_inv :: "('c, 'n) platform \<Rightarrow> 'c daemon \<Rightarrow> bool" where
  "daemon_inv P w \<longleftrightarrow>
     world_ok P w \<and> server_inv (d_server w) \<and> set (d_subscribed w) \<subseteq> dom (sv_read_buffers (d_server w))"

lemma daemon_inv_same_clients:
  "daemon_inv P w \<Longrightarrow> same_clients w w' \<Longrightarrow> world_ok P w' \<Longrightarrow> daemon_inv P w'"
  by (simp add: daemon_inv_def same_clients_def server_inv_def)

lemma daemon_inv_background: "daemon_inv P w \<Longrightarrow> daemon_inv P (background_steps P ms w)"
  by (rule daemon_inv_same_clients [OF _ background_clients [OF background_steps_effect]
      world_ok_background [OF _ background_steps_effect]]) (simp_all add: daemon_inv_def)

lemma daemon_inv_poll:
  assumes "daemon_inv P w"
  shows "daemon_inv P (service_poll P env w)"
proof -
  obtain sv w' where p: "poll_once env (on_line P) on_disconnect (d_server w, w) = (sv, w')" by fastforce
  have inv: "server_inv (d_server w)" "set (d_subscribed w) \<subseteq> dom (sv_read_buffers (d_server w))" "world_ok P w"
    using assms by (simp_all add: daemon_inv_def)
  then show ?thesis
    using ipc.poll_once_inv [of "(d_server w, w)" env P] ipc.poll_once_clients [of "(d_server w, w)" env P]
      ipc_world.poll_once_world [of P "(d_server w, w)" env] p
    by (simp add: daemon_inv_def service_poll_def world_ok_server)
qed

lemma same_clients_update [simp]:
  "same_clients w (w'\<lparr>d_sm := sm\<rparr>) = same_clients w w'" "same_clients w (w'\<lparr>d_backend := b\<rparr>) = same_clients w w'"
  "same_clients w (w'\<lparr>d_lt := lt\<rparr>) = same_clients w w'"
  by (simp_all add: same_clients_def)

lemma sv_wake_frame [simp]:
  "sv_read_buffers (sv_wake sv) = sv_read_buffers sv" "sv_open (sv_wake sv) = sv_open sv"
  "sv_listening (sv_wake sv) = sv_listening sv" "sv_wake_open (sv_wake sv) = sv_wake_open sv"
  "sv_sent (sv_wake sv) = sv_sent sv" "sv_kernel (sv_wake sv) = sv_kernel sv"
  by (simp_all add: sv_wake_def)

lemma poll_results_clients: "same_clients w (poll_results P n w)"
proof -
  obtain k sm' b' w' where p: "poll_completed (daemon_pub P) (backend_of P) n (d_sm w) (d_backend w) w = (k, sm', b', w')"
    by (metis prod.collapse)
  from published_clients [OF quiet.poll_completed_R [OF p]] show ?thesis
    by (simp add: poll_results_def p) (simp add: same_clients_def)
qed

lemma preview_tick_clients: "same_clients w (preview_tick P now late w)"
proof -
  obtain lt' b' w' where t: "tick (daemon_pub P) (pf_round P) (backend_of P) now late (d_sm w) (d_lt w) (d_backend w) w = (lt', b', w')"
    by (metis prod.collapse)
  from published_clients [OF quiet.tick_R [OF t]] show ?thesis by (simp add: preview_tick_def t)
qed

lemma daemon_inv_results:
  assumes "daemon_inv P w"
  shows "daemon_inv P (poll_results P n w)"
proof -
  obtain k sm' b' w' where p: "poll_completed (daemon_pub P) (backend_of P) n (d_sm w) (d_backend w) w = (k, sm', b', w')"
    by (metis prod.collapse)
  have pub: "published P True w w'" using p by (rule quiet.poll_completed_R)
  have "world_ok P (w'\<lparr>d_sm := sm', d_backend := b'\<rparr>)"
    using assms sm_inv_poll [OF _ p] poll_completed_settings [OF p]
    by (intro world_ok_session [OF _ pub]) (simp_all add: daemon_inv_def world_ok_def)
  with daemon_inv_same_clients [OF assms poll_results_clients [of w P n]] show ?thesis
    by (simp add: poll_results_def p world_ok_server)
qed

lemma daemon_inv_tick:
  assumes "daemon_inv P w"
  shows "daemon_inv P (preview_tick P now late w)"
proof -
  obtain lt' b' w' where t: "tick (daemon_pub P) (pf_round P) (backend_of P) now late (d_sm w) (d_lt w) (d_backend w) w = (lt', b', w')"
    by (metis prod.collapse)
  have pub: "published P True w w'" using t by (rule quiet.tick_R)
  let ?sm = "(d_sm w)\<lparr>sm_recording_manager := audio_steps late (sm_recording_manager (d_sm w))\<rparr>"
  have "world_ok P (w'\<lparr>d_sm := ?sm, d_backend := b'\<rparr>)"
    using assms by (intro world_ok_session [OF _ pub])
      (simp_all add: daemon_inv_def world_ok_def sm_inv_audio_steps sm_settings_def)
  moreover have "d_sm w' = d_sm w" "lt_default_language (d_lt w') = lt_default_language (d_lt w)"
    "lt_transcription_prompt (d_lt w') = lt_transcription_prompt (d_lt w)"
    using pub by (simp_all add: published_def same_settings_def)
  ultimately have "world_ok P (w'\<lparr>d_lt := lt', d_backend := b', d_sm := ?sm\<rparr>)"
    using tick_settings [OF t] by (simp add: world_ok_def settings_agree_def abnormal_ok_def)
  with daemon_inv_same_clients [OF assms preview_tick_clients [of w P now late]] show ?thesis
    using \<open>d_sm w' = d_sm w\<close> by (simp add: preview_tick_def t)
qed

lemma steps_listening:
  "sv_listening (d_server (background_steps P ms w)) = sv_listening (d_server w)"
  "sv_listening (d_server (poll_results P n w)) = sv_listening (d_server w)"
  "sv_listening (d_server (preview_tick P now late w)) = sv_listening (d_server w)"
  using background_clients [OF background_steps_effect [of w P ms]] poll_results_clients [of w P n]
    preview_tick_clients [of w P now late] by (simp_all add: same_clients_def)

lemma loop_step_listening:
  assumes "daemon_inv P w"
  shows "sv_listening (d_server (loop_step P it w)) = sv_listening (d_server w)"
proof -
  obtain sv w' where p: "poll_once (it_poll it) (on_line P) on_disconnect (d_server w, w) = (sv, w')" by fastforce
  have "sv_listening (d_server (service_poll P (it_poll it) w)) = sv_listening (d_server w)"
    using ipc.poll_once_inv [of "(d_server w, w)" "it_poll it" P] assms p by (simp add: daemon_inv_def service_poll_def)
  then show ?thesis
    by (simp add: loop_step_def Let_def steps_listening)
qed

lemma daemon_inv_loop_step: "daemon_inv P w \<Longrightarrow> daemon_inv P (loop_step P it w)"
  by (simp add: loop_step_def daemon_inv_poll daemon_inv_background daemon_inv_results daemon_inv_tick Let_def)

lemma daemon_inv_run: "daemon_inv P w \<Longrightarrow> daemon_inv P (run_loop P its w)"
  unfolding run_loop_def by (induction its arbitrary: w) (simp_all add: daemon_inv_loop_step)

lemma run_loop_listening:
  "daemon_inv P w \<Longrightarrow> sv_listening (d_server (run_loop P its w)) = sv_listening (d_server w)"
  unfolding run_loop_def by (induction its arbitrary: w) (simp_all add: daemon_inv_loop_step loop_step_listening)

section \<open>Starting up\<close>

lemma loggers_frame:
  "d_bus (fold (\<lambda>e. logger P l (f e)) es w) = d_bus w" "d_cm (fold (\<lambda>e. logger P l (f e)) es w) = d_cm w"
  "d_subscribed (fold (\<lambda>e. logger P l (f e)) es w) = d_subscribed w"
  "d_server (fold (\<lambda>e. logger P l (f e)) es w) = d_server w"
  "d_abnormal (fold (\<lambda>e. logger P l (f e)) es w) = d_abnormal w"
  by (induction es arbitrary: w) simp_all

lemma load_configured_model_published:
  "\<exists>w' b. published P True w w' \<and> load_configured_model P bo c w = w'\<lparr>d_backend := b\<rparr>"
proof (cases "find_model (list_available_models (bo_listing bo)) (selected_model c)")
  case None
  then show ?thesis
    by (intro exI [of _ "load_configured_model P bo c w"] exI [of _ "d_backend (load_configured_model P bo c w)"])
       (simp add: load_configured_model_def logger_published)
next
  case (Some m)
  obtain r b w1 where l: "load_model (pf_whisper P) (daemon_pub P) (bo_exists bo) m (d_backend w) w = (r, b, w1)"
    by (metis prod.collapse)
  have pub: "published P True w w1" using l by (rule quiet.load_model_R)
  show ?thesis
  proof (cases r)
    case None
    then show ?thesis using pub by (auto simp: load_configured_model_def Some l)
  next
    case (Some e)
    obtain msg where e: "e = SpeechError msg" by (cases e)
    let ?m = "''failed to load model \"'' @ selected_model c @ ''\": '' @ msg"
    have "logger P Warn ?m (w1\<lparr>d_backend := b\<rparr>) = (logger P Warn ?m w1)\<lparr>d_backend := b\<rparr>" by (simp add: logger_def)
    moreover have "published P True w (logger P Warn ?m w1)" using pub logger_published by (rule published_trans)
    ultimately show ?thesis
      using \<open>find_model _ _ = Some m\<close> by (auto simp: load_configured_model_def l Some e)
  qed
qed

lemma daemon_inv_constructed:
  assumes "d_bus w = log_domain_events (subscribe KErrorOccurred LogError empty_bus)"
    and "validate (cm_configuration (d_cm w)) = []" and "d_subscribed w = []" and "abnormal_ok P w"
    and "server_inv (d_server w)"
  shows "daemon_inv P (construct_event_bridge (construct_auto_clipboard (construct_live_transcriber (construct_session_manager w))))"
proof -
  have "sm_inv (new_session_manager new_recording_manager (cm_configuration (d_cm w)) default_capacity)"
    by (rule sm_inv_new)
  moreover have "q_capacity (sm_queue (new_session_manager new_recording_manager (cm_configuration (d_cm w)) default_capacity)) = default_capacity"
    by (simp add: new_session_manager_def new_queue_def)
  moreover note assms
  ultimately show ?thesis
    by (simp add: construct_event_bridge_def construct_auto_clipboard_def construct_live_transcriber_def
        construct_session_manager_def daemon_inv_def world_ok_def main_bus_def abnormal_ok_def settings_agree_def)
       (simp add: new_session_manager_def new_live_transcriber_def new_auto_clipboard_def is_enabled_def)
qed

lemma boot_inv: "daemon_inv P (boot P bo) \<and> \<not> sv_listening (d_server (boot P bo))"
proof -
  define w0 where "w0 = logger P Info ''Yoru Speech started'' (bare_process bo)"
  define w1 where "w1 = w0\<lparr>d_bus := log_domain_events (subscribe KErrorOccurred LogError (d_bus w0))\<rparr>"
  obtain errors cm trace where l: "cm_load (pf_toml P) (bo_io bo) (d_cm w1) (d_fs w1) = (errors, cm, trace)"
    by (metis prod.collapse)
  define w2 where "w2 = fold (\<lambda>e. logger P Warn (''config: '' @ ve_field e @ '': '' @ ve_message e)) errors
      (w1\<lparr>d_cm := cm, d_fs := last trace\<rparr>)"
  obtain w' b where w3: "published P True w2 w'" "load_configured_model P bo (cm_configuration (d_cm w2)) w2 = w'\<lparr>d_backend := b\<rparr>"
    using load_configured_model_published by blast
  have boot: "boot P bo = construct_event_bridge (construct_auto_clipboard (construct_live_transcriber
      (construct_session_manager (w'\<lparr>d_backend := b\<rparr>))))"
    by (simp only: boot_def Let_def w0_def [symmetric] w1_def [symmetric] l prod.case w2_def [symmetric] w3(2))
  have w2: "d_bus w2 = log_domain_events (subscribe KErrorOccurred LogError empty_bus)" "d_cm w2 = cm"
    "d_subscribed w2 = []" "d_abnormal w2 = None" "d_server w2 = new_ipc_server (default_socket_path (bo_environment bo)) (bo_answers bo)"
    unfolding w2_def loggers_frame by (simp_all add: w1_def w0_def bare_process_def)
  have "abnormal_ok P w'"
    using abnormal_ok_step [of P w2 w'] w3(1) w2(4) by (simp add: abnormal_ok_def published_def)
  moreover have "d_bus w' = d_bus w2" "d_cm w' = cm" "d_subscribed w' = []"
    using w3(1) w2(2,3) by (simp_all add: published_def same_process_def)
  moreover have "server_inv (d_server w')" "\<not> sv_listening (d_server w')"
    using published_clients [OF w3(1)] server_inv_new [of "default_socket_path (bo_environment bo)" "bo_answers bo"] w2(5)
    by (simp_all add: same_clients_def server_inv_def new_ipc_server_def)
  ultimately show ?thesis
    using cm_load_valid [OF l] w2(1) daemon_inv_constructed [of "w'\<lparr>d_backend := b\<rparr>" P]
    by (simp add: boot abnormal_ok_def)
       (simp add: construct_event_bridge_def construct_auto_clipboard_def construct_live_transcriber_def construct_session_manager_def)
qed

lemmas daemon_inv_boot = boot_inv [THEN conjunct1]
lemmas boot_not_listening = boot_inv [THEN conjunct2]

lemma sm_inv_callback: "sm_inv (sm_set_activity_callback cb sm) = sm_inv sm"
  by (cases "sm_state sm") (simp_all add: sm_inv_def sm_set_activity_callback_def set_activity_callback_def queue_inv_def
      room_or_stopped_def has_capacity_def)

lemma daemon_inv_callback: "daemon_inv P w \<Longrightarrow> daemon_inv P (w\<lparr>d_sm := sm_set_activity_callback cb (d_sm w)\<rparr>)"
  by (simp add: daemon_inv_def world_ok_def settings_agree_def abnormal_ok_def sm_inv_callback)
     (simp add: sm_set_activity_callback_def set_activity_callback_def)

lemma start_up_listening: "start_up P bo = (True, w) \<Longrightarrow> sv_listening (d_server w) \<and> d_abnormal w = d_abnormal (boot P bo)"
  by (auto simp: start_up_def service_start_def sv_start_def Let_def split: if_splits option.splits ipc_error.splits)

lemma daemon_inv_start_up:
  assumes "start_up P bo = (ok, w)"
  shows "daemon_inv P w"
proof -
  obtain e sv where s: "sv_start (bo_start bo) (d_server (boot P bo)) = (e, sv)" by fastforce
  have "server_inv sv" "sv_read_buffers sv = sv_read_buffers (d_server (boot P bo))"
    using server_inv_start [of "d_server (boot P bo)" "bo_start bo"] daemon_inv_boot [of P bo] s
    by (auto simp: daemon_inv_def sv_start_def Let_def split: if_splits option.splits)
  with daemon_inv_boot [of P bo] have inv: "daemon_inv P ((boot P bo)\<lparr>d_server := sv\<rparr>)"
    by (simp add: daemon_inv_def world_ok_server)
  then have "daemon_inv P (logger P l m ((boot P bo)\<lparr>d_server := sv\<rparr>))" for l m
    by (simp add: daemon_inv_def world_ok_logger)
  moreover have "daemon_inv P (w\<lparr>d_sm := sm_set_activity_callback cb (d_sm w)\<rparr>)" if "daemon_inv P w" for w cb
    using that by (rule daemon_inv_callback)
  ultimately show ?thesis
    using assms
    by (cases e) (force simp: start_up_def service_start_def s split: ipc_error.splits)+
qed

end
