(* ===== verification/Protocol_Types.thy ===== *)
theory Protocol_Types
  imports Message_Codec
begin

text \<open>
  The types of the protocol's messages. Clients rely on which fields a message has and what they hold;
  the code says so only through its encoders (\<^verbatim>\<open>message_codec.cpp\<close>) and the comments of
  \<^verbatim>\<open>message_codec.hpp\<close>. A \<open>wire_type\<close> describes a value, \<open>has_wire_type\<close> checks one, and the
  schemas below list the fields of every reply and every event, with the optional ones marked. That what
  a client parses has the type announced for it is the subject of the lemmas.
\<close>

section \<open>Types\<close>

datatype wire_type =
    WBool
  | WExactly bool
  | WUnsigned
  | WInteger
  | WString
  | WEnum "string list"
  | WList wire_type
  | WObject "(string \<times> bool \<times> wire_type) list"   \<comment> \<open>key, whether it must be there, type\<close>

lemma json_size_array [termination_simp]: "j \<in> set js \<Longrightarrow> size j < Suc (size_list size js)"
  by (simp add: size_list_estimation' less_Suc_eq_le)

lemma json_size_object [termination_simp]: "(k, j) \<in> set kvs \<Longrightarrow> size j < Suc (size_list (size_prod (\<lambda>_. 0) size) kvs)"
  using size_list_estimation' [of "(k, j)" kvs "size j" "size_prod (\<lambda>_. 0) size"] by simp

fun has_wire_type :: "wire_type \<Rightarrow> json \<Rightarrow> bool" where
  "has_wire_type WBool (JBool b) = True"
| "has_wire_type (WExactly b) (JBool b') = (b' = b)"
| "has_wire_type WUnsigned (JUnsigned n) = (n < 2 ^ 64)"
| "has_wire_type WInteger (JUnsigned n) = (n < 2 ^ 63)"
| "has_wire_type WInteger (JInteger i) = (- (2 ^ 63) \<le> i \<and> i < 2 ^ 63)"
| "has_wire_type WString (JString s) = True"
| "has_wire_type (WEnum names) (JString s) = (s \<in> set names)"
| "has_wire_type (WList t) (JArray js) = (\<forall>j \<in> set js. has_wire_type t j)"
| "has_wire_type (WObject schema) (JObject kvs) =
     (distinct (map fst kvs) \<and>
      (\<forall>(k, required, t) \<in> set schema. required \<longrightarrow> k \<in> set (map fst kvs)) \<and>
      (\<forall>(k, j) \<in> set kvs. case map_of schema k of None \<Rightarrow> False | Some (_, t) \<Rightarrow> has_wire_type t j))"
| "has_wire_type _ _ = False"

section \<open>The messages\<close>

definition reply_schema :: "string \<Rightarrow> bool \<Rightarrow> (string \<times> bool \<times> wire_type) list \<Rightarrow> wire_type" where
  "reply_schema type ok schema = WObject ([(''type'', True, WEnum [type]), (''ok'', True, WExactly ok)] @ schema)"

definition error_fields :: "(string \<times> bool \<times> wire_type) list" where
  "error_fields = [(''error'', True, WString)]"

definition queued_fields :: "(string \<times> bool \<times> wire_type) list" where
  "queued_fields = [(''session_id'', True, WUnsigned), (''position'', True, WUnsigned)]"

definition state_fields :: "(string \<times> bool \<times> wire_type) list" where
  "state_fields =
     [(''state'', True, WEnum [''idle'', ''recording'', ''processing'', ''error'']), (''queued'', True, WUnsigned),
      (''processing'', True, WBool), (''last_completed'', False, WUnsigned), (''last_failed'', False, WUnsigned)]"

definition config_fields :: "(string \<times> bool \<times> wire_type) list" where
  "config_fields =
     [(''default_language'', True, WString), (''selected_model'', True, WString), (''auto_clipboard'', True, WBool),
      (''model_load_policy'', True, WEnum [''on_demand'', ''always_loaded'']), (''transcription_prompt'', True, WString)]"

definition model_schema_fields :: "(string \<times> bool \<times> wire_type) list" where
  "model_schema_fields =
     [(''name'', True, WString), (''size'', True, WEnum [''tiny'', ''base'', ''small'', ''medium'', ''large'']),
      (''supported_language'', True, WString), (''path'', True, WString), (''backend'', True, WString)]"

definition models_fields :: "(string \<times> bool \<times> wire_type) list" where
  "models_fields = [(''models'', True, WList (WObject model_schema_fields))]"

fun event_schema_fields :: "event_kind \<Rightarrow> (string \<times> bool \<times> wire_type) list" where
  "event_schema_fields KRecordingStarted = [(''session_id'', True, WUnsigned)]"
| "event_schema_fields KRecordingFinished =
     [(''session_id'', True, WUnsigned), (''duration_ms'', True, WInteger), (''sample_rate'', True, WUnsigned),
      (''channels'', True, WUnsigned)]"
| "event_schema_fields KTranscriptionQueued = [(''session_id'', True, WUnsigned), (''position'', True, WUnsigned)]"
| "event_schema_fields KTranscriptionStarted = [(''session_id'', True, WUnsigned)]"
| "event_schema_fields KTranscriptionCompleted =
     [(''session_id'', True, WUnsigned), (''text'', True, WString), (''detected_language'', True, WString),
      (''requested_language'', True, WString), (''audio_duration_ms'', True, WInteger), (''processing_time_ms'', True, WInteger)]"
| "event_schema_fields KTranscriptionPartial =
     [(''session_id'', True, WUnsigned), (''committed_text'', True, WString), (''tail_text'', True, WString)]"
| "event_schema_fields KModelLoaded = model_schema_fields"
| "event_schema_fields KConfigurationChanged = config_fields"
| "event_schema_fields KErrorOccurred =
     [(''session_id'', False, WUnsigned), (''component'', True, WString), (''message'', True, WString)]"
| "event_schema_fields KSessionCancelled = [(''session_id'', True, WUnsigned)]"

definition event_schema :: "event \<Rightarrow> wire_type" where
  "event_schema e =
     WObject ([(''type'', True, WEnum [''event'']), (''event'', True, WEnum [event_name e])] @ event_schema_fields (kind_of e))"

section \<open>What is printed has its type\<close>

definition typed_line :: "json_lib \<Rightarrow> wire_type \<Rightarrow> string \<Rightarrow> bool" where
  "typed_line J t line \<longleftrightarrow> CHR 0x0A \<notin> set line \<and> (\<exists>j. json_parse J line = Some j \<and> has_wire_type t j)"

lemma object_typed:
  assumes "distinct (map fst kvs)" and "\<forall>(k, required, t) \<in> set schema. required \<longrightarrow> k \<in> set (map fst kvs)"
    and "\<forall>(k, j) \<in> set kvs. case map_of schema k of None \<Rightarrow> False | Some (_, t) \<Rightarrow> has_wire_type t (json_read j)"
  shows "has_wire_type (WObject schema) (json_read (json_object kvs))"
proof -
  define kvs' where "kvs' = map (map_prod id json_read) (sort_key fst kvs)"
  have keys: "map fst kvs' = map fst (sort_key fst kvs)" and set: "set kvs' = map_prod id json_read ` set kvs"
    by (simp_all add: kvs'_def)
  have "distinct (map fst kvs')" "set (map fst kvs') = set (map fst kvs)" using assms(1) by (simp_all add: keys distinct_map)
  then have "has_wire_type (WObject schema) (JObject kvs')"
    using assms(2,3) unfolding has_wire_type.simps set by fastforce
  then show ?thesis by (simp add: json_object_def kvs'_def)
qed

lemma typed_object:
  assumes "json_faithful J" and "json_dump J (json_object kvs) = Some line"
    and "distinct (map fst kvs)" and "\<forall>kv \<in> set kvs. json_exact (snd kv)"
    and "\<forall>(k, required, t) \<in> set schema. required \<longrightarrow> k \<in> set (map fst kvs)"
    and "\<forall>(k, j) \<in> set kvs. case map_of schema k of None \<Rightarrow> False | Some (_, t) \<Rightarrow> has_wire_type t (json_read j)"
  shows "typed_line J (WObject schema) line"
proof -
  have "json_parse J line = Some (json_read (json_object kvs))"
    using assms(1,2) exact_object [OF assms(3,4)] by (simp add: json_faithful_def)
  with object_typed [OF assms(3,5,6)] no_newline [OF assms(1,2)] show ?thesis by (auto simp: typed_line_def)
qed

lemma typed_reply:
  assumes "json_faithful J" and "json_dump J (response type ok fs) = Some line"
    and "distinct (map fst fs)" and "''type'' \<notin> fst ` set fs" and "''ok'' \<notin> fst ` set fs"
    and "\<forall>kv \<in> set fs. json_exact (snd kv)"
    and "\<forall>(k, required, t) \<in> set schema. required \<longrightarrow> k \<in> set (map fst fs)"
    and "\<forall>(k, j) \<in> set fs. case map_of schema k of None \<Rightarrow> False | Some (_, t) \<Rightarrow> has_wire_type t (json_read j)"
  shows "typed_line J (reply_schema type ok schema) line"
  unfolding reply_schema_def
proof (rule typed_object [OF assms(1) assms(2) [unfolded response_def]])
  show "\<forall>(k, j) \<in> set ([(''type'', JString type), (''ok'', JBool ok)] @ fs).
      case map_of ([(''type'', True, WEnum [type]), (''ok'', True, WExactly ok)] @ schema) k of
        None \<Rightarrow> False | Some (_, t) \<Rightarrow> has_wire_type t (json_read j)"
  proof (safe)
    fix k j assume "(k, j) \<in> set ([(''type'', JString type), (''ok'', JBool ok)] @ fs)"
    then consider "k = ''type''" "j = JString type" | "k = ''ok''" "j = JBool ok" | "(k, j) \<in> set fs" by auto
    then show "case map_of ([(''type'', True, WEnum [type]), (''ok'', True, WExactly ok)] @ schema) k of
        None \<Rightarrow> False | Some (_, t) \<Rightarrow> has_wire_type t (json_read j)"
    proof cases
      case 3
      then have "k \<noteq> ''type''" "k \<noteq> ''ok''" using assms(4,5) by force+
      with 3 assms(8) show ?thesis by auto
    qed simp_all
  qed
qed (use assms(3-7) in auto)

lemma raw_typed [simp]: "has_wire_type WUnsigned (raw sid)"
  using unsigned_less [of sid, where ?'a = nat] by (simp add: raw_def)

lemma policy_typed [simp]: "policy_to_string p \<in> set [''on_demand'', ''always_loaded'']"
  by (cases p) simp_all

lemma typed_ack: "json_faithful J \<Longrightarrow> encode_ack J type = Some line \<Longrightarrow> typed_line J (reply_schema type True []) line"
  unfolding encode_ack_def by (erule (1) typed_reply) simp_all

lemma typed_error: "json_faithful J \<Longrightarrow> encode_error J type m = Some line \<Longrightarrow> typed_line J (reply_schema type False error_fields) line"
  unfolding encode_error_def by (erule (1) typed_reply) (simp_all add: error_fields_def)

lemma typed_queued:
  "json_faithful J \<Longrightarrow> encode_queued J type job = Some line \<Longrightarrow> qj_position job < 2 ^ 64 \<Longrightarrow>
     typed_line J (reply_schema type True queued_fields) line"
  unfolding encode_queued_def by (erule (1) typed_reply) (simp_all add: queued_fields_def)

lemma typed_state:
  "json_faithful J \<Longrightarrow> encode_state J type st = Some line \<Longrightarrow> st_queued st < 2 ^ 64 \<Longrightarrow>
     typed_line J (reply_schema type True state_fields) line"
  unfolding encode_state_def
  by (erule (1) typed_reply; cases "st_last_completed st"; cases "st_last_failed st"; cases "st_state st")
     (simp_all add: state_fields_def optional_id_def)

lemma configuration_typed:
  "\<forall>(k, j) \<in> set (configuration_fields c). case map_of config_fields k of None \<Rightarrow> False | Some (_, t) \<Rightarrow> has_wire_type t (json_read j)"
  using policy_typed [of "model_load_policy_of c"] by (simp add: configuration_fields_def config_fields_def)

lemma typed_config:
  "json_faithful J \<Longrightarrow> encode_config J type c = Some line \<Longrightarrow> typed_line J (reply_schema type True config_fields) line"
  unfolding encode_config_def
  by (erule (1) typed_reply [OF _ _ _ _ _ _ _ configuration_typed]) (simp_all add: configuration_fields_def config_fields_def)

lemma model_fields_typed:
  "\<forall>(k, j) \<in> set (model_fields m). case map_of model_schema_fields k of None \<Rightarrow> False | Some (_, t) \<Rightarrow> has_wire_type t (json_read j)"
  by (cases "model_size_of m") (simp_all add: model_fields_def model_schema_fields_def)

lemma typed_models:
  assumes "json_faithful J" and "encode_models J type ms = Some line"
  shows "typed_line J (reply_schema type True models_fields) line"
proof -
  have "json_exact (json_object (model_fields m))" for m by (rule exact_object) (simp_all add: model_fields_def)
  moreover have "has_wire_type (WObject model_schema_fields) (json_read (json_object (model_fields m)))" for m
    by (rule object_typed [OF _ _ model_fields_typed]) (simp_all add: model_fields_def model_schema_fields_def)
  ultimately show ?thesis
    by (intro typed_reply [OF assms(1) assms(2) [unfolded encode_models_def]]) (auto simp: models_fields_def)
qed

lemma integer_typed: "json_exact (JInteger i) \<Longrightarrow> has_wire_type WInteger (json_read (JInteger i))"
  by auto

lemma word_typed [simp]: "has_wire_type WUnsigned (JUnsigned (unat (x :: u32)))"
proof -
  have "unat x < 2 ^ 32" using unsigned_less [of x, where ?'a = nat] by simp
  then show ?thesis by simp
qed

lemma event_fields_typed:
  assumes "event_exact e"
  shows "\<forall>(k, j) \<in> set (event_fields e). case map_of (event_schema_fields (kind_of e)) k of
      None \<Rightarrow> False | Some (_, t) \<Rightarrow> has_wire_type t (json_read j)"
proof (cases e)
  case (RecordingFinished sid r)
  then have "json_exact (JInteger (duration r))" using assms by (simp add: event_exact_def)
  then show ?thesis
    using integer_typed word_typed [of "rec_sample_rate r"] word_typed [of "rec_channels r"]
    by (simp add: RecordingFinished del: has_wire_type.simps json_read.simps(4) json_exact.simps)
next
  case (TranscriptionCompleted sid t)
  then have "json_exact (JInteger (audio_duration t))" "json_exact (JInteger (processing_time t))"
    using assms by (simp_all add: event_exact_def)
  then show ?thesis
    using integer_typed by (simp add: TranscriptionCompleted del: json_read.simps(4) json_exact.simps)
next
  case (ErrorOccurred sid component message)
  then show ?thesis by (cases sid) (simp_all add: optional_id_def)
qed (use assms model_fields_typed configuration_typed in \<open>auto simp: event_exact_def\<close>)

lemma typed_event:
  assumes "json_faithful J" and "event_exact e" and "encode_event J e = Some line"
  shows "typed_line J (event_schema e) line"
proof -
  let ?fs = "[(''type'', JString ''event''), (''event'', JString (event_name e))] @ event_fields e"
  have keys: "distinct (map fst ?fs)"
    by (cases e) (simp_all add: model_fields_def configuration_fields_def optional_id_def split: option.splits)
  have required: "\<forall>(k, required, t) \<in> set (event_schema_fields (kind_of e)). required \<longrightarrow> k \<in> set (map fst (event_fields e))"
    by (cases e) (auto simp: model_fields_def configuration_fields_def model_schema_fields_def config_fields_def)
  have typed: "\<forall>(k, j) \<in> set ?fs. case map_of ([(''type'', True, WEnum [''event'']), (''event'', True, WEnum [event_name e])] @
      event_schema_fields (kind_of e)) k of None \<Rightarrow> False | Some (_, t) \<Rightarrow> has_wire_type t (json_read j)"
  proof safe
    fix k j assume kj: "(k, j) \<in> set ?fs"
    then consider "k = ''type''" "j = JString ''event''" | "k = ''event''" "j = JString (event_name e)" | "(k, j) \<in> set (event_fields e)"
      by auto
    then show "case map_of ([(''type'', True, WEnum [''event'']), (''event'', True, WEnum [event_name e])] @
      event_schema_fields (kind_of e)) k of None \<Rightarrow> False | Some (_, t) \<Rightarrow> has_wire_type t (json_read j)"
    proof cases
      case 3
      then have "k \<noteq> ''type''" "k \<noteq> ''event''" using keys by (auto simp: image_iff)
      with 3 event_fields_typed [OF assms(2)] show ?thesis by auto
    qed simp_all
  qed
  show ?thesis
    unfolding event_schema_def
    by (rule typed_object [OF assms(1) assms(3) [unfolded encode_event_def event_json_def] keys _ _ typed])
       (use assms(2) required in \<open>auto simp: event_exact_def\<close>)
qed

text \<open>What a client needs to tell replies apart.\<close>

lemma typed_line_type:
  assumes "typed_line J (reply_schema type ok schema) line"
  shows "parse_message J line = Inl type"
proof -
  obtain j where j: "json_parse J line = Some j" "has_wire_type (reply_schema type ok schema) j"
    using assms by (auto simp: typed_line_def)
  then obtain kvs where kvs: "j = JObject kvs" unfolding reply_schema_def by (cases j) simp_all
  with j(2) have "''type'' \<in> set (map fst kvs)" "distinct (map fst kvs)"
    and at: "\<And>x. (''type'', x) \<in> set kvs \<Longrightarrow> has_wire_type (WEnum [type]) x" by (auto simp: reply_schema_def)
  then obtain x where x: "(''type'', x) \<in> set kvs" by auto
  with at [OF x] have "x = JString type" by (cases x) auto
  with x \<open>distinct (map fst kvs)\<close> have "map_of kvs ''type'' = Some (JString type)" by simp
  then show ?thesis by (simp add: parse_message_def j kvs)
qed

text \<open>
  C16: The messages of the service are well typed. Whatever the code encodes, a client that parses the line
  finds an object with exactly the fields of the message's kind, each at most once, the optional ones
  perhaps missing, and each field holding a value of its type: ids, positions and counts are unsigned
  64-bit numbers, durations signed ones, and states, sizes and policies one of the names the protocol
  lists. A reply carries the type it was asked for and whether the request was successful; an event
  carries the type "event" and its name.
\<close>

theorem messages_are_typed:
  assumes "json_faithful J"
  shows "(encode_ack J type = Some line \<longrightarrow> typed_line J (reply_schema type True []) line) \<and>
     (encode_error J type msg = Some line \<longrightarrow> typed_line J (reply_schema type False error_fields) line) \<and>
     (qj_position job < 2 ^ 64 \<longrightarrow> encode_queued J type job = Some line \<longrightarrow>
        typed_line J (reply_schema type True queued_fields) line) \<and>
     (st_queued st < 2 ^ 64 \<longrightarrow> encode_state J type st = Some line \<longrightarrow>
        typed_line J (reply_schema type True state_fields) line) \<and>
     (encode_config J type c = Some line \<longrightarrow> typed_line J (reply_schema type True config_fields) line) \<and>
     (encode_models J type ms = Some line \<longrightarrow> typed_line J (reply_schema type True models_fields) line) \<and>
     (event_exact e \<longrightarrow> encode_event J e = Some line \<longrightarrow> typed_line J (event_schema e) line)"
  by (intro conjI impI) (simp_all add: assms typed_ack typed_error typed_queued typed_state typed_config typed_models typed_event)

theorem messages_are_typed_witness:
  "\<exists>line kvs. encode_config toy_json ''get_config'' default_configuration = Some line \<and>
     json_parse toy_json line = Some (JObject kvs) \<and> distinct (map fst kvs) \<and>
     has_wire_type (WObject ([(''type'', True, WEnum [''get_config'']), (''ok'', True, WExactly True)] @ config_fields)) (JObject kvs)"
proof -
  obtain line where l: "encode_config toy_json ''get_config'' default_configuration = Some line" using toy_config by blast
  with messages_are_typed [OF toy_json_faithful]
  have "typed_line toy_json (reply_schema ''get_config'' True config_fields) line" by blast
  then obtain j where j: "json_parse toy_json line = Some j" "has_wire_type (reply_schema ''get_config'' True config_fields) j"
    by (auto simp: typed_line_def)
  from j(2) obtain kvs where kvs: "j = JObject kvs" unfolding reply_schema_def by (cases j) simp_all
  from j(2) have "distinct (map fst kvs)" unfolding kvs reply_schema_def by simp
  with l j kvs show ?thesis unfolding reply_schema_def by blast
qed

end
