(* ===== verification/Daemon_Protocol.thy ===== *)
theory Daemon_Protocol
  imports Daemon_Safety Protocol_Types
begin

text \<open>
  What clients see of the running process: the reply to every line they send, and the events they are
  pushed. The last section follows the process through its shutdown.
\<close>

section \<open>Replies\<close>

definition reply_type_of :: "('c, 'n) platform \<Rightarrow> string \<Rightarrow> string" where
  "reply_type_of P line = (case parse_message (pf_json P) line of Inl type \<Rightarrow> type | Inr _ \<Rightarrow> ''error'')"

text \<open>What a request may be answered with: whether it was successful, and the fields that follow.\<close>

definition answers :: "string \<Rightarrow> (bool \<times> (string \<times> bool \<times> wire_type) list) list" where
  "answers type =
     (if type \<in> {kStartRecording, kCancelSession, kCancelJob} then [(True, []), (False, error_fields)]
      else if type = kStopRecording then [(True, queued_fields), (False, error_fields)]
      else if type = kSetConfig then [(True, config_fields), (False, error_fields)]
      else if type = kGetState then [(True, state_fields)]
      else if type = kGetConfig then [(True, config_fields)]
      else if type = kListModels then [(True, models_fields)]
      else if type \<in> {kSubscribeEvents, kUnsubscribeEvents} then [(True, [])]
      else [(False, error_fields)])"

definition is_reply :: "('c, 'n) platform \<Rightarrow> string \<Rightarrow> string \<Rightarrow> bool" where
  "is_reply P type r \<longleftrightarrow> (\<exists>(ok, schema) \<in> set (answers type). typed_line (pf_json P) (reply_schema type ok schema) r)"

lemmas command_names = kStartRecording_def kStopRecording_def kCancelSession_def kCancelJob_def kGetState_def kGetConfig_def
  kSetConfig_def kListModels_def kSubscribeEvents_def kUnsubscribeEvents_def

lemma is_replyI: "(ok, schema) \<in> set (answers type) \<Longrightarrow> typed_line (pf_json P) (reply_schema type ok schema) r \<Longrightarrow> is_reply P type r"
  by (auto simp: is_reply_def)

lemma is_reply_parses: "is_reply P type r \<Longrightarrow> parse_message (pf_json P) r = Inl type \<and> CHR 0x0A \<notin> set r"
  by (auto simp: is_reply_def dest: typed_line_type) (simp add: typed_line_def)

lemma ack_reply:
  assumes "json_faithful (pf_json P)" and "encode_ack (pf_json P) type = Some r"
    and "type \<in> {kStartRecording, kCancelSession, kCancelJob, kSubscribeEvents, kUnsubscribeEvents}"
  shows "is_reply P type r"
  by (rule is_replyI [OF _ typed_ack [OF assms(1,2)]]) (use assms(3) in \<open>auto simp: answers_def command_names\<close>)

lemma error_reply:
  assumes "json_faithful (pf_json P)" and "encode_error (pf_json P) type m = Some r"
    and "type \<notin> {kGetState, kGetConfig, kListModels, kSubscribeEvents, kUnsubscribeEvents}"
  shows "is_reply P type r"
  by (rule is_replyI [OF _ typed_error [OF assms(1,2)]]) (use assms(3) in \<open>simp add: answers_def\<close>)

lemma config_reply:
  assumes "json_faithful (pf_json P)" and "encode_config (pf_json P) type c = Some r" and "type \<in> {kGetConfig, kSetConfig}"
  shows "is_reply P type r"
  by (rule is_replyI [OF _ typed_config [OF assms(1,2)]]) (use assms(3) in \<open>auto simp: answers_def command_names\<close>)

lemma stop_session_position:
  "stop_session pub late now now' enq sm w = (Some (Inl job), sm', w') \<Longrightarrow> qj_position job \<le> q_capacity (sm_queue sm)"
  by (auto simp: stop_session_def fail_def try_enqueue_def Let_def
      split: if_splits option.splits prod.splits sum.splits recording_error.splits)

lemma status_queued: "sm_inv sm \<Longrightarrow> st_queued (status sm) \<le> q_capacity (sm_queue sm)"
  by (simp add: status_def queue_snapshot_of_def sm_inv_def queue_inv_def Let_def)

lemma start_reply:
  assumes "json_faithful (pf_json P)" and "handle_start_recording P env kStartRecording w = (Some r, w')"
  shows "is_reply P kStartRecording r"
  using assms(2) ack_reply [OF assms(1)] error_reply [OF assms(1)]
  by (auto simp: handle_start_recording_def command_names split: prod.splits option.splits session_error.splits)

lemma stop_reply:
  assumes "json_faithful (pf_json P)" and "q_capacity (sm_queue (d_sm w)) = default_capacity"
    and "handle_stop_recording P env kStopRecording w = (Some r, w')"
  shows "is_reply P kStopRecording r"
proof -
  obtain res sm' w1 where s: "stop_session (daemon_pub P) (le_late env) (le_now env) (le_now' env) (le_enqueued_at env) (d_sm w) w = (res, sm', w1)"
    by (metis prod.collapse)
  show ?thesis
  proof (cases "\<exists>job. res = Some (Inl job)")
    case True
    then obtain job where job: "res = Some (Inl job)" by blast
    with s assms(2) stop_session_position have "qj_position job < 2 ^ 64" by (fastforce simp: default_capacity_def)
    with assms(1,3) s job have "typed_line (pf_json P) (reply_schema kStopRecording True queued_fields) r"
      by (intro typed_queued) (simp_all add: handle_stop_recording_def)
    then show ?thesis by (rule is_replyI [rotated]) (simp add: answers_def command_names)
  next
    case False
    then obtain m where "encode_error (pf_json P) kStopRecording m = Some r"
      using assms(3) s by (auto simp: handle_stop_recording_def split: option.splits sum.splits session_error.splits)
    then show ?thesis by (rule error_reply [OF assms(1)]) (simp add: command_names)
  qed
qed

lemma cancel_job_reply:
  assumes "json_faithful (pf_json P)" and "handle_cancel_job P kCancelJob line w = (Some r, w')"
  shows "is_reply P kCancelJob r"
  using assms(2) ack_reply [OF assms(1)] error_reply [OF assms(1)]
  by (auto simp: handle_cancel_job_def command_names split: prod.splits option.splits if_splits)

lemma cancel_session_reply:
  assumes "json_faithful (pf_json P)" and "handle_cancel_session P env kCancelSession w = (Some r, w')"
  shows "is_reply P kCancelSession r"
  using assms(2) ack_reply [OF assms(1)] error_reply [OF assms(1)]
  by (auto simp: handle_cancel_session_def command_names split: prod.splits option.splits session_error.splits)

lemma set_config_reply:
  assumes "json_faithful (pf_json P)" and "handle_set_config P env kSetConfig line w = (Some r, w')"
  shows "is_reply P kSetConfig r"
  using assms(2) config_reply [OF assms(1)] error_reply [OF assms(1)]
  by (auto simp: handle_set_config_def command_names Let_def split: prod.splits option.splits if_splits)

lemma handle_line_reply:
  assumes json: "json_faithful (pf_json P)" and ok: "world_ok P w" and h: "handle_line P env line w = (Some r, w')"
    and own: "parse_message (pf_json P) line \<notin> {Inl kSubscribeEvents, Inl kUnsubscribeEvents}"
  shows "is_reply P (reply_type_of P line) r"
proof (cases "parse_message (pf_json P) line")
  case (Inr e)
  with h have "encode_error (pf_json P) ''error'' e = Some r" by (simp add: handle_line_def)
  then have "is_reply P ''error'' r" by (rule error_reply [OF json]) (simp add: command_names)
  with Inr show ?thesis by (simp add: reply_type_of_def)
next
  case (Inl type)
  have cap: "q_capacity (sm_queue (d_sm w)) = default_capacity" using ok by (simp add: world_ok_def)
  have queued: "st_queued (status (d_sm w)) < 2 ^ 64"
    using status_queued [of "d_sm w"] ok by (simp add: world_ok_def default_capacity_def)
  have state: "is_reply P kGetState r" if "encode_state (pf_json P) kGetState (status (d_sm w)) = Some r"
    by (rule is_replyI [OF _ typed_state [OF json that queued]]) (simp add: answers_def command_names)
  have models: "is_reply P kListModels r" if "encode_models (pf_json P) kListModels ms = Some r" for ms
    by (rule is_replyI [OF _ typed_models [OF json that]]) (simp add: answers_def command_names)
  have config: "is_reply P kGetConfig r" if "encode_config (pf_json P) kGetConfig c = Some r" for c
    by (rule config_reply [OF json that]) simp
  note h' = h [unfolded handle_line_def Inl sum.case]
  consider "type = kStartRecording" | "type = kStopRecording" | "type = kCancelJob" | "type = kCancelSession" | "type = kGetState"
    | "type = kGetConfig" | "type = kSetConfig" | "type = kListModels"
    | "type \<notin> {kStartRecording, kStopRecording, kCancelJob, kCancelSession, kGetState, kGetConfig, kSetConfig, kListModels}"
    by blast
  then have "is_reply P type r"
  proof cases
    case 9
    with h' have "encode_error (pf_json P) type (''unknown command: '' @ type) = Some r" by (simp split: if_splits)
    then show ?thesis by (rule error_reply [OF json]) (use 9 own Inl in simp)
  qed (use h' start_reply [OF json] stop_reply [OF json cap] cancel_job_reply [OF json] cancel_session_reply [OF json]
       set_config_reply [OF json] state models config in \<open>auto simp: command_names split: if_splits\<close>)
  then show ?thesis by (simp add: reply_type_of_def Inl)
qed

section \<open>What a client receives\<close>

text \<open>A reply that can be encoded, sent while the kernel takes everything.\<close>

lemma send_reply_open:
  assumes "d_abnormal (send_reply client r w) = None" and "sv_kernel (d_server w) = []"
    and "sv_read_buffers (d_server w) client \<noteq> None"
  obtains reply where "r = Some reply" and "d_abnormal w = None"
    and "\<And>c. sv_sent (d_server (send_reply client r w)) c =
          sv_sent (d_server w) c @ (if c = client then reply @ [CHR 0x0A] else [])"
proof -
  have n: "d_abnormal w = None" using assms(1) by (simp add: send_reply_def split: if_splits)
  with assms(1) obtain reply where r: "r = Some reply" by (auto simp: send_reply_def split: option.splits)
  show thesis
  proof
    show "r = Some reply" "d_abnormal w = None" by (fact r, fact n)
    show "sv_sent (d_server (send_reply client r w)) c =
        sv_sent (d_server w) c @ (if c = client then reply @ [CHR 0x0A] else [])" for c
      using assms(2,3) by (auto simp: send_reply_def r n send_line_open)
  qed
qed

lemma before_line_server:
  "sv_sent (d_server (before_line P w)) = sv_sent (d_server w)" "sv_kernel (d_server (before_line P w)) = sv_kernel (d_server w)"
  "sv_read_buffers (d_server (before_line P w)) = sv_read_buffers (d_server w)"
  "d_subscribed (before_line P w) = d_subscribed w" "d_trace (before_line P w) = d_trace w" "d_bus (before_line P w) = d_bus w"
  using before_line_effect [of w P] by (auto simp: background_effect_def)

lemma bridge_trace: "d_trace (bridge_subscribe P c w) = d_trace w" "d_trace (bridge_unsubscribe c w) = d_trace w"
  by (simp_all add: bridge_subscribe_def bridge_unsubscribe_def)

lemma subscription_message:
  assumes "parse_message (pf_json P) line \<in> {Inl kSubscribeEvents, Inl kUnsubscribeEvents}"
  shows "\<exists>type w'. parse_message (pf_json P) line = Inl type \<and> d_server w' = d_server (before_line P w) \<and>
     d_trace w' = d_trace (before_line P w) \<and>
     handle_message P client line w = send_reply client (encode_ack (pf_json P) type) w'"
proof (cases "parse_message (pf_json P) line = Inl kSubscribeEvents")
  case True
  then show ?thesis
    by (intro exI [of _ kSubscribeEvents] exI [of _ "bridge_subscribe P client (before_line P w)"])
       (simp add: handle_message_def bridge_clients bridge_trace)
next
  case False
  with assms show ?thesis
    by (intro exI [of _ kUnsubscribeEvents] exI [of _ "bridge_unsubscribe client (before_line P w)"])
       (simp add: handle_message_def bridge_clients bridge_trace)
qed

lemma send_reply_trace: "d_trace (send_reply client r w) = d_trace w"
  by (simp add: send_reply_def split: option.split)

lemma handle_message_sends:
  assumes json: "json_faithful (pf_json P)" and ok: "world_ok P w" and kernel: "sv_kernel (d_server w) = []"
    and conn: "sv_read_buffers (d_server w) client \<noteq> None" and alive: "d_abnormal (handle_message P client line w) = None"
  shows "\<exists>es reply. d_trace (handle_message P client line w) = d_trace w @ es \<and>
     (d_subscribed w \<noteq> [] \<longrightarrow> (\<forall>e \<in> set es. encode_event (pf_json P) e \<noteq> None)) \<and> is_reply P (reply_type_of P line) reply \<and>
     (\<forall>c. sv_sent (d_server (handle_message P client line w)) c = sv_sent (d_server w) c @
        (if c \<in> set (d_subscribed w) \<and> sv_read_buffers (d_server w) c \<noteq> None then lines_for P es else []) @
        (if c = client then reply @ [CHR 0x0A] else []))"
proof -
  let ?w = "before_line P w"
  define special where "special \<longleftrightarrow> parse_message (pf_json P) line \<in> {Inl kSubscribeEvents, Inl kUnsubscribeEvents}"
  show ?thesis
  proof (cases special)
    case True
    then obtain type wb where b: "parse_message (pf_json P) line = Inl type" "d_server wb = d_server ?w" "d_trace wb = d_trace ?w"
      "handle_message P client line w = send_reply client (encode_ack (pf_json P) type) wb"
      unfolding special_def using subscription_message by blast
    have "sv_kernel (d_server wb) = []" "sv_read_buffers (d_server wb) client \<noteq> None"
      unfolding b(2) before_line_server using kernel conn by simp_all
    with alive obtain reply where r: "encode_ack (pf_json P) type = Some reply"
      "\<And>c. sv_sent (d_server (handle_message P client line w)) c =
         sv_sent (d_server wb) c @ (if c = client then reply @ [CHR 0x0A] else [])"
      unfolding b(4) by (rule send_reply_open) blast
    have "is_reply P (reply_type_of P line) reply"
      using ack_reply [OF json r(1)] True by (auto simp: special_def reply_type_of_def b(1))
    moreover have "d_trace (handle_message P client line w) = d_trace w"
      by (simp add: b(3,4) send_reply_trace before_line_server)
    ultimately show ?thesis
      using r(2) by (intro exI [of _ "[]"] exI [of _ reply]) (simp add: b(2) before_line_server)
  next
    case False
    obtain r w1 where h: "handle_line P (pf_line P (d_lines w)) line ?w = (r, w1)" by fastforce
    note eff = handle_line_command [of P ?w "pf_line P (d_lines w)" line, unfolded h snd_conv]
    have m: "handle_message P client line w = send_reply client r w1"
      using False unfolding special_def by (simp add: handle_message_def h Let_def)
    have "d_abnormal w1 = None" using alive unfolding m by (simp add: send_reply_def split: if_splits)
    moreover have "distinct (d_subscribed w)" "d_bus w = main_bus" using ok by (simp_all add: world_ok_def)
    ultimately obtain es where es: "sv_kernel (d_server w1) = []" "d_trace w1 = d_trace w @ es"
      "d_subscribed w \<noteq> [] \<longrightarrow> (\<forall>e \<in> set es. encode_event (pf_json P) e \<noteq> None)"
      "\<And>c. sv_sent (d_server w1) c = sv_sent (d_server w) c @
         (if c \<in> set (d_subscribed w) \<and> sv_read_buffers (d_server w) c \<noteq> None then lines_for P es else [])"
      using command_announced [OF eff] kernel unfolding announced_def before_line_server by blast
    have "sv_read_buffers (d_server w1) client \<noteq> None"
      using command_clients [OF eff] conn by (simp add: same_clients_def before_line_server)
    with alive es(1) obtain reply where r: "r = Some reply"
      "\<And>c. sv_sent (d_server (handle_message P client line w)) c =
         sv_sent (d_server w1) c @ (if c = client then reply @ [CHR 0x0A] else [])"
      unfolding m by (rule send_reply_open) blast
    have "is_reply P (reply_type_of P line) reply"
      using handle_line_reply [OF json before_line_world_ok [OF ok]] h r(1) False unfolding special_def by blast
    moreover have "d_trace (handle_message P client line w) = d_trace w @ es" by (simp add: m send_reply_trace es(2))
    ultimately show ?thesis using r(2) es by (intro exI [of _ es] exI [of _ reply]) simp
  qed
qed

section \<open>Pushed events\<close>

text \<open>Copying to the clipboard is off, or always succeeds.\<close>

definition clipboard_works :: "('c, 'n) platform \<Rightarrow> 'c daemon \<Rightarrow> bool" where
  "clipboard_works P w \<longleftrightarrow>
     \<not> ac_enabled (d_clip w) \<or>
     (\<forall>i content. \<exists>r. copy (pf_copy P i) content (ac_adapter (d_clip w)) = Some r \<and> cr_error r = None)"

lemma local_handler:
  assumes "h \<noteq> Broadcast" and "clipboard_works P w"
  shows "d_server (handler_effect pub P h e w) = d_server w" "d_subscribed (handler_effect pub P h e w) = d_subscribed w"
    "d_abnormal (handler_effect pub P h e w) = d_abnormal w" "d_bus (handler_effect pub P h e w) = d_bus w"
    "\<not> about_configuration e \<Longrightarrow> d_clip (handler_effect pub P h e w) = d_clip w"
proof -
  have copied: "d_server (clipboard_copy pub P sid t w) = d_server w \<and> d_subscribed (clipboard_copy pub P sid t w) = d_subscribed w \<and>
      d_abnormal (clipboard_copy pub P sid t w) = d_abnormal w \<and> d_bus (clipboard_copy pub P sid t w) = d_bus w \<and>
      d_clip (clipboard_copy pub P sid t w) = d_clip w" for sid t
  proof (cases "ac_enabled (d_clip w)")
    case True
    with assms(2) obtain r where "copy (pf_copy P (d_copies w)) (transcript_text t) (ac_adapter (d_clip w)) = Some r" "cr_error r = None"
      unfolding clipboard_works_def by blast
    with True show ?thesis by (simp add: clipboard_copy_def ac_on_transcription_completed_def Let_def)
  next
    case False
    then show ?thesis by (simp add: clipboard_copy_def ac_on_transcription_completed_def Let_def)
  qed
  show "d_server (handler_effect pub P h e w) = d_server w"
    using assms(1) copied by (cases h) (simp_all split: event.split del: event_message.simps)
  show "d_subscribed (handler_effect pub P h e w) = d_subscribed w"
    using assms(1) copied by (cases h) (simp_all split: event.split del: event_message.simps)
  show "d_abnormal (handler_effect pub P h e w) = d_abnormal w"
    using assms(1) copied by (cases h) (simp_all split: event.split del: event_message.simps)
  show "d_bus (handler_effect pub P h e w) = d_bus w"
    using assms(1) copied by (cases h) (simp_all split: event.split del: event_message.simps)
  show "\<not> about_configuration e \<Longrightarrow> d_clip (handler_effect pub P h e w) = d_clip w"
    using assms(1) copied by (cases h) (auto split: event.split simp del: event_message.simps)
qed

lemma invoke_local:
  assumes "Broadcast \<notin> set hs" and "clipboard_works P w" and "\<not> about_configuration e" and "d_abnormal w = None"
  shows "\<exists>w'. invoke_all (run_handler pub P) (hs @ hs') e w = invoke_all (run_handler pub P) hs' e w' \<and>
     d_server w' = d_server w \<and> d_subscribed w' = d_subscribed w \<and> d_abnormal w' = None \<and> d_bus w' = d_bus w \<and> d_clip w' = d_clip w"
  using assms
proof (induction hs arbitrary: w)
  case (Cons h hs)
  let ?w = "handler_effect pub P h e w"
  have "h \<noteq> Broadcast" using Cons.prems(1) by auto
  note keep = local_handler [OF this Cons.prems(2), where pub = pub and e = e]
  from keep Cons.prems have "clipboard_works P ?w" "d_abnormal ?w = None" by (simp_all add: clipboard_works_def)
  with Cons.IH [of ?w] Cons.prems keep show ?case by (simp only: append_Cons invoke_run_Cons) auto
qed auto

lemma publish_sends:
  assumes "d_bus w = main_bus" and "d_abnormal w = None" and "clipboard_works P w" and "\<not> about_configuration e"
    and "encode_event (pf_json P) e = Some line"
  shows "d_server (daemon_pub P e w) = fold (\<lambda>c. send_line c line) (d_subscribed w) (d_server w) \<and>
     d_subscribed (daemon_pub P e w) = d_subscribed w \<and> d_abnormal (daemon_pub P e w) = None \<and>
     d_bus (daemon_pub P e w) = main_bus \<and> d_clip (daemon_pub P e w) = d_clip w"
proof -
  obtain hs where hs: "subscribers (kind_of e) main_bus = hs @ [Broadcast]" "Broadcast \<notin> set hs"
    using main_bus_bridge_last by blast
  have "clipboard_works P (note_event e w)" "d_abnormal (note_event e w) = None"
    using assms(2,3) by (simp_all add: clipboard_works_def)
  from invoke_local [OF hs(2) this(1) assms(4) this(2), of "publish_nested (Suc 0) P" "[Broadcast]"] obtain w' where
    "daemon_pub P e w = broadcast P e w'"
    "d_server w' = d_server w" "d_subscribed w' = d_subscribed w" "d_abnormal w' = None" "d_bus w' = d_bus w" "d_clip w' = d_clip w"
    using daemon_pub_main [OF assms(1,2), of P e] invoke_run_last [of "publish_nested (Suc 0) P" P Broadcast e]
    unfolding hs(1) note_event_frame by (metis handler_effect.simps(8))
  with assms(1,5) show ?thesis by (simp add: broadcast_def)
qed

lemma publish_all_sends:
  assumes "d_bus w = main_bus" and "d_abnormal w = None" and "clipboard_works P w" and "distinct (d_subscribed w)"
    and "sv_kernel (d_server w) = []"
    and "\<forall>e \<in> set es. \<not> about_configuration e \<and> encode_event (pf_json P) e \<noteq> None"
  shows "sv_sent (d_server (fold (daemon_pub P) es w)) c = sv_sent (d_server w) c @
     (if c \<in> set (d_subscribed w) \<and> sv_read_buffers (d_server w) c \<noteq> None
      then lines_for P es else [])"
  using assms
proof (induction es arbitrary: w)
  case (Cons e es)
  obtain line where line: "encode_event (pf_json P) e = Some line" using Cons.prems(6) by auto
  let ?w = "daemon_pub P e w"
  have w: "d_server ?w = fold (\<lambda>c. send_line c line) (d_subscribed w) (d_server w)" "d_subscribed ?w = d_subscribed w"
    "d_abnormal ?w = None" "d_bus ?w = main_bus" "clipboard_works P ?w"
    using publish_sends [OF Cons.prems(1,2,3) _ line] Cons.prems(3,6) by (auto simp: clipboard_works_def)
  have "sv_kernel (d_server ?w) = []" "sv_read_buffers (d_server ?w) = sv_read_buffers (d_server w)"
    "sv_sent (d_server ?w) c = sv_sent (d_server w) c @
       (if c \<in> set (d_subscribed w) \<and> sv_read_buffers (d_server w) c \<noteq> None then line @ [CHR 0x0A] else [])"
    using send_lines_open [OF Cons.prems(5,4), of line] by (simp_all add: w(1))
  moreover have "lines_for P (e # es) =
      line @ [CHR 0x0A] @ lines_for P es"
    by (simp add: line lines_of_def)
  ultimately show ?case using Cons.IH [of ?w] w Cons.prems(4,6) by auto
qed simp

lemma fold_map_pub: "fold (\<lambda>x. pub (f x)) xs w = fold pub (map f xs) w"
  by (simp add: fold_map comp_def)

text \<open>The events a round of \<^verbatim>\<open>poll_completed\<close> publishes.\<close>

definition round_events :: "('c, 'n) platform \<Rightarrow> nat \<Rightarrow> 'c daemon \<Rightarrow> event list" where
  "round_events P n w =
     map TranscriptionStarted (q_started (fst (polled_queue (backend_of P) n (sm_queue (d_sm w)) (d_backend w)))) @
     map outcome_event (q_completed (sm_queue (d_sm w)))"

lemma poll_results_sent:
  "sv_sent (d_server (poll_results P n w)) = sv_sent (d_server (fold (daemon_pub P) (round_events P n w) w))"
proof -
  obtain c f where "poll_completed (daemon_pub P) (backend_of P) n (d_sm w) (d_backend w) w =
     (length (q_completed (sm_queue (d_sm w))),
      (d_sm w)\<lparr>sm_queue := snd (drain_started (fst (polled_queue (backend_of P) n (sm_queue (d_sm w)) (d_backend w)))),
        sm_last_completed := c, sm_last_failed := f\<rparr>,
      snd (polled_queue (backend_of P) n (sm_queue (d_sm w)) (d_backend w)),
      fold (\<lambda>r. daemon_pub P (outcome_event r)) (q_completed (sm_queue (d_sm w)))
        (fold (\<lambda>i. daemon_pub P (TranscriptionStarted i)) (q_started (fst (polled_queue (backend_of P) n (sm_queue (d_sm w)) (d_backend w)))) w))"
    using poll_completed_result [of "daemon_pub P" "backend_of P" n "d_sm w" "d_backend w" w] by blast
  then show ?thesis
    by (simp add: poll_results_def round_events_def fold_map_pub)
qed

lemma outcome_quiet [simp]: "\<not> about_configuration (outcome_event r)"
  by (simp add: outcome_event_def split: sum.splits speech_error.splits)

lemma round_sends:
  assumes "daemon_inv P w" and "d_abnormal w = None" and "clipboard_works P w" and "sv_kernel (d_server w) = []"
    and "\<forall>e \<in> set (round_events P n w). encode_event (pf_json P) e \<noteq> None"
  shows "sv_sent (d_server (poll_results P n w)) c = sv_sent (d_server w) c @
    (if c \<in> set (d_subscribed w) then lines_for P (round_events P n w) else [])"
proof -
  have "\<forall>e \<in> set (round_events P n w). \<not> about_configuration e \<and> encode_event (pf_json P) e \<noteq> None"
    using assms(5) by (auto simp: round_events_def)
  moreover have "d_bus w = main_bus" "distinct (d_subscribed w)"
    "c \<in> set (d_subscribed w) \<Longrightarrow> sv_read_buffers (d_server w) c \<noteq> None"
    using assms(1) by (auto simp: daemon_inv_def world_ok_def)
  ultimately show ?thesis
    using publish_all_sends [of w P "round_events P n w" c] assms(2-4) by (auto simp: poll_results_sent)
qed

section \<open>A clipboard that fails\<close>

lemma clipboard_failure_order:
  assumes "d_bus w = main_bus" and "d_abnormal w = None" and "ac_enabled (d_clip w)"
    and "copy (pf_copy P (d_copies w)) (transcript_text t) (ac_adapter (d_clip w)) = Some r"
    and "cr_error r = Some (ClipboardError m)"
    and "encode_event (pf_json P) (ErrorOccurred (Some sid) ''clipboard'' m) = Some l1"
    and "encode_event (pf_json P) (TranscriptionCompleted sid t) = Some l2"
  shows "d_server (daemon_pub P (TranscriptionCompleted sid t) w) =
     fold (\<lambda>c. send_line c l2) (d_subscribed w) (fold (\<lambda>c. send_line c l1) (d_subscribed w) (d_server w))"
proof -
  let ?e = "TranscriptionCompleted sid t" and ?err = "ErrorOccurred (Some sid) ''clipboard'' m"
  let ?w0 = "logger P (fst (event_message ?e)) (snd (event_message ?e)) (note_event ?e w)"
  let ?w1 = "?w0\<lparr>d_copies := Suc (d_copies w)\<rparr>"
  let ?w2 = "publish_nested (Suc 0) P ?err ?w1"
  have w1: "d_bus ?w1 = main_bus" "d_abnormal ?w1 = None" "d_server ?w1 = d_server w" "d_subscribed ?w1 = d_subscribed w"
    using assms(1,2) by simp_all
  have "?w2 = fst (invoke_all (run_handler (publish_nested 0 P) P) [LogError, Broadcast] ?err (note_event ?err ?w1))"
    using w1(1,2) by (simp add: publish_nested_Suc main_subscribers del: invoke_all.simps)
  also have "\<dots> = broadcast P ?err (logger P (fst (event_message ?err)) (snd (event_message ?err)) (note_event ?err ?w1))"
    using w1(2) by (simp only: invoke_run_Cons invoke_run_last handler_effect.simps logger_frame note_event_frame)
  finally have w2: "d_server ?w2 = fold (\<lambda>c. send_line c l1) (d_subscribed w) (d_server w)"
    "d_subscribed ?w2 = d_subscribed w" "d_abnormal ?w2 = None"
    using w1 assms(6) by (simp_all add: broadcast_def)
  have "handler_effect (publish_nested (Suc 0) P) P ClipboardCopy ?e ?w0 = ?w2"
    using assms(3,4,5) by (simp add: clipboard_copy_def ac_on_transcription_completed_def Let_def)
  then have "daemon_pub P ?e w = broadcast P ?e ?w2"
    using w2(3) assms(2) unfolding daemon_pub_main [OF assms(1,2)] kind_of.simps main_subscribers
    by (simp only: invoke_run_Cons invoke_run_last handler_effect.simps logger_frame note_event_frame)
  then show ?thesis using w2(1,2) assms(7) by (simp add: broadcast_def)
qed

section \<open>Shutting down\<close>

lemma cancel_session_idle:
  "cancel_session pub late sm w = (r, sm', w') \<Longrightarrow> sm_state sm' = Idle"
  by (auto simp: cancel_session_def Let_def split: if_splits prod.splits)

lemma worker_run_exited: "q_worker (fst s) = Exited \<Longrightarrow> worker_run be n s = s"
  by (induction n) (cases s; simp add: worker_step_exited)+

text \<open>Nothing is left to do: no session, no worker, no result that was not published.\<close>

definition at_rest :: "'cb session_manager \<Rightarrow> bool" where
  "at_rest sm \<longleftrightarrow>
     sm_state sm = Idle \<and> sm_active_session sm = None \<and> dev_live (rm_device (sm_recording_manager sm)) = 0 \<and>
     q_worker (sm_queue sm) = Exited \<and> q_pending (sm_queue sm) = [] \<and> q_completed (sm_queue sm) = [] \<and>
     q_started (sm_queue sm) = []"

lemma at_rest_after_poll:
  assumes "sm_inv sm" and "sm_state sm = Idle" and "q_worker (sm_queue sm) = Exited"
    and "poll_completed pub be n sm b w = (k, sm', b', w')"
  shows "at_rest sm'"
proof -
  have "polled_queue be n (sm_queue sm) b = (snd (drain_completed (sm_queue sm)), b)"
    unfolding polled_queue_def by (rule worker_run_exited) (simp add: drain_completed_def assms(3))
  then obtain c f where sm': "sm' = sm\<lparr>sm_queue := snd (drain_started (snd (drain_completed (sm_queue sm)))),
      sm_last_completed := c, sm_last_failed := f\<rparr>"
    using poll_completed_result [of pub be n sm b w] assms(4) by auto
  have "q_pending (sm_queue sm) = []" using assms(1,3) by (simp add: sm_inv_def queue_inv_def)
  moreover have "sm_active_session sm = None" "dev_live (rm_device (sm_recording_manager sm)) = 0"
    using assms(1,2) by (auto simp: sm_inv_def rm_inv_def device_inv_def)
  ultimately show ?thesis
    using assms(2,3) by (simp add: at_rest_def sm' drain_started_def drain_completed_def)
qed

text \<open>The phases of the shutdown.\<close>

lemma shut_down_phases:
  obtains w0 r1 sm1 w1 w2 dropped sm3 b3 w3 w4 w5 where
    "w0 = logger P Info ''shutting down'' w"
    "cancel_session (daemon_pub P) (sp_late sp) (d_sm w0) w0 = (r1, sm1, w1)"
    "w2 = background_steps P (sp_background sp) (w1\<lparr>d_sm := sm1\<rparr>)"
    "sm_shutdown (daemon_pub P) (backend_of P) (sp_before_abort sp) (d_sm w2) (d_backend w2) w2 = (dropped, sm3, b3, w3)"
    "w4 = w3\<lparr>d_sm := sm_set_activity_callback None sm3, d_backend := b3\<rparr>"
    "w5 = w4 \<or> (\<exists>m. w5 = logger P Warn m w4)"
    "shut_down P sp w = service_stop (poll_results P (sp_between_drains sp) w5)"
proof -
  define w0 where "w0 = logger P Info ''shutting down'' w"
  obtain r1 sm1 w1 where c: "cancel_session (daemon_pub P) (sp_late sp) (d_sm w0) w0 = (r1, sm1, w1)" by (metis prod.collapse)
  define w2 where "w2 = background_steps P (sp_background sp) (w1\<lparr>d_sm := sm1\<rparr>)"
  obtain dropped sm3 b3 w3 where s: "sm_shutdown (daemon_pub P) (backend_of P) (sp_before_abort sp) (d_sm w2) (d_backend w2) w2 = (dropped, sm3, b3, w3)"
    by (metis prod.collapse)
  define w4 where "w4 = w3\<lparr>d_sm := sm_set_activity_callback None sm3, d_backend := b3\<rparr>"
  define w5 where "w5 = (if dropped \<noteq> [] then logger P Warn (''dropped '' @ to_string_nat (length dropped) @
      '' queued transcription(s) at shutdown'') w4 else w4)"
  have "shut_down P sp w = service_stop (poll_results P (sp_between_drains sp) w5)"
    by (simp only: shut_down_def Let_def w0_def [symmetric] c prod.case w2_def [symmetric] s w4_def [symmetric] w5_def [symmetric])
  moreover have "w5 = w4 \<or> (\<exists>m. w5 = logger P Warn m w4)" by (auto simp: w5_def)
  ultimately show thesis using that w0_def c w2_def s w4_def by blast
qed

lemma shut_down_abnormal:
  assumes "abnormal_ok P w"
  shows "abnormal_ok P (shut_down P sp w)"
proof -
  obtain w0 r1 sm1 w1 w2 dropped sm3 b3 w3 w4 w5 where w0: "w0 = logger P Info ''shutting down'' w"
    and c: "cancel_session (daemon_pub P) (sp_late sp) (d_sm w0) w0 = (r1, sm1, w1)"
    and w2: "w2 = background_steps P (sp_background sp) (w1\<lparr>d_sm := sm1\<rparr>)"
    and s: "sm_shutdown (daemon_pub P) (backend_of P) (sp_before_abort sp) (d_sm w2) (d_backend w2) w2 = (dropped, sm3, b3, w3)"
    and w4: "w4 = w3\<lparr>d_sm := sm_set_activity_callback None sm3, d_backend := b3\<rparr>"
    and w5: "w5 = w4 \<or> (\<exists>m. w5 = logger P Warn m w4)"
    and sd: "shut_down P sp w = service_stop (poll_results P (sp_between_drains sp) w5)"
    by (rule shut_down_phases)
  obtain k sm6 b6 w6 where p: "poll_completed (daemon_pub P) (backend_of P) (sp_between_drains sp) (d_sm w5) (d_backend w5) w5 = (k, sm6, b6, w6)"
    by (metis prod.collapse)
  have "abnormal_ok P w1"
    using assms abnormal_ok_step [of P w0 w1] quiet.cancel_session_R [OF c] by (simp add: w0 abnormal_ok_def published_def)
  moreover have "d_abnormal w2 = d_abnormal w1"
    using background_steps_effect [of "w1\<lparr>d_sm := sm1\<rparr>" P "sp_background sp"] by (auto simp: w2 background_effect_def)
  ultimately have "abnormal_ok P w2" by (simp add: abnormal_ok_def)
  then have "abnormal_ok P w3"
    using abnormal_ok_step [of P w2 w3] quiet.sm_shutdown_R [OF s] by (simp add: published_def)
  then have "abnormal_ok P w5" using w5 by (auto simp: w4 abnormal_ok_def)
  then have "abnormal_ok P w6"
    using abnormal_ok_step [of P w5 w6] quiet.poll_completed_R [OF p] by (simp add: published_def)
  then show ?thesis by (simp add: sd service_stop_def poll_results_def p abnormal_ok_def)
qed

lemma shut_down_rests:
  assumes "daemon_inv P w" and "sv_listening (d_server w)"
    and w'_def: "w' = shut_down P sp w"
  shows "at_rest (d_sm w') \<and> \<not> sv_listening (d_server w') \<and> \<not> sv_wake_open (d_server w') \<and> sv_read_buffers (d_server w') = (\<lambda>_. None) \<and>
     sv_open (d_server w') = {} \<and> \<not> sv_socket_file (d_server w') \<and> abnormal_ok P w'"
proof -
  obtain w0 r1 sm1 w1 w2 dropped sm3 b3 w3 w4 w5 where w0_def: "w0 = logger P Info ''shutting down'' w"
    and c: "cancel_session (daemon_pub P) (sp_late sp) (d_sm w0) w0 = (r1, sm1, w1)"
    and w2_def: "w2 = background_steps P (sp_background sp) (w1\<lparr>d_sm := sm1\<rparr>)"
    and s: "sm_shutdown (daemon_pub P) (backend_of P) (sp_before_abort sp) (d_sm w2) (d_backend w2) w2 = (dropped, sm3, b3, w3)"
    and w4_def: "w4 = w3\<lparr>d_sm := sm_set_activity_callback None sm3, d_backend := b3\<rparr>"
    and w5: "w5 = w4 \<or> (\<exists>m. w5 = logger P Warn m w4)"
    and w': "w' = service_stop (poll_results P (sp_between_drains sp) w5)"
    unfolding w'_def by (rule shut_down_phases)
  have w5_facts: "d_sm w5 = d_sm w4" "same_clients w4 w5"
    using w5 by (auto simp: same_clients_def)
  have w0: "d_sm w0 = d_sm w" "same_clients w w0" "sm_inv (d_sm w)"
    using assms(1) by (simp_all add: w0_def same_clients_def daemon_inv_def world_ok_def)
  have sm1: "sm_inv sm1" "sm_state sm1 = Idle" "same_clients w0 w1"
    using sm_inv_cancel [OF _ c] cancel_session_idle [OF c] w0 published_clients [OF quiet.cancel_session_R [OF c]] by simp_all
  have eff: "background_effect (w1\<lparr>d_sm := sm1\<rparr>) w2" unfolding w2_def by (rule background_steps_effect)
  then have w2: "sm_inv (d_sm w2)" "sm_state (d_sm w2) = Idle" "same_clients w1 w2"
    using sm1(1,2) background_clients [OF eff] by (auto simp: background_effect_def same_clients_def)
  obtain q' where q: "queue_shutdown (backend_of P) (sp_before_abort sp) (sm_queue (d_sm w2), d_backend w2) = (dropped, q', b3)"
    "sm3 = (d_sm w2)\<lparr>sm_queue := q'\<rparr>" using sm_shutdown_result [OF s] by blast
  have "sm_inv (d_sm w5)" "sm_state (d_sm w5) = Idle" "q_worker (sm_queue (d_sm w5)) = Exited"
    using sm_inv_shutdown [OF w2(1) s] queue_shutdown_result(2) [OF q(1)] w2(2)
    by (simp_all add: w5_facts w4_def sm_inv_callback) (simp_all add: q(2) sm_set_activity_callback_def set_activity_callback_def)
  moreover obtain k sm6 b6 w6 where p: "poll_completed (daemon_pub P) (backend_of P) (sp_between_drains sp) (d_sm w5) (d_backend w5) w5 = (k, sm6, b6, w6)"
    by (metis prod.collapse)
  ultimately have "at_rest sm6" by (rule at_rest_after_poll)
  moreover have "abnormal_ok P w'" unfolding w'_def using assms(1) by (intro shut_down_abnormal) (simp add: daemon_inv_def world_ok_def)
  moreover have "same_clients w (poll_results P (sp_between_drains sp) w5)"
    using w0(2) sm1(3) w2(3) published_clients [OF quiet.sm_shutdown_R [OF s]] poll_results_clients [of w5 P "sp_between_drains sp"]
      w5_facts(2) by (simp add: same_clients_def w4_def)
  ultimately show ?thesis
    using assms(1,2) by (auto simp: w' service_stop_def sv_stop_def poll_results_def p same_clients_def daemon_inv_def server_inv_def)
qed

section \<open>Destroying the objects\<close>

text \<open>A queue with nothing in it and a worker that holds no job; the worker cannot change that.\<close>

definition drained :: "'cb transcription_queue \<Rightarrow> bool" where
  "drained q \<longleftrightarrow> q_pending q = [] \<and> q_completed q = [] \<and> q_started q = [] \<and> (q_worker q = Waiting \<or> q_worker q = Exited)"

lemma drained_step: "drained (fst s) \<Longrightarrow> drained (fst (fst (worker_step be s)))"
  by (cases s) (auto simp: drained_def worker_step.simps take_job_def)

lemma drained_run: "drained (fst s) \<Longrightarrow> drained (fst (worker_run be n s))"
  by (induction n arbitrary: s) (simp_all add: drained_step)

lemma drained_join: "drained (fst s) \<Longrightarrow> drained (fst (join_worker be n s))"
  by (induction n arbitrary: s) (simp_all add: drained_step)

lemma drained_shutdown:
  assumes "drained q" and "queue_shutdown be n (q, b) = (dropped, q', b')"
  shows "drained q' \<and> q_worker q' = Exited"
proof -
  obtain q2 b2 where run: "worker_run be n (snd (begin_shutdown q), b) = (q2, b2)" by fastforce
  have "drained (fst (snd (begin_shutdown q), b))" using assms(1) by (simp add: begin_shutdown_def drained_def)
  from drained_run [OF this, of be n] have "drained (fst (q2, request_abort be b2))" by (simp add: run)
  from drained_join [OF this, of be 7] have "drained q'"
    using assms(2) run by (auto simp: queue_shutdown_def Let_def begin_shutdown_def split: prod.splits)
  with queue_shutdown_result(2) [OF assms(2)] show ?thesis by simp
qed

lemma destroy_rests:
  assumes "drained (sm_queue (d_sm w))" and "sm_state (d_sm w) = Idle" and "sm_active_session (d_sm w) = None"
    and "dev_live (rm_device (sm_recording_manager (d_sm w))) = 0" and "\<not> sv_listening (d_server w)"
    and w'_def: "w' = destroy P n w"
  shows "at_rest (d_sm w') \<and> wb_ctx (d_backend w') = None \<and> d_server w' = d_server w \<and> d_abnormal w' = d_abnormal w"
proof -
  obtain dropped q' b' where s: "queue_shutdown (backend_of P) n (sm_queue (d_sm w), d_backend w) = (dropped, q', b')"
    by (metis prod.collapse)
  have "service_stop w = w" using assms(5) by (simp add: service_stop_def sv_stop_def)
  then have w': "w' = w\<lparr>d_backend := unload_model b', d_sm := (d_sm w)\<lparr>sm_queue := q', sm_recording_manager :=
      (sm_recording_manager (d_sm w))\<lparr>rm_device := device_stop (rm_device (sm_recording_manager (d_sm w)))\<rparr>\<rparr>\<rparr>"
    by (simp add: w'_def destroy_def s Let_def)
  have "wb_ctx (unload_model b') = None" by (simp add: unload_model_def split: option.split)
  moreover have "dev_live (device_stop d) = 0" if "dev_live d = 0" for d
    using that by (simp add: device_stop_def ma_device_uninit_def)
  ultimately show ?thesis
    using drained_shutdown [OF assms(1) s] assms(2-4) by (simp add: w' at_rest_def drained_def)
qed

lemma boot_session_manager:
  "\<exists>c. d_sm (boot P bo) = new_session_manager new_recording_manager c default_capacity"
  by (auto simp: boot_def construct_event_bridge_def construct_auto_clipboard_def construct_live_transcriber_def
      construct_session_manager_def Let_def split: prod.split)

lemma refused_rests:
  assumes "start_up P bo = (False, w)"
  shows "drained (sm_queue (d_sm w)) \<and> sm_state (d_sm w) = Idle \<and> sm_active_session (d_sm w) = None \<and>
     dev_live (rm_device (sm_recording_manager (d_sm w))) = 0 \<and> \<not> sv_listening (d_server w)"
proof -
  have "d_sm w = d_sm (boot P bo)" and sv: "\<not> sv_listening (d_server w)"
    using assms boot_not_listening [of P bo]
    by (auto simp: start_up_def service_start_def sv_start_def Let_def split: if_splits option.splits prod.splits ipc_error.splits)
  moreover obtain c where "d_sm (boot P bo) = new_session_manager new_recording_manager c default_capacity"
    using boot_session_manager by blast
  ultimately show ?thesis
    by (simp add: new_session_manager_def drained_def new_queue_def new_recording_manager_def new_device_def)
qed

end
