(* ===== verification/Daemon_Wakeup.thy ===== *)
theory Daemon_Wakeup
  imports Daemon_Protocol
begin

text \<open>
  The wake-up of the main loop. The worker calls \<^verbatim>\<open>IpcServer::wake\<close> after it has recorded that a job
  started or finished, and the loop drains the queue after it has cleared the wake-up; whatever the
  interleaving, nothing stays in the queue without a wake-up that is pending or that the worker is about
  to make. The last section follows the worker until it has answered every job.
\<close>

section \<open>The worker\<close>

definition reporting :: "'cb worker_pc \<Rightarrow> bool" where
  "reporting pc \<longleftrightarrow> (case pc of Reporting \<Rightarrow> True | ReportCall _ \<Rightarrow> True | _ \<Rightarrow> False)"

definition announcing_start :: "'cb worker_pc \<Rightarrow> bool" where
  "announcing_start pc \<longleftrightarrow> (case pc of Announcing _ \<Rightarrow> True | AnnounceCall _ _ \<Rightarrow> True | _ \<Rightarrow> False)"

definition finish_signalled :: "'cb transcription_queue \<Rightarrow> bool" where
  "finish_signalled q \<longleftrightarrow> q_completed q = [] \<or> reporting (q_worker q)"

definition start_signalled :: "'cb transcription_queue \<Rightarrow> bool" where
  "start_signalled q \<longleftrightarrow> q_started q = [] \<or> announcing_start (q_worker q)"

lemmas signal_defs = finish_signalled_def start_signalled_def reporting_def announcing_start_def

lemma worker_step_finish:
  "q_on_activity (fst s) \<noteq> None \<Longrightarrow> finish_signalled (fst s) \<Longrightarrow>
     snd (worker_step be s) \<noteq> None \<or> finish_signalled (fst (fst (worker_step be s)))"
  by (cases s; cases "q_worker (fst s)")
     (auto simp: worker_step.simps signal_defs take_job_def transcribe_job_def store_result_def after_announce_def
       after_report_def split: list.splits prod.splits)

lemma worker_step_start:
  "q_on_activity (fst s) \<noteq> None \<Longrightarrow> start_signalled (fst s) \<Longrightarrow>
     snd (worker_step be s) \<noteq> None \<or> start_signalled (fst (fst (worker_step be s)))"
  by (cases s; cases "q_worker (fst s)")
     (auto simp: worker_step.simps signal_defs take_job_def transcribe_job_def store_result_def after_announce_def
       after_report_def split: list.splits prod.splits)

lemma worker_run_finish:
  "q_on_activity (fst s) \<noteq> None \<Longrightarrow> finish_signalled (fst s) \<Longrightarrow>
     worker_rings be n s \<or> finish_signalled (fst (worker_run be n s))"
proof (induction n arbitrary: s)
  case (Suc n)
  from worker_step_finish [OF Suc.prems, of be] Suc.IH [of "fst (worker_step be s)"] Suc.prems(1) show ?case by auto
qed simp

section \<open>The process\<close>

text \<open>The wake-up is installed: the queue has its callback and the server its eventfd.\<close>

definition wired :: "'c daemon \<Rightarrow> bool" where
  "wired w \<longleftrightarrow> q_on_activity (sm_queue (d_sm w)) = Some ()"

definition wake_ok :: "'c daemon \<Rightarrow> bool" where
  "wake_ok w \<longleftrightarrow>
     sv_wake_pending (d_server w) \<or> finish_signalled (sm_queue (d_sm w)) \<and> start_signalled (sm_queue (d_sm w))"

lemma wired_settings: "sm_settings (d_sm w') = sm_settings (d_sm w) \<Longrightarrow> wired w' = wired w"
  by (simp add: wired_def sm_settings_def)

lemma wired_background: "background_effect w w' \<Longrightarrow> wired w' = wired w"
  by (rule wired_settings) (auto simp: background_effect_def)

lemma wired_published: "published P q w w' \<Longrightarrow> wired w' = wired w"
  by (simp add: wired_def published_def same_process_def)

lemma wired_command:
  assumes "command_effect P w w'" and "sm_inv (d_sm w)"
  shows "wired w' = wired w"
  using assms(1)
proof cases
  case (session w1 sm')
  then show ?thesis by (simp add: wired_def sm_settings_def)
next
  case (configured c w1 fs)
  have "published P False w w1" unfolding configured by (rule daemon_pub_published) simp
  from wired_published [OF this] configured show ?thesis by (simp add: wired_def)
qed (use assms(2) in \<open>simp_all add: wired_def\<close>)

lemma wired_update [simp]:
  "wired (w\<lparr>d_server := sv\<rparr>) = wired w" "wired (w\<lparr>d_lines := n\<rparr>) = wired w" "wired (w\<lparr>d_abnormal := a\<rparr>) = wired w"
  "wired (w\<lparr>d_subscribed := cs\<rparr>) = wired w" "wired (w\<lparr>d_lt := lt\<rparr>) = wired w" "wired (w\<lparr>d_backend := b\<rparr>) = wired w"
  by (simp_all add: wired_def)

lemma wired_replies [simp]:
  "wired (send_reply c r w) = wired w" "wired (bridge_subscribe P c w) = wired w" "wired (bridge_unsubscribe c w) = wired w"
  by (simp_all add: send_reply_def bridge_subscribe_def bridge_unsubscribe_def split: option.split)

lemma wired_message:
  assumes "world_ok P w"
  shows "wired (handle_message P c line w) = wired w"
proof -
  let ?w = "before_line P w"
  obtain r w1 where h: "handle_line P (pf_line P (d_lines w)) line ?w = (r, w1)" by fastforce
  have before: "wired ?w = wired w" using wired_background [OF before_line_effect [of w P]] by simp
  have "sm_inv (d_sm ?w)" using before_line_world_ok [OF assms] by (simp add: world_ok_def)
  from wired_command [OF handle_line_command [of P ?w "pf_line P (d_lines w)" line] this] have "wired w1 = wired w"
    by (simp add: h before)
  then show ?thesis by (simp add: handle_message_def h before Let_def)
qed

interpretation ipc_wired: server_world "on_line P" on_disconnect "\<lambda>w. world_ok P w \<and> wired w" for P
proof
  fix fd :: client_id and l :: string and s :: "ipc_server \<times> 'a daemon"
  assume ok: "world_ok P (snd s) \<and> wired (snd s)"
  show "world_ok P (snd (on_line P fd l s)) \<and> wired (snd (on_line P fd l s))"
    using ok ipc_world.line_world [of P s fd l] wired_message [of P "snd s\<lparr>d_server := fst s\<rparr>" fd l]
    by (auto simp: on_line_def world_ok_server Let_def split: prod.splits)
  show "world_ok P (snd (on_disconnect fd s)) \<and> wired (snd (on_disconnect fd s))"
    using ok ipc_world.disconnect_world [of P s fd]
    by (auto simp: on_disconnect_def split: prod.splits)
qed

lemma wired_poll:
  assumes "daemon_inv P w" and "wired w"
  shows "wired (service_poll P env w)"
proof -
  obtain sv w' where p: "poll_once env (on_line P) on_disconnect (d_server w, w) = (sv, w')" by fastforce
  show ?thesis
    using ipc_wired.poll_once_world [of P "(d_server w, w)" env] p assms by (simp add: daemon_inv_def service_poll_def)
qed

lemma wired_steps:
  "wired (background_steps P ms w) = wired w" "wired (poll_results P n w) = wired w" "wired (preview_tick P now late w) = wired w"
proof -
  show "wired (background_steps P ms w) = wired w" by (rule wired_background [OF background_steps_effect])
  obtain k sm' b' w' where p: "poll_completed (daemon_pub P) (backend_of P) n (d_sm w) (d_backend w) w = (k, sm', b', w')"
    by (metis prod.collapse)
  show "wired (poll_results P n w) = wired w"
    using poll_completed_settings [OF p] by (simp add: poll_results_def p wired_def sm_settings_def)
  obtain lt' b1 w1 where t: "tick (daemon_pub P) (pf_round P) (backend_of P) now late (d_sm w) (d_lt w) (d_backend w) w = (lt', b1, w1)"
    by (metis prod.collapse)
  show "wired (preview_tick P now late w) = wired w"
    using wired_published [OF quiet.tick_R [OF t]] by (simp add: preview_tick_def t wired_def)
qed

section \<open>No wake-up is lost\<close>

lemma wake_ok_worker:
  assumes "wired w" and "sv_wake_open (d_server w)" and "wake_ok w"
  shows "wake_ok (daemon_worker_step P w)"
proof -
  obtain q b ring where s: "worker_step (backend_of P) (sm_queue (d_sm w), d_backend w) = ((q, b), ring)"
    by (metis prod.collapse)
  have "q_on_activity (fst (sm_queue (d_sm w), d_backend w)) \<noteq> None" using assms(1) by (simp add: wired_def)
  from worker_step_finish [OF this, of "backend_of P"] worker_step_start [OF this, of "backend_of P"] assms(2,3) s show ?thesis
    by (auto simp: wake_ok_def daemon_worker_step_def sv_wake_def Let_def split: option.split)
qed

lemma wake_ok_background:
  "wired w \<Longrightarrow> sv_wake_open (d_server w) \<Longrightarrow> wake_ok w \<Longrightarrow> wake_ok (background_steps P ms w)"
  unfolding background_steps_def
proof (induction ms arbitrary: w)
  case (Cons m ms)
  have "wired (background_step P m w)" "sv_wake_open (d_server (background_step P m w))"
    using Cons.prems(1,2) wired_background [OF background_step_effect [of w P m]] background_clients [OF background_step_effect [of w P m]]
    by (simp_all add: same_clients_def)
  moreover have "wake_ok (background_step P m w)"
    using wake_ok_worker [OF Cons.prems, of P] Cons.prems(3) by (cases m) (simp_all add: wake_ok_def)
  ultimately show ?case using Cons.IH by simp
qed simp

text \<open>Draining restores the promise, whatever was in the queue and whether or not a wake-up was pending.\<close>

lemma wake_ok_results:
  assumes "wired w" and "sv_wake_open (d_server w)"
  shows "wake_ok (poll_results P n w)"
proof -
  let ?s = "(snd (drain_completed (sm_queue (d_sm w))), d_backend w)"
  obtain k sm' b' w' where p: "poll_completed (daemon_pub P) (backend_of P) n (d_sm w) (d_backend w) w = (k, sm', b', w')"
    by (metis prod.collapse)
  have q: "sm_queue sm' = snd (drain_started (fst (worker_run (backend_of P) n ?s)))"
    using poll_completed_result [of "daemon_pub P" "backend_of P" n "d_sm w" "d_backend w" w] p
    by (auto simp: polled_queue_def)
  have "sv_wake_open (d_server w')"
    using published_clients [OF quiet.poll_completed_R [OF p]] assms(2) by (simp add: same_clients_def)
  moreover have "worker_rings (backend_of P) n ?s \<or> finish_signalled (fst (worker_run (backend_of P) n ?s))"
    using assms(1) by (intro worker_run_finish) (simp_all add: drain_completed_def finish_signalled_def wired_def)
  ultimately show ?thesis
    by (auto simp: wake_ok_def poll_results_def p q sv_wake_def signal_defs drain_started_def)
qed

lemma wake_ok_tick:
  assumes "wake_ok w"
  shows "wake_ok (preview_tick P now late w)"
proof -
  obtain lt' b1 w1 where t: "tick (daemon_pub P) (pf_round P) (backend_of P) now late (d_sm w) (d_lt w) (d_backend w) w = (lt', b1, w1)"
    by (metis prod.collapse)
  from quiet.tick_R [OF t] assms show ?thesis
    by (simp add: preview_tick_def t wake_ok_def published_def same_process_def)
qed

lemma wake_ok_loop_step:
  assumes "daemon_inv P w" and "wired w" and "sv_listening (d_server w)" and "wake_ok w"
  shows "wired (loop_step P it w) \<and> wake_ok (loop_step P it w)"
proof (cases "d_abnormal w = None")
  case True
  let ?w1 = "service_poll P (it_poll it) w"
  let ?w2 = "background_steps P (it_before_results it) ?w1"
  let ?w3 = "poll_results P (it_between_drains it) ?w2"
  let ?w4 = "background_steps P (it_before_tick it) ?w3"
  let ?w5 = "preview_tick P (it_now it) (it_late it) ?w4"
  have w1: "wired ?w1" by (rule wired_poll [OF assms(1,2)])
  have "sv_listening (d_server ?w1)"
    using loop_step_listening [OF assms(1), of it] True assms(3) by (simp add: loop_step_def Let_def steps_listening)
  with daemon_inv_poll [OF assms(1), of "it_poll it"] have open1: "sv_wake_open (d_server ?w1)"
    by (simp add: daemon_inv_def server_inv_def)
  then have opens: "sv_wake_open (d_server ?w2)" "sv_wake_open (d_server ?w3)" "sv_wake_open (d_server ?w5)"
    using background_clients [OF background_steps_effect] poll_results_clients preview_tick_clients
    by (metis same_clients_def)+
  have "wake_ok ?w3" using w1 opens(1) by (intro wake_ok_results) (simp_all add: wired_steps)
  then have "wake_ok ?w4" using w1 opens(2) by (intro wake_ok_background) (simp_all add: wired_steps)
  then have "wake_ok (background_steps P (it_after it) ?w5)"
    using w1 opens(3) wake_ok_background [of ?w5 P "it_after it"] wake_ok_tick [of ?w4 P "it_now it" "it_late it"] by (simp add: wired_steps)
  with True w1 show ?thesis by (simp add: loop_step_def wired_steps Let_def)
qed (use assms in \<open>simp add: loop_step_def\<close>)

lemma wake_ok_run:
  "daemon_inv P w \<Longrightarrow> wired w \<Longrightarrow> sv_listening (d_server w) \<Longrightarrow> wake_ok w \<Longrightarrow>
     wired (run_loop P its w) \<and> wake_ok (run_loop P its w)"
  unfolding run_loop_def
  by (induction its arbitrary: w) (simp_all add: daemon_inv_loop_step loop_step_listening wake_ok_loop_step)

lemma wake_ok_start_up:
  assumes "start_up P bo = (True, w)"
  shows "wired w \<and> wake_ok w"
proof -
  obtain c where "d_sm (boot P bo) = new_session_manager new_recording_manager c default_capacity"
    using boot_session_manager by blast
  moreover from assms have "d_sm w = sm_set_activity_callback (Some ()) (d_sm (boot P bo))"
    by (auto simp: start_up_def service_start_def split: prod.splits option.splits ipc_error.splits)
  ultimately show ?thesis
    by (simp add: wired_def wake_ok_def signal_defs sm_set_activity_callback_def set_activity_callback_def new_session_manager_def
        new_queue_def)
qed

text \<open>A worker that is about to ring has rung two steps later.\<close>

lemma signal_arrives:
  assumes "wired w" and "sv_wake_open (d_server w)" and "wake_ok w"
    and "q_completed (sm_queue (d_sm w)) \<noteq> [] \<or> q_started (sm_queue (d_sm w)) \<noteq> []"
  shows "sv_wake_pending (d_server (background_steps P [WorkerStep, WorkerStep] w))"
proof -
  have cb: "q_on_activity (sm_queue (d_sm w)) = Some ()" using assms(1) by (simp add: wired_def)
  have keep: "sv_wake_pending (d_server v) \<Longrightarrow> sv_wake_pending (d_server (daemon_worker_step P v))" for v
    by (auto simp: daemon_worker_step_def sv_wake_def Let_def split: option.split prod.split)
  show ?thesis
  proof (cases "sv_wake_pending (d_server w)")
    case True
    then show ?thesis by (simp add: background_steps_def keep)
  next
    case False
    with assms(3,4) have "reporting (q_worker (sm_queue (d_sm w))) \<or> announcing_start (q_worker (sm_queue (d_sm w)))"
      by (auto simp: wake_ok_def finish_signalled_def start_signalled_def)
    then show ?thesis
      using assms(2) cb
      by (cases "q_worker (sm_queue (d_sm w))")
         (simp_all add: background_steps_def daemon_worker_step_def worker_step.simps sv_wake_def after_announce_def after_report_def
           reporting_def announcing_start_def keep transcribe_job_def take_job_def split: prod.split)
  qed
qed

section \<open>The worker left alone\<close>

lemma worker_steps_run:
  "sm_queue (d_sm (background_steps P (replicate n WorkerStep) w)) = fst (worker_run (backend_of P) n (sm_queue (d_sm w), d_backend w)) \<and>
   d_backend (background_steps P (replicate n WorkerStep) w) = snd (worker_run (backend_of P) n (sm_queue (d_sm w), d_backend w))"
  unfolding background_steps_def
proof (induction n arbitrary: w)
  case (Suc n)
  have "fst (worker_step (backend_of P) (sm_queue (d_sm w), d_backend w)) =
      (sm_queue (d_sm (daemon_worker_step P w)), d_backend (daemon_worker_step P w))"
    by (auto simp: daemon_worker_step_def Let_def split: prod.split option.split)
  with Suc.IH [of "daemon_worker_step P w"] show ?case by simp
qed simp

lemma background_visible:
  assumes "background_effect w w'"
  shows "sv_sent (d_server w') = sv_sent (d_server w)" "sv_kernel (d_server w') = sv_kernel (d_server w)"
    "d_subscribed w' = d_subscribed w" "d_abnormal w' = d_abnormal w" "clipboard_works P w' = clipboard_works P w"
  using assms by (auto simp: background_effect_def clipboard_works_def)

text \<open>Until the queue is stopped, the worker announces each job it takes, in the order in which they wait.\<close>

lemma worker_step_announces:
  "\<not> q_stopping q \<Longrightarrow>
     \<not> q_stopping (fst (fst (worker_step be (q, b)))) \<and>
     q_started (fst (fst (worker_step be (q, b)))) @ map job_session_id (q_pending (fst (fst (worker_step be (q, b))))) =
       q_started q @ map job_session_id (q_pending q)"
  by (cases "q_worker q") (auto simp: worker_step.simps queue_ops split: prod.splits list.splits option.splits)

lemma worker_run_announces:
  "\<not> q_stopping (fst s) \<Longrightarrow>
     q_started (fst (worker_run be n s)) @ map job_session_id (q_pending (fst (worker_run be n s))) =
       q_started (fst s) @ map job_session_id (q_pending (fst s))"
proof (induction n arbitrary: s)
  case (Suc n)
  obtain q b where s: "s = (q, b)" by (cases s)
  with worker_step_announces [of q be b] Suc.IH [of "fst (worker_step be s)"] Suc.prems show ?case by simp
qed simp

text \<open>What the worker leaves in the queue after enough steps, and the round that follows.\<close>

lemma worker_round:
  assumes "sm_inv (d_sm w)" and "\<not> q_stopping (sm_queue (d_sm w))" and "7 * length (q_pending (sm_queue (d_sm w))) + 6 \<le> n"
    and w1_def: "w1 = background_steps P (replicate n WorkerStep) w"
  shows "outstanding (sm_queue (d_sm (poll_results P 0 w1))) = [] \<and>
     (\<exists>rs. round_events P 0 w1 =
          map TranscriptionStarted (q_started (sm_queue (d_sm w)) @ map job_session_id (q_pending (sm_queue (d_sm w)))) @
          map outcome_event rs \<and>
        map res_session_id rs =
          map res_session_id (q_completed (sm_queue (d_sm w))) @ map job_session_id (outstanding (sm_queue (d_sm w))))"
proof -
  let ?q = "sm_queue (d_sm w)" and ?q1 = "sm_queue (d_sm w1)"
  have "pc_distance (q_worker ?q) \<le> 6" by (cases "q_worker ?q") auto
  with assms(3) have "work_left ?q \<le> n" by (simp add: work_left_def)
  moreover have "queue_inv ?q" using assms(1) by (simp add: sm_inv_def)
  ultimately have q1: "outstanding ?q1 = []"
    "map res_session_id (q_completed ?q1) = map res_session_id (q_completed ?q) @ map job_session_id (outstanding ?q)"
    using worker_run_drains [of "(?q, d_backend w)" n "backend_of P"] assms(2) worker_steps_run [of P n w]
    by (simp_all add: completed_ids_def w1_def Let_def)
  have "q_pending ?q1 = []" using q1(1) by (simp add: outstanding_def)
  then have "q_started ?q1 = q_started ?q @ map job_session_id (q_pending ?q)"
    using worker_run_announces [of "(?q, d_backend w)" "backend_of P" n] assms(2) worker_steps_run [of P n w]
    by (simp add: w1_def)
  then have "round_events P 0 w1 =
      map TranscriptionStarted (q_started ?q @ map job_session_id (q_pending ?q)) @ map outcome_event (q_completed ?q1)"
    by (simp add: round_events_def polled_queue_def drain_completed_def)
  moreover obtain k sm' b' w' where p: "poll_completed (daemon_pub P) (backend_of P) 0 (d_sm w1) (d_backend w1) w1 = (k, sm', b', w')"
    by (metis prod.collapse)
  then have "sm_queue sm' = snd (drain_started (snd (drain_completed ?q1)))"
    using poll_completed_result [of "daemon_pub P" "backend_of P" 0 "d_sm w1" "d_backend w1" w1] by (auto simp: polled_queue_def)
  then have "outstanding (sm_queue (d_sm (poll_results P 0 w1))) = []"
    using q1(1) by (simp add: poll_results_def p drain_started_def drain_completed_def outstanding_def)
  ultimately show ?thesis using q1(2) by blast
qed

end
