(* ===== verification/Daemon_Demo.thy ===== *)
theory Daemon_Demo
  imports Daemon_Wakeup
begin

text \<open>
  A concrete process, for the witnesses: no configuration file, no model, one client (descriptor 7)
  that connects in the first round of the main loop.
\<close>

definition bad_model_file :: dir_entry where
  "bad_model_file = \<lparr>entry_path = ''/m/'' @ [CHR 0xFF] @ ''-base.bin'', entry_regular = True, entry_type_error = False\<rparr>"

definition demo_line_env :: line_env where
  "demo_line_env =
     \<lparr>le_background = [], le_open = mic_ok, le_late = [], le_now = 0, le_now' = 0, le_enqueued_at = 0,
      le_io = good_io, le_listing = Some [bad_model_file]\<rparr>"

definition failing_copy_env :: copy_env where
  "failing_copy_env = demo_copy_env\<lparr>env_status := ExitStatus 1\<rparr>"

definition demo_platform :: "(nat, string + bool) platform" where
  "demo_platform =
     \<lparr>pf_json = toy_json, pf_toml = toy_toml, pf_whisper = demo_api, pf_round = id, pf_line = (\<lambda>_. demo_line_env),
      pf_copy = (\<lambda>_. failing_copy_env), pf_rank = (\<lambda>_ _. 0), pf_time = (\<lambda>_. demo_time)\<rparr>"

definition demo_boot :: boot_env where
  "demo_boot =
     \<lparr>bo_environment = (\<lambda>_. None), bo_io = good_io, bo_fs = (\<lambda>_. None), bo_listing = None, bo_exists = (\<lambda>_. Inr False),
      bo_answers = [],
      bo_start = \<lparr>se_probe = None, se_socket_error = None, se_bind_error = None, se_listen_error = None, se_eventfd_error = None\<rparr>\<rparr>"

definition demo_iteration :: iteration where
  "demo_iteration =
     \<lparr>it_poll = Some \<lparr>pe_wake = False, pe_accepts = [Accepted 7], pe_reads = []\<rparr>, it_before_results = [],
      it_between_drains = 0, it_before_tick = [], it_now = 0, it_late = [], it_after = []\<rparr>"

definition demo_stop :: stop_env where
  "demo_stop = \<lparr>sp_late = [], sp_background = [], sp_before_abort = 0, sp_between_drains = 0, sp_before_abort_again = 0\<rparr>"

definition demo_w0 :: "nat daemon" where
  "demo_w0 = snd (start_up demo_platform demo_boot)"

definition demo_w :: "nat daemon" where
  "demo_w = run_loop demo_platform [demo_iteration] demo_w0"

lemma cm_load_missing: "cm_load T io cm (\<lambda>_. None) = (errors, cm', trace) \<Longrightarrow> cm_configuration cm' = default_configuration"
  by (auto simp: cm_load_def Let_def split: option.splits prod.splits)

lemma boot_without_model:
  assumes "bo_listing bo = None"
  shows "d_server (boot P bo) = new_ipc_server (default_socket_path (bo_environment bo)) (bo_answers bo)"
    and "d_abnormal (boot P bo) = None" and "d_subscribed (boot P bo) = []"
    and "\<exists>c. d_sm (boot P bo) = new_session_manager new_recording_manager c default_capacity"
    and "bo_fs bo = (\<lambda>_. None) \<Longrightarrow> cm_configuration (d_cm (boot P bo)) = default_configuration"
    and "ac_adapter (d_clip (boot P bo)) = default_adapter"
proof -
  define w0 where "w0 = logger P Info ''Yoru Speech started'' (bare_process bo)"
  define w1 where "w1 = w0\<lparr>d_bus := log_domain_events (subscribe KErrorOccurred LogError (d_bus w0))\<rparr>"
  obtain errors cm trace where l: "cm_load (pf_toml P) (bo_io bo) (d_cm w1) (d_fs w1) = (errors, cm, trace)"
    by (metis prod.collapse)
  define w2 where "w2 = fold (\<lambda>e. logger P Warn (''config: '' @ ve_field e @ '': '' @ ve_message e)) errors
      (w1\<lparr>d_cm := cm, d_fs := last trace\<rparr>)"
  have w2: "d_subscribed w2 = []" "d_abnormal w2 = None" "d_server w2 = new_ipc_server (default_socket_path (bo_environment bo)) (bo_answers bo)"
    unfolding w2_def loggers_frame by (simp_all add: w1_def w0_def bare_process_def)
  have cm: "d_cm w2 = cm" "bo_fs bo = (\<lambda>_. None) \<Longrightarrow> cm_configuration cm = default_configuration"
  proof -
    have fs: "d_fs w1 = bo_fs bo" by (simp add: w1_def w0_def bare_process_def logger_def)
    show "d_cm w2 = cm" unfolding w2_def loggers_frame by simp
    show "bo_fs bo = (\<lambda>_. None) \<Longrightarrow> cm_configuration cm = default_configuration"
      using cm_load_missing l unfolding fs by metis
  qed
  obtain m where "load_configured_model P bo (cm_configuration (d_cm w2)) w2 = logger P Warn m w2"
    using assms by (simp add: load_configured_model_def list_available_models_def find_model_def)
  then have boot: "boot P bo = construct_event_bridge (construct_auto_clipboard (construct_live_transcriber
      (construct_session_manager (logger P Warn m w2))))"
    by (simp only: boot_def Let_def w0_def [symmetric] w1_def [symmetric] l prod.case w2_def [symmetric])
  show "d_server (boot P bo) = new_ipc_server (default_socket_path (bo_environment bo)) (bo_answers bo)"
    "d_abnormal (boot P bo) = None" "d_subscribed (boot P bo) = []"
    "\<exists>c. d_sm (boot P bo) = new_session_manager new_recording_manager c default_capacity"
    "ac_adapter (d_clip (boot P bo)) = default_adapter"
    by (auto simp: boot w2 construct_event_bridge_def construct_auto_clipboard_def construct_live_transcriber_def
        construct_session_manager_def new_auto_clipboard_def)
  show "bo_fs bo = (\<lambda>_. None) \<Longrightarrow> cm_configuration (d_cm (boot P bo)) = default_configuration"
    using cm by (simp add: boot construct_event_bridge_def construct_auto_clipboard_def construct_live_transcriber_def
        construct_session_manager_def)
qed

lemma demo_started:
  "start_up demo_platform demo_boot = (True, demo_w0)"
  "d_server demo_w0 = (new_ipc_server ''/tmp/yoru-speech.sock'' [])
     \<lparr>sv_listening := True, sv_wake_open := True, sv_socket_file := True\<rparr>"
  "d_abnormal demo_w0 = None" "d_subscribed demo_w0 = []"
  "\<exists>c. d_sm demo_w0 = sm_set_activity_callback (Some ()) (new_session_manager new_recording_manager c default_capacity)"
  "cm_configuration (d_cm demo_w0) = default_configuration" "ac_adapter (d_clip demo_w0) = default_adapter"
proof -
  have "bo_listing demo_boot = None" by (simp add: demo_boot_def)
  note b = boot_without_model [OF this, of demo_platform]
  have s: "sv_start (bo_start demo_boot) (d_server (boot demo_platform demo_boot)) = (None, (new_ipc_server ''/tmp/yoru-speech.sock'' [])
     \<lparr>sv_listening := True, sv_wake_open := True, sv_socket_file := True\<rparr>)"
    unfolding b(1) by (simp add: sv_start_def demo_boot_def default_socket_path_def new_ipc_server_def kSunPathSize_def is_socket_live_def)
  show "start_up demo_platform demo_boot = (True, demo_w0)"
    by (simp add: demo_w0_def start_up_def service_start_def s)
  show "d_server demo_w0 = (new_ipc_server ''/tmp/yoru-speech.sock'' [])
     \<lparr>sv_listening := True, sv_wake_open := True, sv_socket_file := True\<rparr>"
    "d_abnormal demo_w0 = None" "d_subscribed demo_w0 = []"
    by (simp_all add: demo_w0_def start_up_def service_start_def s b(2,3))
  show "\<exists>c. d_sm demo_w0 = sm_set_activity_callback (Some ()) (new_session_manager new_recording_manager c default_capacity)"
    using b(4) by (auto simp: demo_w0_def start_up_def service_start_def s)
  have "bo_fs demo_boot = (\<lambda>_. None)" by (simp add: demo_boot_def)
  with b(5) show "cm_configuration (d_cm demo_w0) = default_configuration"
    by (simp add: demo_w0_def start_up_def service_start_def s)
  show "ac_adapter (d_clip demo_w0) = default_adapter"
    by (simp add: demo_w0_def start_up_def service_start_def s b(6))
qed

text \<open>With no session and nothing queued, the rest of a round does nothing.\<close>

lemma quiet_round:
  assumes "d_sm w = sm_set_activity_callback cb (new_session_manager new_recording_manager c cap)"
  shows "poll_results P 0 w = w" and "preview_tick P now [] w = w"
proof -
  have q: "sm_queue (d_sm w) = (new_queue cap)\<lparr>q_on_activity := cb\<rparr>" "sm_state (d_sm w) = Idle"
    by (simp_all add: assms sm_set_activity_callback_def set_activity_callback_def new_session_manager_def)
  have "poll_completed (daemon_pub P) (backend_of P) 0 (d_sm w) (d_backend w) w =
      (0, (d_sm w)\<lparr>sm_queue := sm_queue (d_sm w)\<rparr>, d_backend w, w)"
    unfolding q(1) by (simp add: poll_completed_def q(1) drain_completed_def drain_started_def new_queue_def)
  then show "poll_results P 0 w = w" by (simp add: poll_results_def)
  have "service_state_of (d_sm w) = Idle"
    by (simp add: service_state_of_def derive_state_def q queue_snapshot_of_def new_queue_def)
  then show "preview_tick P now [] w = w" by (simp add: preview_tick_def tick_def audio_steps_def)
qed

lemma demo_polled:
  "service_poll demo_platform (it_poll demo_iteration) demo_w0 =
     demo_w0\<lparr>d_server := (d_server demo_w0)\<lparr>sv_read_buffers := [7 \<mapsto> ''''], sv_open := {7}\<rparr>\<rparr>"
  by (simp add: service_poll_def poll_once_def demo_started(2) disconnect_pending_def demo_iteration_def)
     (simp add: new_ipc_server_def fun_upd_idem)

lemma demo_w_eq: "demo_w = demo_w0\<lparr>d_server := (d_server demo_w0)\<lparr>sv_read_buffers := [7 \<mapsto> ''''], sv_open := {7}\<rparr>\<rparr>"
proof -
  let ?w = "demo_w0\<lparr>d_server := (d_server demo_w0)\<lparr>sv_read_buffers := [7 \<mapsto> ''''], sv_open := {7}\<rparr>\<rparr>"
  obtain c where "d_sm demo_w0 = sm_set_activity_callback (Some ()) (new_session_manager new_recording_manager c default_capacity)"
    using demo_started(5) by blast
  then have "d_sm ?w = sm_set_activity_callback (Some ()) (new_session_manager new_recording_manager c default_capacity)" by simp
  note quiet_round [OF this, of demo_platform]
  moreover have "it_before_results demo_iteration = []" "it_between_drains demo_iteration = 0" "it_before_tick demo_iteration = []"
    "it_after demo_iteration = []" "it_late demo_iteration = []" by (simp_all add: demo_iteration_def)
  ultimately show ?thesis
    by (simp add: demo_w_def run_loop_def loop_step_def demo_started(3) demo_polled background_steps_def)
qed

lemma demo_inv: "daemon_inv demo_platform demo_w"
  unfolding demo_w_def by (rule daemon_inv_run [OF daemon_inv_start_up [OF demo_started(1)]])

lemma demo_facts:
  "sv_kernel (d_server demo_w) = []" "sv_read_buffers (d_server demo_w) 7 = Some ''''" "sv_sent (d_server demo_w) 7 = ''''"
  "sv_listening (d_server demo_w)" "d_abnormal demo_w = None" "d_subscribed demo_w = []"
  by (simp_all add: demo_w_eq demo_started(2,3,4)) (simp_all add: new_ipc_server_def)

lemma demo_clipboard: "ac_enabled (d_clip demo_w)" "ac_adapter (d_clip demo_w) = default_adapter"
proof -
  have "auto_clipboard (cm_configuration (d_cm demo_w))" by (simp add: demo_w_eq demo_started(6) default_configuration_def)
  then show "ac_enabled (d_clip demo_w)"
    using demo_inv by (simp add: daemon_inv_def world_ok_def settings_agree_def is_enabled_def Let_def)
  show "ac_adapter (d_clip demo_w) = default_adapter" by (simp add: demo_w_eq demo_started(7))
qed

text \<open>Shutting down with nothing queued publishes nothing.\<close>

lemma idle_queue_shutdown:
  "\<exists>q' b'. queue_shutdown be 0 ((new_queue cap)\<lparr>q_on_activity := cb\<rparr>, b) = ([], q', b') \<and>
     q_started q' = [] \<and> q_completed q' = []"
  by (simp add: queue_shutdown_def begin_shutdown_def new_queue_def numeral_eq_Suc worker_step.simps take_job_def)

lemma idle_shut_down:
  assumes "d_sm w = sm_set_activity_callback cb (new_session_manager new_recording_manager c cap)" and "d_abnormal w = None"
  shows "d_abnormal (shut_down P demo_stop w) = None"
proof -
  define w0 where "w0 = logger P Info ''shutting down'' w"
  have q: "sm_queue (d_sm w0) = (new_queue cap)\<lparr>q_on_activity := cb\<rparr>" "sm_state (d_sm w0) = Idle" "d_abnormal w0 = None"
    using assms by (simp_all add: w0_def sm_set_activity_callback_def set_activity_callback_def new_session_manager_def)
  obtain q' b' where s: "queue_shutdown (backend_of P) 0 (sm_queue (d_sm w0), d_backend w0) = ([], q', b')"
    "q_started q' = []" "q_completed q' = []"
    using idle_queue_shutdown [where be = "backend_of P" and cap = cap and cb = cb and b = "d_backend w0"] unfolding q(1) by blast
  show ?thesis
    unfolding shut_down_def w0_def [symmetric]
    by (simp add: cancel_session_def q(2,3) demo_stop_def background_steps_def sm_shutdown_def s service_stop_def poll_results_def
        poll_completed_def drain_completed_def drain_started_def sm_set_activity_callback_def set_activity_callback_def)
qed

lemma demo_main:
  "main demo_platform demo_boot [demo_iteration] demo_stop = (Some 0, destroy demo_platform 0 (shut_down demo_platform demo_stop demo_w))"
proof -
  obtain c where "d_sm demo_w = sm_set_activity_callback (Some ()) (new_session_manager new_recording_manager c default_capacity)"
    using demo_started(5) by (auto simp: demo_w_eq)
  from idle_shut_down [OF this demo_facts(5), of demo_platform] show ?thesis
    by (simp add: main_def demo_started(1) demo_w_def [symmetric] demo_facts(5) Let_def) (simp add: demo_stop_def)
qed

text \<open>Client 7 subscribed, and a job that failed.\<close>

definition demo_transcript :: transcript where
  "demo_transcript = \<lparr>transcript_text = ''oi'', detected_language = ''pt'', requested_language = ''pt'',
     audio_duration = 5, processing_time = 1\<rparr>"

lemma demo_copy_fails:
  "\<exists>r. copy failing_copy_env content default_adapter = Some r \<and>
     cr_error r = Some (ClipboardError ''wl-copy exited with status 1'')"
proof -
  have "to_string_nat 1 = ''1''" by code_simp
  then show ?thesis
    using demo_copy_result [of 1 content default_adapter] by (auto simp: failing_copy_env_def default_adapter_def status_error_def)
qed

lemma demo_subscribed_inv: "daemon_inv demo_platform (demo_w\<lparr>d_subscribed := [7]\<rparr>)"
  using demo_inv demo_facts(2) by (auto simp: daemon_inv_def world_ok_def settings_agree_def abnormal_ok_def)

lemma demo_copy_works: "\<exists>r. copy demo_copy_env content a = Some r \<and> cr_error r = None"
proof -
  have "demo_copy_env\<lparr>env_status := ExitStatus 0\<rparr> = demo_copy_env" by (simp add: demo_copy_env_def)
  with demo_copy_result [of 0 content a] show ?thesis by (simp add: status_error_def)
qed

definition working_platform :: "(nat, string + bool) platform" where
  "working_platform = demo_platform\<lparr>pf_copy := (\<lambda>_. demo_copy_env)\<rparr>"

definition demo_finished :: "nat daemon" where
  "demo_finished = demo_w\<lparr>d_subscribed := [7],
     d_sm := (d_sm demo_w)\<lparr>sm_queue := (sm_queue (d_sm demo_w))\<lparr>q_completed := [\<lparr>res_session_id = 1, res_result = Inr (SpeechError ''no model'')\<rparr>]\<rparr>\<rparr>\<rparr>"

lemma demo_finished_facts:
  "daemon_inv working_platform demo_finished" "d_abnormal demo_finished = None"
  "clipboard_works working_platform demo_finished" "sv_kernel (d_server demo_finished) = []"
proof -
  have sm: "sm_inv (sm\<lparr>sm_queue := (sm_queue sm)\<lparr>q_completed := rs\<rparr>\<rparr>) = sm_inv sm" for rs and sm :: "unit session_manager"
    by (cases "sm_state sm") (simp_all add: sm_inv_def queue_inv_def room_or_stopped_def has_capacity_def)
  show "daemon_inv working_platform demo_finished"
    using demo_subscribed_inv demo_facts(5)
    by (simp add: demo_finished_def daemon_inv_def world_ok_def settings_agree_def abnormal_ok_def sm)
  show "d_abnormal demo_finished = None" "sv_kernel (d_server demo_finished) = []"
    by (simp_all add: demo_finished_def demo_facts)
  show "clipboard_works working_platform demo_finished"
    by (simp add: clipboard_works_def working_platform_def demo_copy_works)
qed

lemma demo_finished_events:
  "round_events working_platform 0 demo_finished = [ErrorOccurred (Some 1) ''speech'' ''no model'']"
proof -
  have "q_started (sm_queue (d_sm demo_w)) = []"
    using demo_started(5) by (auto simp: demo_w_eq sm_set_activity_callback_def set_activity_callback_def new_session_manager_def new_queue_def)
  then show ?thesis
    by (simp add: round_events_def polled_queue_def demo_finished_def drain_completed_def outcome_event_def)
qed

text \<open>Client 7 subscribed, one job waiting, no model.\<close>

definition demo_queued :: "nat daemon" where
  "demo_queued = demo_w\<lparr>d_subscribed := [7], d_backend := new_whisper_backend,
     d_sm := (d_sm demo_w)\<lparr>sm_queue := (new_queue default_capacity)\<lparr>q_pending := [demo_job 1]\<rparr>\<rparr>\<rparr>"

lemma demo_queued_facts:
  "daemon_inv working_platform demo_queued" "d_abnormal demo_queued = None"
  "clipboard_works working_platform demo_queued" "sv_kernel (d_server demo_queued) = []"
proof -
  obtain c where "d_sm demo_w = sm_set_activity_callback (Some ()) (new_session_manager new_recording_manager c default_capacity)"
    using demo_started(5) by (auto simp: demo_w_eq)
  then have sm: "sm_state (d_sm demo_w) = Idle" by (simp add: sm_set_activity_callback_def new_session_manager_def)
  then have "sm_inv ((d_sm demo_w)\<lparr>sm_queue := (new_queue default_capacity)\<lparr>q_pending := [demo_job 1]\<rparr>\<rparr>)"
    using demo_inv by (simp add: daemon_inv_def world_ok_def sm_inv_def queue_inv_def new_queue_def default_capacity_def)
  then show "daemon_inv working_platform demo_queued"
    using demo_subscribed_inv demo_facts(5)
    by (simp add: demo_queued_def daemon_inv_def world_ok_def settings_agree_def abnormal_ok_def) (simp add: new_queue_def)
  show "d_abnormal demo_queued = None" "sv_kernel (d_server demo_queued) = []"
    by (simp_all add: demo_queued_def demo_facts)
  show "clipboard_works working_platform demo_queued"
    by (simp add: clipboard_works_def working_platform_def demo_copy_works)
qed

lemma demo_queued_run:
  "\<exists>q b. worker_run (whisper_vtable demo_api) 13 ((new_queue default_capacity :: unit transcription_queue)\<lparr>q_pending := [demo_job 1]\<rparr>, new_whisper_backend) = (q, b) \<and>
     q_started q = [1] \<and> q_completed q = [\<lparr>res_session_id = 1, res_result = Inr (SpeechError ''no model loaded'')\<rparr>]"
  by (simp add: numeral_eq_Suc worker_step.simps take_job_def new_queue_def demo_job_def transcribe_job_def whisper_defs
      new_whisper_backend_def after_announce_def after_report_def store_result_def Let_def)

lemma toy_event: "json_utf8 (event_json e) \<Longrightarrow> \<exists>line. encode_event toy_json e = Some line"
  by (simp add: encode_event_def toy_json_def)

lemma demo_queued_events:
  "\<forall>e \<in> set (round_events working_platform 0 (background_steps working_platform (replicate 13 WorkerStep) demo_queued)).
     encode_event toy_json e \<noteq> None"
proof -
  let ?w1 = "background_steps working_platform (replicate 13 WorkerStep) demo_queued"
  have "sm_queue (d_sm ?w1) = fst (worker_run (whisper_vtable demo_api) 13
      ((new_queue default_capacity)\<lparr>q_pending := [demo_job 1]\<rparr>, new_whisper_backend))"
    using worker_steps_run [of working_platform 13 demo_queued]
    by (simp add: demo_queued_def working_platform_def demo_platform_def)
  with demo_queued_run have "q_started (sm_queue (d_sm ?w1)) = [1]"
    "q_completed (sm_queue (d_sm ?w1)) = [\<lparr>res_session_id = 1, res_result = Inr (SpeechError ''no model loaded'')\<rparr>]" by auto
  then have "round_events working_platform 0 ?w1 =
      [TranscriptionStarted 1, ErrorOccurred (Some 1) ''speech'' ''no model loaded'']"
    by (simp add: round_events_def polled_queue_def drain_completed_def outcome_event_def)
  moreover have "json_utf8 (event_json (TranscriptionStarted 1))"
    "json_utf8 (event_json (ErrorOccurred (Some 1) ''speech'' ''no model loaded''))"
    by (simp_all add: event_json_def json_object_def raw_def optional_id_def valid_utf8_def char_code_def)
  ultimately show ?thesis using toy_event by simp
qed

text \<open>A request the toy JSON can print.\<close>

lemma toy_request:
  assumes "valid_utf8 type"
  shows "\<exists>line. parse_message toy_json line = Inl type \<and> encode_ack toy_json type = Some line"
proof -
  have "json_utf8 (response type True [])"
    using assms by (simp add: response_def json_object_def valid_utf8_def char_code_def)
  then obtain line where "encode_ack toy_json type = Some line" by (simp add: encode_ack_def toy_json_def)
  with ack_type [OF toy_json_faithful this] show ?thesis by blast
qed

end
