(* ===== verification/Daemon_History.thy ===== *)
theory Daemon_History
  imports Daemon_Protocol
begin

text \<open>
  The process refines the session manager's histories: whatever clients send and the other threads
  do, the session manager and the backend inside the running daemon are where some sequence of the
  manager's commands (\<open>sm_run\<close>) leads, and the session events published on the bus are those the sequence
  records. The step is a simulation: every operation is the same function run with two publishers, the
  event bus and the recorder (\<open>publisher_simulation\<close>, interpreted here on the process's bus).
\<close>

section \<open>The published events\<close>

definition session_trace :: "'c daemon \<Rightarrow> event list" where
  "session_trace w = filter session_event (d_trace w)"

lemma handler_trace: "\<not> (h = ClipboardCopy \<and> is_completed e) \<Longrightarrow> d_trace (handler_effect pub P h e w) = d_trace w"
  by (cases h; cases e) (simp_all add: logger_def broadcast_def split: option.split)

interpretation nested_trace: handler_contract d_bus kind_of "run_handler (publish_nested 0 P) P"
  "\<lambda>e. \<not> is_completed e" "\<lambda>w w'. d_trace w' = d_trace w" for P
  by unfold_locales (simp_all add: run_handler_fst handler_trace)

lemma nested_error_trace:
  "session_trace (publish_nested (Suc 0) P (ErrorOccurred s ''clipboard'' m) w) = session_trace w"
  using nested_trace.invoke_all_inv [of "ErrorOccurred s ''clipboard'' m" P]
  by (simp add: publish_nested_Suc session_trace_def)

lemma leaf_trace:
  assumes "\<not> is_completed e" and "d_abnormal w = None"
  shows "d_trace (daemon_pub P e w) = d_trace w @ [e]"
proof -
  have "daemon_pub P e w = publish_nested (Suc 0) P e w"
    using publish_leaf [OF assms(1)] by (simp add: daemon_pub_def numeral_2_eq_2)
  then show ?thesis using nested_trace.invoke_all_inv [of e P] assms by (simp add: publish_nested_Suc)
qed

lemma clipboard_copy_trace:
  "session_trace (clipboard_copy (publish_nested (Suc 0) P) P sid t w) = session_trace w"
proof -
  have "session_trace (w\<lparr>d_abnormal := a\<rparr>) = session_trace w" "session_trace (w\<lparr>d_copies := n\<rparr>) = session_trace w"
    for a n and w :: "'a daemon" by (simp_all add: session_trace_def)
  then show ?thesis
    by (simp add: clipboard_copy_def ac_on_transcription_completed_def nested_error_trace Let_def
        split: option.splits clipboard_error.splits)
qed

interpretation outer_trace: handler_contract d_bus kind_of "run_handler (publish_nested (Suc 0) P) P"
  "\<lambda>e. True" "\<lambda>w w'. session_trace w' = session_trace w" for P
proof
  fix e :: event and w :: "'a daemon" and h :: handler
  show "session_trace (fst (run_handler (publish_nested (Suc 0) P) P h e w)) = session_trace w"
  proof (cases "h = ClipboardCopy \<and> is_completed e")
    case True
    then show ?thesis by (cases e) (simp_all add: run_handler_fst clipboard_copy_trace)
  next
    case False
    then show ?thesis by (simp add: run_handler_fst session_trace_def handler_trace)
  qed
qed simp_all

lemma daemon_pub_trace:
  "session_trace (daemon_pub P e w) = session_trace w @ (if d_abnormal w = None \<and> session_event e then [e] else [])"
  using outer_trace.invoke_all_inv [where e = e and P = P]
  by (simp add: daemon_pub_def numeral_2_eq_2 publish_nested_Suc) (simp add: session_trace_def)

lemma daemon_pub_gone: "d_abnormal w \<noteq> None \<Longrightarrow> daemon_pub P e w = w"
  by (simp add: daemon_pub_def numeral_2_eq_2 publish_nested_Suc)

lemma daemon_pub_alive: "d_abnormal (daemon_pub P e w) = None \<Longrightarrow> d_abnormal w = None"
  by (metis daemon_pub_gone)

interpretation recorded: publisher_simulation "daemon_pub P" record_event
  "\<lambda>w tr. d_abnormal w = None \<longrightarrow> session_trace w = tr" for P
proof
  fix e :: event and w :: "'a daemon" and tr :: "event list"
  assume S: "d_abnormal w = None \<longrightarrow> session_trace w = tr"
  show "d_abnormal (daemon_pub P e w) = None \<longrightarrow> session_trace (daemon_pub P e w) = record_event e tr" if "session_event e"
    using S that daemon_pub_gone [of w P e] by (cases "d_abnormal w = None") (auto simp: daemon_pub_trace)
  show "d_abnormal (daemon_pub P e w) = None \<longrightarrow> session_trace (daemon_pub P e w) = tr" if "\<not> session_event e"
    using S that daemon_pub_gone [of w P e] by (cases "d_abnormal w = None") (auto simp: daemon_pub_trace)
qed

text \<open>A process that is gone stays gone.\<close>

interpretation gone: configuration_publisher "daemon_pub P" "\<lambda>w w'. d_abnormal w' = None \<longrightarrow> d_abnormal w = None" for P
  by unfold_locales (auto dest: daemon_pub_alive)

section \<open>Steps of the process as commands\<close>

text \<open>
  From \<open>w\<close> to \<open>w'\<close>, unless the process ended, by some commands of which at most \<open>k\<close> start a session.
\<close>

definition by_commands :: "('c, 'n) platform \<Rightarrow> nat \<Rightarrow> 'c daemon \<Rightarrow> 'c daemon \<Rightarrow> bool" where
  "by_commands P k w w' \<longleftrightarrow>
     (d_abnormal w' = None \<longrightarrow> d_abnormal w = None \<and>
        (\<exists>cs. start_count cs \<le> k \<and>
           sm_run (backend_of P) cs (d_sm w, d_backend w, session_trace w) = (d_sm w', d_backend w', session_trace w')))"

lemma by_commands_same:
  assumes "d_sm w' = d_sm w" and "d_backend w' = d_backend w" and "d_trace w' = d_trace w"
    and "d_abnormal w' = None \<longrightarrow> d_abnormal w = None"
  shows "by_commands P k w w'"
  using assms by (auto simp: by_commands_def session_trace_def sm_run_def start_count_def intro!: exI [of _ "[]"])

lemma by_commands_trans:
  assumes "by_commands P k w w'" and "by_commands P m w' w''"
  shows "by_commands P (k + m) w w''"
  unfolding by_commands_def
proof (intro impI)
  assume "d_abnormal w'' = None"
  with assms(2) obtain ds where "d_abnormal w' = None" and ds: "start_count ds \<le> m"
    "sm_run (backend_of P) ds (d_sm w', d_backend w', session_trace w') = (d_sm w'', d_backend w'', session_trace w'')"
    unfolding by_commands_def by auto
  with assms(1) obtain cs where "d_abnormal w = None" "start_count cs \<le> k"
    "sm_run (backend_of P) cs (d_sm w, d_backend w, session_trace w) = (d_sm w', d_backend w', session_trace w')"
    unfolding by_commands_def by auto
  with ds show "d_abnormal w = None \<and> (\<exists>cs. start_count cs \<le> k + m \<and>
      sm_run (backend_of P) cs (d_sm w, d_backend w, session_trace w) = (d_sm w'', d_backend w'', session_trace w''))"
    by (intro conjI exI [of _ "cs @ ds"]) (simp_all add: sm_run_def start_count_def)
qed

lemma by_commands_mono: "by_commands P k w w' \<Longrightarrow> k \<le> m \<Longrightarrow> by_commands P m w w'"
  unfolding by_commands_def by (meson le_trans)

text \<open>One command, run with the bus: its events are on the trace and its result is stored.\<close>

lemma by_one_command:
  assumes "sm_exec (backend_of P) c (d_sm w, d_backend w, session_trace w) = (sm', b', tr')"
    and "d_abnormal w1 = None \<longrightarrow> session_trace w1 = tr'" and "d_abnormal w1 = None \<longrightarrow> d_abnormal w = None"
    and "d_sm w' = sm'" and "d_backend w' = b'" and "d_trace w' = d_trace w1" and "d_abnormal w' = d_abnormal w1"
    and "is_start c \<longrightarrow> 1 \<le> k"
  shows "by_commands P k w w'"
  using assms
  by (auto simp: by_commands_def session_trace_def sm_run_def start_count_def intro!: exI [of _ "[c]"])

section \<open>The other threads and the rounds\<close>

lemma background_step_commands: "by_commands P 0 w (background_step P m w)"
proof (cases m)
  case WorkerStep
  obtain q b ring where s: "worker_step (backend_of P) (sm_queue (d_sm w), d_backend w) = ((q, b), ring)"
    by (metis prod.collapse)
  have "sm_exec (backend_of P) (WorkerMoves 1) (d_sm w, d_backend w, session_trace w) =
      ((d_sm w)\<lparr>sm_queue := q\<rparr>, b, session_trace w)" by (simp add: s)
  then show ?thesis
    by (rule by_one_command [where ?w1.0 = w])
       (simp_all add: WorkerStep daemon_worker_step_def s Let_def split: option.split)
next
  case (AudioStep a)
  then show ?thesis
    by (intro by_one_command [where c = "AudioMoves a" and ?w1.0 = w and tr' = "session_trace w", OF _ _ _ refl refl]) simp_all
qed

lemma background_steps_commands: "by_commands P 0 w (background_steps P ms w)"
  unfolding background_steps_def
proof (induction ms arbitrary: w)
  case Nil
  show ?case by (rule by_commands_same) simp_all
next
  case (Cons m ms)
  from by_commands_trans [OF background_step_commands [of P w m] Cons.IH] show ?case by simp
qed

lemma poll_results_commands: "by_commands P 0 w (poll_results P n w)"
proof -
  obtain k sm' b' w' where p: "poll_completed (daemon_pub P) (backend_of P) n (d_sm w) (d_backend w) w = (k, sm', b', w')"
    by (metis prod.collapse)
  from recorded.poll_completed_sim [OF _ p] obtain tr' where
    tr': "poll_completed record_event (backend_of P) n (d_sm w) (d_backend w) (session_trace w) = (k, sm', b', tr')"
    "d_abnormal w' = None \<longrightarrow> session_trace w' = tr'" by blast
  have "sm_exec (backend_of P) (CmdPoll n) (d_sm w, d_backend w, session_trace w) = (sm', b', tr')" by (simp add: tr')
  then show ?thesis
    using tr'(2) gone.poll_completed_R [OF p]
    by (rule by_one_command) (simp_all add: poll_results_def p Let_def)
qed

lemma run_audio: "sm_run be (map AudioMoves as) (sm, b, tr) = (sm\<lparr>sm_recording_manager := audio_steps as (sm_recording_manager sm)\<rparr>, b, tr)"
  by (induction "as" arbitrary: sm) (simp_all add: sm_run_def audio_steps_def)

lemma preview_tick_commands: "by_commands P 0 w (preview_tick P now late w)"
proof -
  obtain lt' b' w' where t: "tick (daemon_pub P) (pf_round P) (backend_of P) now late (d_sm w) (d_lt w) (d_backend w) w = (lt', b', w')"
    by (metis prod.collapse)
  have sim: "d_abnormal w' = None \<longrightarrow> session_trace w' = session_trace w"
    and call: "b' = d_backend w \<or> \<not> transcription_busy (d_sm w) \<and> (\<exists>window req. b' = snd (transcribe_partial (backend_of P) (d_backend w) window req))"
    using recorded.tick_sim [OF _ t, of "session_trace w"] by simp_all
  have "d_sm w' = d_sm w" using quiet.tick_R [OF t] by (simp add: published_def same_settings_def)
  from call obtain cs :: "unit sm_command list" where "start_count cs = 0"
    "sm_run (backend_of P) cs (d_sm w, d_backend w, session_trace w) = (d_sm w, b', session_trace w)"
  proof
    assume "b' = d_backend w"
    then show ?thesis by (intro that [of "[]"]) (simp_all add: sm_run_def start_count_def)
  next
    assume "\<not> transcription_busy (d_sm w) \<and> (\<exists>window req. b' = snd (transcribe_partial (backend_of P) (d_backend w) window req))"
    then obtain window req where "\<not> transcription_busy (d_sm w)" "b' = snd (transcribe_partial (backend_of P) (d_backend w) window req)"
      by blast
    then show ?thesis by (intro that [of "[PreviewCalls window req]"]) (simp_all add: sm_run_def start_count_def)
  qed
  then have "start_count (cs @ map AudioMoves late) = 0"
    "sm_run (backend_of P) (cs @ map AudioMoves late) (d_sm w, d_backend w, session_trace w) =
       ((d_sm w)\<lparr>sm_recording_manager := audio_steps late (sm_recording_manager (d_sm w))\<rparr>, b', session_trace w)"
    using run_audio [of "backend_of P" late "d_sm w" b' "session_trace w"]
    by (simp_all add: start_count_def sm_run_def filter_empty_conv)
  then show ?thesis
    using sim gone.tick_R [OF t] \<open>d_sm w' = d_sm w\<close>
    unfolding by_commands_def by (auto simp: preview_tick_def t session_trace_def intro!: exI [of _ "cs @ map AudioMoves late"])
qed

section \<open>Commands of clients\<close>

lemma cancel_session_by_command:
  assumes s: "cancel_session (daemon_pub P) late (d_sm w) w = (r, sm', w1)"
  shows "by_commands P 0 w (w1\<lparr>d_sm := sm'\<rparr>)"
proof -
  from recorded.cancel_session_sim [OF _ s] obtain tr' where
    tr': "cancel_session record_event late (d_sm w) (session_trace w) = (r, sm', tr')" "d_abnormal w1 = None \<longrightarrow> session_trace w1 = tr'"
    by blast
  have exec: "sm_exec (backend_of P) (CmdCancel late) (d_sm w, d_backend w, session_trace w) = (sm', d_backend w, tr')" by (simp add: tr')
  have "d_backend w1 = d_backend w" using quiet.cancel_session_R [OF s] by (simp add: published_def same_process_def)
  then show ?thesis by (intro by_one_command [OF exec tr'(2) gone.cancel_session_R [OF s]]) simp_all
qed

lemma start_commands: "by_commands P 1 w (snd (handle_start_recording P env type w))"
proof -
  obtain r sm' w1 where s: "start_session (daemon_pub P) (le_open env) (le_now env) (le_now' env) (d_sm w) w = (r, sm', w1)"
    by (metis prod.collapse)
  from recorded.start_session_sim [OF _ s] obtain tr' where
    tr': "start_session record_event (le_open env) (le_now env) (le_now' env) (d_sm w) (session_trace w) = (r, sm', tr')"
    "d_abnormal w1 = None \<longrightarrow> session_trace w1 = tr'" by blast
  have exec: "sm_exec (backend_of P) (CmdStart (le_open env) (le_now env) (le_now' env)) (d_sm w, d_backend w, session_trace w) = (sm', d_backend w, tr')"
    by (simp add: tr')
  have "d_backend w1 = d_backend w" using quiet.start_session_R [OF s] by (simp add: published_def same_process_def)
  then have "by_commands P 1 w (w1\<lparr>d_sm := sm'\<rparr>)"
    by (intro by_one_command [OF exec tr'(2) gone.start_session_R [OF s]]) simp_all
  then show ?thesis by (cases r) (simp_all add: handle_start_recording_def s split: session_error.split)
qed

lemma stop_commands: "by_commands P 0 w (snd (handle_stop_recording P env type w))"
proof -
  obtain r sm' w1 where s: "stop_session (daemon_pub P) (le_late env) (le_now env) (le_now' env) (le_enqueued_at env) (d_sm w) w = (r, sm', w1)"
    by (metis prod.collapse)
  from recorded.stop_session_sim [OF _ s] obtain tr' where
    tr': "stop_session record_event (le_late env) (le_now env) (le_now' env) (le_enqueued_at env) (d_sm w) (session_trace w) = (r, sm', tr')"
    "r \<noteq> None \<longrightarrow> d_abnormal w1 = None \<longrightarrow> session_trace w1 = tr'" by blast
  have exec: "sm_exec (backend_of P) (CmdStop (le_late env) (le_now env) (le_now' env) (le_enqueued_at env))
      (d_sm w, d_backend w, session_trace w) = (sm', d_backend w, tr')" by (simp add: tr')
  have "d_backend w1 = d_backend w" using quiet.stop_session_R [OF s] by (simp add: published_def same_process_def)
  then have "by_commands P 0 w (w1\<lparr>d_sm := sm'\<rparr>)" if "r \<noteq> None"
    by (intro by_one_command [OF exec tr'(2) [rule_format, OF that, THEN impI] gone.stop_session_R [OF s]]) simp_all
  moreover have "by_commands P 0 w (w1\<lparr>d_sm := sm', d_abnormal := Some EmptyOptional\<rparr>)" by (simp add: by_commands_def)
  ultimately show ?thesis
    by (cases r) (simp_all add: handle_stop_recording_def s split: sum.split session_error.split)
qed

lemma cancel_session_commands: "by_commands P 0 w (snd (handle_cancel_session P env type w))"
proof -
  obtain r sm' w1 where s: "cancel_session (daemon_pub P) (le_late env) (d_sm w) w = (r, sm', w1)" by (metis prod.collapse)
  show ?thesis
    using cancel_session_by_command [OF s] by (cases r) (simp_all add: handle_cancel_session_def s split: session_error.split)
qed

lemma cancel_job_commands: "by_commands P 0 w (snd (handle_cancel_job P type line w))"
proof (cases "decode_cancel_job (pf_json P) line")
  case None
  then show ?thesis by (simp add: handle_cancel_job_def by_commands_same)
next
  case (Some sid)
  obtain r sm' w1 where s: "cancel_job (daemon_pub P) sid (d_sm w) w = (r, sm', w1)" by (metis prod.collapse)
  from recorded.cancel_job_sim [OF _ s] obtain tr' where
    tr': "cancel_job record_event sid (d_sm w) (session_trace w) = (r, sm', tr')" "d_abnormal w1 = None \<longrightarrow> session_trace w1 = tr'"
    by blast
  have exec: "sm_exec (backend_of P) (CmdCancelJob sid) (d_sm w, d_backend w, session_trace w) = (sm', d_backend w, tr')" by (simp add: tr')
  have "d_backend w1 = d_backend w" using quiet.cancel_job_R [OF s] by (simp add: published_def same_process_def)
  then have "by_commands P 0 w (w1\<lparr>d_sm := sm'\<rparr>)"
    by (intro by_one_command [OF exec tr'(2) gone.cancel_job_R [OF s]]) simp_all
  then show ?thesis by (simp add: handle_cancel_job_def Some s)
qed

lemma set_config_commands:
  assumes "d_bus w = main_bus" and "d_abnormal w = None"
  shows "by_commands P 0 w (snd (handle_set_config P env type line w))"
proof -
  obtain c e where d: "decode_set_config (pf_json P) line (cm_configuration (d_cm w)) = (c, e)" by fastforce
  obtain errors cm' trace w1 where u: "cm_update (daemon_pub P) (pf_toml P) (le_io env) c (d_cm w) (d_fs w) w = (errors, cm', trace, w1)"
    by (metis prod.collapse)
  let ?pub = "daemon_pub P (ConfigurationChanged c) w"
  have "w1 = w \<or> w1 = ?pub"
    using u by (auto simp: cm_update_def Let_def split: if_splits prod.splits option.splits)
  moreover have "by_commands P 0 w (?pub\<lparr>d_cm := cm', d_fs := last trace\<rparr>)"
  proof (rule by_one_command [where c = "CmdConfigure c" and ?w1.0 = ?pub])
    show "sm_exec (backend_of P) (CmdConfigure c) (d_sm w, d_backend w, session_trace w) =
        (sm_on_configuration_changed c (d_sm w), d_backend w, session_trace w)" by simp
    show "d_sm (?pub\<lparr>d_cm := cm', d_fs := last trace\<rparr>) = sm_on_configuration_changed c (d_sm w)"
      using configure_effect(1) [OF assms, of P c] by simp
    show "d_backend (?pub\<lparr>d_cm := cm', d_fs := last trace\<rparr>) = d_backend w"
      using daemon_pub_published [of False "ConfigurationChanged c" P w] by (simp add: published_def same_process_def)
  qed (simp_all add: assms(2) daemon_pub_trace)
  moreover have "by_commands P 0 w (w\<lparr>d_cm := cm', d_fs := last trace\<rparr>)" "by_commands P 0 w w"
    by (rule by_commands_same; simp)+
  ultimately show ?thesis
    by (cases e) (auto simp: handle_set_config_def d u Let_def)
qed

lemma handle_line_commands:
  assumes "world_ok P w" and "d_abnormal w = None"
  shows "by_commands P 1 w (snd (handle_line P env line w))"
proof -
  have "by_commands P 1 w w" by (rule by_commands_same) simp_all
  moreover have "d_bus w = main_bus" using assms(1) by (simp add: world_ok_def)
  ultimately show ?thesis
    using assms(2)
    by (simp add: handle_line_def start_commands by_commands_mono [OF stop_commands] by_commands_mono [OF cancel_job_commands]
        by_commands_mono [OF cancel_session_commands] by_commands_mono [OF set_config_commands] split: sum.split del: One_nat_def)
qed

lemma send_reply_commands: "by_commands P 0 w (send_reply c r w)"
  by (rule by_commands_same) (auto simp: send_reply_def split: option.splits)

lemma handle_message_commands:
  assumes "world_ok P w" and "d_abnormal w = None"
  shows "by_commands P 1 w (handle_message P client line w)"
proof -
  let ?w = "before_line P w"
  obtain r w1 where h: "handle_line P (pf_line P (d_lines w)) line ?w = (r, w1)" by fastforce
  have "by_commands P 0 w (w\<lparr>d_lines := Suc (d_lines w)\<rparr>)" by (rule by_commands_same) simp_all
  from by_commands_trans [OF this background_steps_commands] have before: "by_commands P 0 w ?w" by simp
  have "world_ok P ?w" "d_abnormal ?w = None"
    using before_line_world_ok [OF assms(1)] assms(2) by (simp_all add: before_line_abnormal)
  from handle_line_commands [OF this, of "pf_line P (d_lines w)" line] have "by_commands P 1 ?w w1" by (simp add: h)
  from by_commands_trans [OF by_commands_trans [OF before this] send_reply_commands]
  have 1: "by_commands P 1 w (send_reply client r w1)" by simp
  have "by_commands P 1 ?w (bridge_subscribe P client ?w)" "by_commands P 1 ?w (bridge_unsubscribe client ?w)"
    by (rule by_commands_same; simp add: bridge_subscribe_def bridge_unsubscribe_def)+
  note by_commands_trans [OF by_commands_trans [OF before this(1)] send_reply_commands]
    by_commands_trans [OF by_commands_trans [OF before this(2)] send_reply_commands]
  then have 2: "by_commands P 1 w (send_reply client x (bridge_subscribe P client ?w))"
    "by_commands P 1 w (send_reply client y (bridge_unsubscribe client ?w))" for x y by simp_all
  show ?thesis using 1 2 by (simp add: handle_message_def h Let_def)
qed

section \<open>The main loop\<close>

text \<open>Since \<open>w0\<close>, each line a client sent started at most one session.\<close>

definition history :: "('c, 'n) platform \<Rightarrow> 'c daemon \<Rightarrow> 'c daemon \<Rightarrow> bool" where
  "history P w0 w \<longleftrightarrow> d_lines w0 \<le> d_lines w \<and> by_commands P (d_lines w - d_lines w0) w0 w"

lemma history_refl: "history P w w"
  by (simp add: history_def by_commands_same)

lemma history_step:
  assumes "history P w0 w" and "by_commands P k w w'" and "d_lines w' = d_lines w + k"
  shows "history P w0 w'"
  using by_commands_trans [of P "d_lines w - d_lines w0" w0 w k w'] assms by (simp add: history_def)

lemma history_quiet: "history P w0 w \<Longrightarrow> by_commands P 0 w w' \<Longrightarrow> d_lines w' = d_lines w \<Longrightarrow> history P w0 w'"
  using history_step [of P w0 w 0 w'] by simp

lemma by_commands_server [simp]: "by_commands P k (w\<lparr>d_server := sv\<rparr>) w' = by_commands P k w w'"
  "by_commands P k w (w'\<lparr>d_server := sv\<rparr>) = by_commands P k w w'"
  by (simp_all add: by_commands_def session_trace_def)

lemma history_frame [simp]:
  "history P w0 (w\<lparr>d_server := sv\<rparr>) = history P w0 w" "history P w0 (w\<lparr>d_subscribed := cs\<rparr>) = history P w0 w"
  by (simp_all add: history_def by_commands_def session_trace_def)

lemma background_lines: "d_lines (background_steps P ms w) = d_lines w"
  using background_steps_effect [of w P ms] by (auto simp: background_effect_def)

lemma command_lines: "command_effect P w w' \<Longrightarrow> d_lines w' = d_lines w"
proof (induction rule: command_effect.induct)
  case (configured c w1 fs)
  have "published P False w w1" unfolding configured by (rule daemon_pub_published) simp
  then show ?case by (simp add: published_def same_process_def)
qed (simp_all add: published_def same_process_def)

lemma handle_message_lines: "d_lines (handle_message P client line w) = Suc (d_lines w)"
proof -
  let ?w = "before_line P w"
  obtain r w1 where h: "handle_line P (pf_line P (d_lines w)) line ?w = (r, w1)" by fastforce
  have "d_lines w1 = d_lines ?w" using command_lines [OF handle_line_command [of P ?w "pf_line P (d_lines w)" line]] h by simp
  then show ?thesis
    by (simp add: handle_message_def h send_reply_def bridge_subscribe_def bridge_unsubscribe_def background_lines Let_def split: option.split)
qed

interpretation ipc_history: server_world "on_line P" on_disconnect "\<lambda>w. world_ok P w \<and> history P w0 w" for P w0
proof
  fix fd :: client_id and l :: string and s :: "ipc_server \<times> 'a daemon"
  assume ok: "world_ok P (snd s) \<and> history P w0 (snd s)"
  let ?w = "snd s\<lparr>d_server := fst s\<rparr>"
  have "history P w0 (snd (on_line P fd l s))"
  proof (cases "d_abnormal (snd s) = None")
    case True
    have "by_commands P 1 ?w (handle_message P fd l ?w)"
      by (rule handle_message_commands) (use ok True in \<open>simp_all add: world_ok_server\<close>)
    then have "by_commands P 1 (snd s) (handle_message P fd l ?w)" by (simp only: by_commands_server)
    from history_step [OF conjunct2 [OF ok] this] have "history P w0 (handle_message P fd l ?w)"
      by (simp add: handle_message_lines)
    with True show ?thesis by (cases s) (simp add: on_line_def Let_def)
  next
    case False
    with ok show ?thesis by (auto simp: on_line_def split: prod.splits)
  qed
  then show "world_ok P (snd (on_line P fd l s)) \<and> history P w0 (snd (on_line P fd l s))"
    using ok ipc_world.line_world [of P s fd l] by simp
  have "history P w0 (snd (on_disconnect fd s))"
    using ok by (cases s) (simp add: on_disconnect_def bridge_unsubscribe_def)
  then show "world_ok P (snd (on_disconnect fd s)) \<and> history P w0 (snd (on_disconnect fd s))"
    using ok ipc_world.disconnect_world [of P s fd] by simp
qed

lemma poll_results_lines: "d_lines (poll_results P n w) = d_lines w"
proof -
  obtain k sm' b' w' where p: "poll_completed (daemon_pub P) (backend_of P) n (d_sm w) (d_backend w) w = (k, sm', b', w')"
    by (metis prod.collapse)
  from quiet.poll_completed_R [OF p] show ?thesis by (simp add: poll_results_def p published_def same_process_def)
qed

lemma preview_tick_lines: "d_lines (preview_tick P now late w) = d_lines w"
proof -
  obtain lt' b' w' where t: "tick (daemon_pub P) (pf_round P) (backend_of P) now late (d_sm w) (d_lt w) (d_backend w) w = (lt', b', w')"
    by (metis prod.collapse)
  from quiet.tick_R [OF t] show ?thesis by (simp add: preview_tick_def t published_def same_process_def)
qed

lemma history_rounds:
  "history P w0 w \<Longrightarrow> history P w0 (background_steps P ms w)"
  "history P w0 w \<Longrightarrow> history P w0 (poll_results P n w)"
  "history P w0 w \<Longrightarrow> history P w0 (preview_tick P now late w)"
  by (auto intro: history_quiet background_steps_commands poll_results_commands preview_tick_commands
      simp: background_lines poll_results_lines preview_tick_lines)

lemma history_poll:
  assumes "daemon_inv P w" and "history P w0 w"
  shows "history P w0 (service_poll P env w)"
proof -
  obtain sv w' where p: "poll_once env (on_line P) on_disconnect (d_server w, w) = (sv, w')" by fastforce
  then show ?thesis
    using ipc_history.poll_once_world [where P = P and ?w0.0 = w0 and s = "(d_server w, w)" and env = env] assms by (simp add: daemon_inv_def service_poll_def)
qed

lemma history_loop_step: "daemon_inv P w \<Longrightarrow> history P w0 w \<Longrightarrow> history P w0 (loop_step P it w)"
  by (simp add: loop_step_def history_rounds history_poll Let_def)

lemma history_run: "daemon_inv P w \<Longrightarrow> history P w0 w \<Longrightarrow> history P w0 (run_loop P its w)"
  unfolding run_loop_def by (induction its arbitrary: w) (simp_all add: daemon_inv_loop_step history_loop_step)

section \<open>From start to end\<close>

lemma session_trace_frame [simp]:
  "session_trace (logger P l m w) = session_trace w" "session_trace (w\<lparr>d_backend := b\<rparr>) = session_trace w"
  "session_trace (w\<lparr>d_sm := sm\<rparr>) = session_trace w" "session_trace (w\<lparr>d_server := sv\<rparr>) = session_trace w"
  by (simp_all add: session_trace_def logger_def)

lemma loggers_trace:
  "d_trace (fold (\<lambda>e. logger P l (f e)) es w) = d_trace w" "d_lines (fold (\<lambda>e. logger P l (f e)) es w) = d_lines w"
  by (induction es arbitrary: w) (simp_all add: logger_def)

text \<open>Starting up publishes at most that a model was loaded.\<close>

lemma load_configured_model_trace:
  assumes "d_abnormal (load_configured_model P bo c w) = None"
  shows "session_trace (load_configured_model P bo c w) = session_trace w"
proof (cases "find_model (list_available_models (bo_listing bo)) (selected_model c)")
  case None
  then show ?thesis by (simp add: load_configured_model_def)
next
  case (Some m)
  obtain r b w1 where l: "load_model (pf_whisper P) (daemon_pub P) (bo_exists bo) m (d_backend w) w = (r, b, w1)"
    by (metis prod.collapse)
  from recorded.load_model_sim [OF _ l, of "session_trace w"] have "d_abnormal w1 = None \<longrightarrow> session_trace w1 = session_trace w"
    by simp
  with assms Some l show ?thesis
    by (cases r) (auto simp: load_configured_model_def split: speech_error.splits)
qed

lemma boot_trace:
  assumes "d_abnormal (boot P bo) = None"
  shows "session_trace (boot P bo) = [] \<and> d_lines (boot P bo) = 0 \<and>
     d_sm (boot P bo) = new_session_manager new_recording_manager (cm_configuration (d_cm (boot P bo))) default_capacity"
proof -
  define w0 where "w0 = logger P Info ''Yoru Speech started'' (bare_process bo)"
  define w1 where "w1 = w0\<lparr>d_bus := log_domain_events (subscribe KErrorOccurred LogError (d_bus w0))\<rparr>"
  obtain errors cm trace where l: "cm_load (pf_toml P) (bo_io bo) (d_cm w1) (d_fs w1) = (errors, cm, trace)"
    by (metis prod.collapse)
  define w2 where "w2 = fold (\<lambda>e. logger P Warn (''config: '' @ ve_field e @ '': '' @ ve_message e)) errors
      (w1\<lparr>d_cm := cm, d_fs := last trace\<rparr>)"
  define w3 where "w3 = load_configured_model P bo (cm_configuration (d_cm w2)) w2"
  have boot: "boot P bo = construct_event_bridge (construct_auto_clipboard (construct_live_transcriber (construct_session_manager w3)))"
    by (simp only: boot_def Let_def w0_def [symmetric] w1_def [symmetric] l prod.case w2_def [symmetric] w3_def [symmetric])
  note constructs = construct_event_bridge_def construct_auto_clipboard_def construct_live_transcriber_def construct_session_manager_def
  have "d_abnormal w3 = None" using assms by (simp add: boot constructs)
  then have "session_trace w3 = session_trace w2" unfolding w3_def by (rule load_configured_model_trace)
  also have "\<dots> = []"
    unfolding session_trace_def w2_def loggers_trace by (simp add: w1_def w0_def bare_process_def logger_def)
  finally have "session_trace (boot P bo) = []" by (simp add: boot constructs session_trace_def)
  moreover have "d_lines w2 = 0"
    unfolding w2_def loggers_trace by (simp add: w1_def w0_def bare_process_def logger_def)
  moreover obtain w' b where "published P True w2 w'" "w3 = w'\<lparr>d_backend := b\<rparr>"
    using load_configured_model_published [of P w2 bo] unfolding w3_def by blast
  ultimately show ?thesis by (simp add: boot constructs published_def same_process_def)
qed

text \<open>The service starts as the session manager does, with the configuration that was loaded.\<close>

abbreviation booted_service :: "('c, 'n) platform \<Rightarrow> boot_env \<Rightarrow> (unit, 'c whisper_backend) service" where
  "booted_service P bo \<equiv>
     initial_service (cm_configuration (d_cm (boot P bo))) default_capacity (d_backend (boot P bo))"

lemma history_from_boot:
  assumes "history P (boot P bo) w" and "d_abnormal w = None"
  shows "\<exists>cs. start_count cs \<le> d_lines w \<and>
     sm_run (backend_of P) cs (booted_service P bo) = (d_sm w, d_backend w, session_trace w)"
proof -
  have "d_abnormal (boot P bo) = None" using assms by (simp add: history_def by_commands_def)
  from boot_trace [OF this] assms show ?thesis
    by (auto simp: history_def by_commands_def initial_service_def)
qed

lemma history_start_up:
  assumes "start_up P bo = (ok, w)"
  shows "history P (boot P bo) w"
proof -
  have "history P (boot P bo) (logger P l m ((boot P bo)\<lparr>d_server := sv\<rparr>))" for l m sv
    by (rule history_quiet [OF history_refl by_commands_same]) (simp_all add: logger_def)
  moreover have "history P w0 (w\<lparr>d_sm := sm_set_activity_callback cb (d_sm w)\<rparr>)" if "history P w0 w" for w0 w cb
  proof (rule history_quiet [OF that])
    show "by_commands P 0 w (w\<lparr>d_sm := sm_set_activity_callback cb (d_sm w)\<rparr>)"
      by (rule by_one_command [where c = "CmdCallback cb" and ?w1.0 = w and tr' = "session_trace w", OF _ _ _ refl]) simp_all
  qed simp
  ultimately show ?thesis
    using assms
    by (cases "sv_start (bo_start bo) (d_server (boot P bo))")
       (force simp: start_up_def service_start_def split: option.splits ipc_error.splits)
qed

lemma history_running:
  assumes "start_up P bo = (True, w0)"
  shows "history P (boot P bo) (run_loop P its w0)"
  by (rule history_run [OF daemon_inv_start_up [OF assms] history_start_up [OF assms]])

lemma destroy_trace: "d_trace (destroy P n w) = d_trace w"
  by (simp add: destroy_def service_stop_def Let_def split: prod.split)

lemma history_shut_down:
  assumes "history P w0 w"
  shows "history P w0 (shut_down P sp w)"
proof -
  obtain w1 r sm1 w2 w3 dropped sm4 b4 w4 w5 w6 where w1_def: "w1 = logger P Info ''shutting down'' w"
    and c: "cancel_session (daemon_pub P) (sp_late sp) (d_sm w1) w1 = (r, sm1, w2)"
    and w3_def: "w3 = background_steps P (sp_background sp) (w2\<lparr>d_sm := sm1\<rparr>)"
    and s: "sm_shutdown (daemon_pub P) (backend_of P) (sp_before_abort sp) (d_sm w3) (d_backend w3) w3 = (dropped, sm4, b4, w4)"
    and w5_def: "w5 = w4\<lparr>d_sm := sm_set_activity_callback None sm4, d_backend := b4\<rparr>"
    and w6: "w6 = w5 \<or> (\<exists>m. w6 = logger P Warn m w5)"
    and sd: "shut_down P sp w = service_stop (poll_results P (sp_between_drains sp) w6)"
    by (rule shut_down_phases)
  have "history P w0 w1" using assms by (rule history_quiet [OF _ by_commands_same]) (simp_all add: w1_def logger_def)
  then have "history P w0 (w2\<lparr>d_sm := sm1\<rparr>)"
    by (rule history_quiet [OF _ cancel_session_by_command [OF c]])
       (use quiet.cancel_session_R [OF c] in \<open>simp add: published_def same_process_def\<close>)
  then have "history P w0 w3" unfolding w3_def by (rule history_rounds)
  from recorded.sm_shutdown_sim [OF _ s] obtain tr' where
    tr': "sm_shutdown record_event (backend_of P) (sp_before_abort sp) (d_sm w3) (d_backend w3) (session_trace w3) = (dropped, sm4, b4, tr')"
    "d_abnormal w4 = None \<longrightarrow> session_trace w4 = tr'" by blast
  have exec: "sm_exec (backend_of P) (CmdShutdown (sp_before_abort sp)) (d_sm w3, d_backend w3, session_trace w3) = (sm4, b4, tr')"
    by (simp add: tr')
  have "by_commands P 0 w3 (w4\<lparr>d_sm := sm4, d_backend := b4\<rparr>)"
    by (rule by_one_command [OF exec tr'(2) gone.sm_shutdown_R [OF s]]) simp_all
  moreover have "by_commands P 0 (w4\<lparr>d_sm := sm4, d_backend := b4\<rparr>) w5"
    by (rule by_one_command [where c = "CmdCallback None" and ?w1.0 = w4 and tr' = "session_trace w4"])
       (simp_all add: w5_def)
  moreover have "by_commands P 0 w5 w6" by (rule by_commands_same) (use w6 in \<open>auto simp: logger_def\<close>)
  ultimately have "by_commands P 0 w3 w6" by (metis add_0 by_commands_trans)
  moreover have "d_lines w6 = d_lines w3"
    using quiet.sm_shutdown_R [OF s] w6 by (auto simp: w5_def logger_def published_def same_process_def)
  ultimately have "history P w0 w6" using \<open>history P w0 w3\<close> history_quiet by blast
  then show ?thesis by (simp add: sd service_stop_def history_rounds)
qed

end
