(* ===== verification/Daemon_Preview.thy ===== *)
theory Daemon_Preview
  imports Daemon_Safety
begin

text \<open>
  The commit point of the live preview in the running process. The preview remembers how many samples of the recording
  it has settled (\<^verbatim>\<open>committed_sample_count_\<close>) and reads the recording from there; the recording belongs to another
  component, which empties it when a session starts. What keeps the two together is the event
  \<^verbatim>\<open>RecordingStarted\<close>, whose handler resets the preview. The invariant \<open>commit_ok\<close> is carried through
  every step of the main loop, with the other threads in between.
\<close>

section \<open>Publishing never moves the commit point forward\<close>

abbreviation commit_point :: "'c daemon \<Rightarrow> nat" where
  "commit_point w \<equiv> lt_committed_sample_count (d_lt w)"

lemma handler_commit_point:
  "\<not> (h = ClipboardCopy \<and> is_completed e) \<Longrightarrow> commit_point (handler_effect pub P h e w) \<le> commit_point w"
  by (cases h) (auto simp: lt_reset_def lt_on_configuration_changed_def split: event.split)

interpretation nested_preview: handler_contract d_bus kind_of "run_handler (publish_nested 0 P) P"
  "\<lambda>e. \<not> is_completed e" "\<lambda>w w'. commit_point w' \<le> commit_point w" for P
  by unfold_locales (auto simp: run_handler_fst intro: handler_commit_point le_trans)

lemma nested_commit_point: "commit_point (publish_nested (Suc 0) P (ErrorOccurred s c m) w) \<le> commit_point w"
  using nested_preview.invoke_all_inv [of "ErrorOccurred s c m" P _ "note_event (ErrorOccurred s c m) w"]
  by (simp add: publish_nested_Suc)

lemma clipboard_copy_commit_point: "commit_point (clipboard_copy (publish_nested (Suc 0) P) P sid t w) \<le> commit_point w"
  using nested_commit_point [of P "Some sid" "''clipboard''" _ "w\<lparr>d_copies := Suc (d_copies w)\<rparr>"]
  by (auto simp: clipboard_copy_def ac_on_transcription_completed_def Let_def split: option.splits clipboard_error.splits)

interpretation outer_preview: handler_contract d_bus kind_of "run_handler (publish_nested (Suc 0) P) P"
  "\<lambda>e. True" "\<lambda>w w'. commit_point w' \<le> commit_point w" for P
proof
  fix e :: event and w :: "'a daemon" and h :: handler
  show "commit_point (fst (run_handler (publish_nested (Suc 0) P) P h e w)) \<le> commit_point w"
  proof (cases "h = ClipboardCopy \<and> is_completed e")
    case True
    then show ?thesis by (cases e) (simp_all add: run_handler_fst clipboard_copy_commit_point)
  next
    case False
    then show ?thesis by (simp add: run_handler_fst handler_commit_point)
  qed
qed (auto intro: le_trans)

lemma publish_commit_point: "commit_point (daemon_pub P e w) \<le> commit_point w"
  using outer_preview.invoke_all_inv [where e = e and P = P and w = "note_event e w"]
  by (simp add: daemon_pub_def numeral_2_eq_2 publish_nested_Suc)

interpretation settled: configuration_publisher "daemon_pub P" "\<lambda>w w'. commit_point w' \<le> commit_point w" for P
  by unfold_locales (auto intro: publish_commit_point le_trans)

text \<open>A recording that starts resets the preview.\<close>

lemma started_resets:
  assumes "d_bus w = main_bus" and "d_abnormal w = None"
  shows "commit_point (daemon_pub P (RecordingStarted sid) w) = 0"
proof -
  have reset: "handler_effect pub P PreviewReset e v = v\<lparr>d_lt := lt_reset (d_lt v)\<rparr>" for pub e and v :: "'a daemon" by simp
  show ?thesis
    using assms(2)
    by (simp only: daemon_pub_main [OF assms] kind_of.simps main_subscribers invoke_run_Cons invoke_run_last
        configured_handlers reset configured_abnormal logger_frame broadcast_frame note_event_frame)
       (simp add: lt_reset_def)
qed

section \<open>The recording while it is being made\<close>

definition captured :: "'cb session_manager \<Rightarrow> nat" where
  "captured sm = length (rm_samples (sm_recording_manager sm))"

text \<open>A recording that is in progress afterwards was in progress before, and has not lost anything.\<close>

definition still_recording :: "'cb session_manager \<Rightarrow> 'cb session_manager \<Rightarrow> bool" where
  "still_recording sm sm' \<longleftrightarrow> (sm_state sm' = Recording \<longrightarrow> sm_state sm = Recording \<and> captured sm \<le> captured sm')"

lemma stop_session_ends: "stop_session pub late now now' enq sm w = (r, sm', w') \<Longrightarrow> still_recording sm sm'"
  by (auto simp: stop_session_def fail_def still_recording_def Let_def
      split: if_splits option.splits sum.splits prod.splits recording_error.splits)

lemma cancel_session_ends: "cancel_session pub late sm w = (r, sm', w') \<Longrightarrow> still_recording sm sm'"
  by (auto simp: cancel_session_def still_recording_def Let_def split: if_splits prod.splits)

lemma cancel_job_records: "cancel_job pub sid sm w = (r, sm', w') \<Longrightarrow> still_recording sm sm'"
  by (auto simp: cancel_job_def still_recording_def captured_def split: prod.splits bool.splits)

lemma publish_results_records: "fold (publish_result pub) rs (sm, w) = (sm', w') \<Longrightarrow>
  sm_state sm' = sm_state sm \<and> captured sm' = captured sm"
proof (induction rs arbitrary: sm w)
  case (Cons r rs)
  obtain sm1 w1 where p: "publish_result pub r (sm, w) = (sm1, w1)" by (cases "publish_result pub r (sm, w)")
  then have "sm_state sm1 = sm_state sm \<and> captured sm1 = captured sm"
    by (auto simp: publish_result_def captured_def split: sum.splits speech_error.splits)
  with Cons.IH [of sm1 w1] Cons.prems p show ?case by simp
qed simp

lemma poll_completed_state:
  "poll_completed pub be n sm b w = (k, sm', b', w') \<Longrightarrow> sm_state sm' = sm_state sm \<and> captured sm' = captured sm"
  by (auto simp: poll_completed_def Let_def captured_def split: prod.splits dest!: publish_results_records)

lemma poll_completed_records: "poll_completed pub be n sm b w = (k, sm', b', w') \<Longrightarrow> still_recording sm sm'"
  by (simp add: still_recording_def poll_completed_state)

lemma start_session_records:
  assumes "start_session pub env now now' sm w = (r, sm', w')"
  shows "still_recording sm sm' \<or> (\<exists>sid. w' = pub (RecordingStarted sid) w)"
  using assms
  by (auto simp: start_session_def still_recording_def rm_start_def Let_def
      split: if_splits option.splits prod.splits recording_error.splits capture_error.splits)

section \<open>The invariant\<close>

definition commit_ok :: "'c daemon \<Rightarrow> bool" where
  "commit_ok w \<longleftrightarrow> (sm_state (d_sm w) = Recording \<longrightarrow> commit_point w \<le> captured (d_sm w))"

lemma commit_ok_frame [simp]:
  "commit_ok (w\<lparr>d_server := sv\<rparr>) = commit_ok w" "commit_ok (w\<lparr>d_backend := b\<rparr>) = commit_ok w" "commit_ok (w\<lparr>d_fs := fs\<rparr>) = commit_ok w"
  "commit_ok (w\<lparr>d_cm := cm\<rparr>) = commit_ok w" "commit_ok (w\<lparr>d_lines := n\<rparr>) = commit_ok w" "commit_ok (w\<lparr>d_subscribed := cs\<rparr>) = commit_ok w"
  "commit_ok (w\<lparr>d_abnormal := a\<rparr>) = commit_ok w" "commit_ok (logger P l m w) = commit_ok w"
  by (simp_all add: commit_ok_def)

lemma commit_ok_kept:
  assumes "commit_ok w" and "commit_point w' \<le> commit_point w" and "still_recording (d_sm w) sm'"
  shows "commit_ok (w'\<lparr>d_sm := sm'\<rparr>)"
  using assms by (auto simp: commit_ok_def still_recording_def)

lemma audio_steps_captured: "captured sm \<le> captured (sm\<lparr>sm_recording_manager := audio_steps as (sm_recording_manager sm)\<rparr>)"
  by (simp add: captured_def prefix_length_le [OF audio_steps_grow])

lemma commit_ok_background: "commit_ok w \<Longrightarrow> commit_ok (background_steps P ms w)"
  unfolding background_steps_def
proof (induction ms arbitrary: w)
  case (Cons m ms)
  have "commit_ok (background_step P m w)"
  proof (cases m)
    case WorkerStep
    obtain q b wk where "daemon_worker_step P w =
        w\<lparr>d_sm := (d_sm w)\<lparr>sm_queue := q\<rparr>, d_backend := b, d_server := (d_server w)\<lparr>sv_wake_pending := wk\<rparr>\<rparr>"
      using daemon_worker_step_form by blast
    with Cons.prems WorkerStep show ?thesis by (simp add: commit_ok_def captured_def)
  next
    case (AudioStep a)
    have "captured (d_sm w) \<le> captured ((d_sm w)\<lparr>sm_recording_manager := audio_step_exec a (sm_recording_manager (d_sm w))\<rparr>)"
      using audio_steps_captured [of "d_sm w" "[a]"] by (simp add: audio_steps_def)
    with Cons.prems AudioStep show ?thesis by (auto simp: commit_ok_def)
  qed
  from Cons.IH [OF this] show ?case by simp
qed simp

lemma commit_ok_start:
  assumes "commit_ok w" and "d_bus w = main_bus" and "d_abnormal w = None"
  shows "commit_ok (snd (handle_start_recording P env type w))"
proof -
  obtain r sm' w1 where s: "start_session (daemon_pub P) (le_open env) (le_now env) (le_now' env) (d_sm w) w = (r, sm', w1)"
    by (metis prod.collapse)
  have "commit_ok (w1\<lparr>d_sm := sm'\<rparr>)"
    using start_session_records [OF s]
  proof
    assume "still_recording (d_sm w) sm'"
    then show ?thesis by (rule commit_ok_kept [OF assms(1) settled.start_session_R [OF s]])
  next
    assume "\<exists>sid. w1 = daemon_pub P (RecordingStarted sid) w"
    then show ?thesis by (auto simp: commit_ok_def started_resets [OF assms(2,3)])
  qed
  then show ?thesis by (cases r) (simp_all add: handle_start_recording_def s split: session_error.split)
qed

lemma commit_ok_stop: "commit_ok w \<Longrightarrow> commit_ok (snd (handle_stop_recording P env type w))"
proof -
  assume ok: "commit_ok w"
  obtain r sm' w1 where s: "stop_session (daemon_pub P) (le_late env) (le_now env) (le_now' env) (le_enqueued_at env) (d_sm w) w = (r, sm', w1)"
    by (metis prod.collapse)
  from commit_ok_kept [OF ok settled.stop_session_R [OF s] stop_session_ends [OF s]] show ?thesis
    by (cases r) (simp_all add: handle_stop_recording_def s split: sum.split session_error.split)
qed

lemma commit_ok_cancel_job: "commit_ok w \<Longrightarrow> commit_ok (snd (handle_cancel_job P type line w))"
proof (cases "decode_cancel_job (pf_json P) line")
  case (Some sid)
  assume ok: "commit_ok w"
  obtain r sm' w1 where s: "cancel_job (daemon_pub P) sid (d_sm w) w = (r, sm', w1)" by (metis prod.collapse)
  from commit_ok_kept [OF ok settled.cancel_job_R [OF s] cancel_job_records [OF s]] show ?thesis
    by (simp add: handle_cancel_job_def Some s)
qed (simp add: handle_cancel_job_def)

lemma commit_ok_cancel_session: "commit_ok w \<Longrightarrow> commit_ok (snd (handle_cancel_session P env type w))"
proof -
  assume ok: "commit_ok w"
  obtain r sm' w1 where s: "cancel_session (daemon_pub P) (le_late env) (d_sm w) w = (r, sm', w1)" by (metis prod.collapse)
  from commit_ok_kept [OF ok settled.cancel_session_R [OF s] cancel_session_ends [OF s]] show ?thesis
    by (cases r) (simp_all add: handle_cancel_session_def s split: session_error.split)
qed

lemma commit_ok_set_config:
  assumes "commit_ok w" and "d_bus w = main_bus" and "d_abnormal w = None"
  shows "commit_ok (snd (handle_set_config P env type line w))"
proof -
  obtain c e where d: "decode_set_config (pf_json P) line (cm_configuration (d_cm w)) = (c, e)" by fastforce
  obtain errors cm' trace w1 where u: "cm_update (daemon_pub P) (pf_toml P) (le_io env) c (d_cm w) (d_fs w) w = (errors, cm', trace, w1)"
    by (metis prod.collapse)
  then have "w1 = w \<or> w1 = daemon_pub P (ConfigurationChanged c) w"
    by (auto simp: cm_update_def Let_def split: if_splits prod.splits option.splits)
  moreover have "commit_ok (daemon_pub P (ConfigurationChanged c) w)"
    using assms(1) configure_effect [OF assms(2,3), of P c]
    by (simp add: commit_ok_def captured_def sm_on_configuration_changed_def lt_on_configuration_changed_def)
  ultimately have "commit_ok w1" using assms(1) by auto
  with assms(1) show ?thesis by (cases e) (simp_all add: handle_set_config_def d u Let_def)
qed

lemma commit_ok_message:
  assumes "commit_ok w" and "d_bus w = main_bus" and "d_abnormal w = None"
  shows "commit_ok (handle_message P c line w)"
proof -
  let ?w = "before_line P w"
  have w: "commit_ok ?w" "d_bus ?w = main_bus" "d_abnormal ?w = None"
    using assms commit_ok_background [of "w\<lparr>d_lines := Suc (d_lines w)\<rparr>"] before_line_clients [of w P] before_line_abnormal [of P w]
    by (simp_all add: same_clients_def)
  have reply: "commit_ok (send_reply c r v) = commit_ok v" for r and v :: "'a daemon"
    by (simp add: send_reply_def split: option.split)
  have "commit_ok (bridge_subscribe P c ?w)" "commit_ok (bridge_unsubscribe c ?w)"
    using w(1) by (simp_all add: bridge_subscribe_def bridge_unsubscribe_def)
  moreover have "commit_ok (snd (handle_line P env line ?w))" for env
    using w by (simp add: handle_line_def commit_ok_start commit_ok_stop commit_ok_cancel_job commit_ok_cancel_session
        commit_ok_set_config split: sum.split)
  ultimately show ?thesis by (simp add: handle_message_def reply Let_def split: prod.split) (metis snd_conv)
qed

interpretation preview_world: server_world "on_line P" on_disconnect "\<lambda>w. world_ok P w \<and> commit_ok w" for P
proof
  fix fd :: client_id and l :: string and s :: "ipc_server \<times> 'a daemon"
  assume ok: "world_ok P (snd s) \<and> commit_ok (snd s)"
  then have "world_ok P (snd (on_line P fd l s))" "world_ok P (snd (on_disconnect fd s))"
    using ipc_world.line_world ipc_world.disconnect_world by blast+
  moreover have "commit_ok (snd (on_line P fd l s))"
    using ok commit_ok_message [of "snd s\<lparr>d_server := fst s\<rparr>" P fd l]
    by (auto simp: on_line_def world_ok_def Let_def split: prod.splits)
  moreover have "commit_ok (snd (on_disconnect fd s))"
    using ok by (auto simp: on_disconnect_def bridge_unsubscribe_def split: prod.splits)
  ultimately show "world_ok P (snd (on_line P fd l s)) \<and> commit_ok (snd (on_line P fd l s))"
    "world_ok P (snd (on_disconnect fd s)) \<and> commit_ok (snd (on_disconnect fd s))" by simp_all
qed

section \<open>The main loop\<close>

lemma commit_ok_poll:
  assumes "daemon_inv P w" and "commit_ok w"
  shows "commit_ok (service_poll P env w)"
proof -
  obtain sv w' where p: "poll_once env (on_line P) on_disconnect (d_server w, w) = (sv, w')" by fastforce
  then show ?thesis
    using preview_world.poll_once_world [of P "(d_server w, w)" env] assms by (simp add: daemon_inv_def service_poll_def)
qed

lemma commit_ok_results: "commit_ok w \<Longrightarrow> commit_ok (poll_results P n w)"
proof -
  assume ok: "commit_ok w"
  obtain k sm' b' w' where p: "poll_completed (daemon_pub P) (backend_of P) n (d_sm w) (d_backend w) w = (k, sm', b', w')"
    by (metis prod.collapse)
  from commit_ok_kept [OF ok settled.poll_completed_R [OF p] poll_completed_records [OF p]] show ?thesis
    by (simp add: poll_results_def p)
qed

lemma preview_tick_effect:
  assumes "tick (daemon_pub P) (pf_round P) (backend_of P) now late (d_sm w) (d_lt w) (d_backend w) w = (lt', b', w')"
  shows "d_lt (preview_tick P now late w) = lt'"
    and "d_sm (preview_tick P now late w) = (d_sm w)\<lparr>sm_recording_manager := audio_steps late (sm_recording_manager (d_sm w))\<rparr>"
  using quiet.tick_R [OF assms] by (simp_all add: preview_tick_def assms published_def same_settings_def)

lemma commit_ok_tick: "commit_ok w \<Longrightarrow> commit_ok (preview_tick P now late w)"
proof -
  assume ok: "commit_ok w"
  obtain lt' b' w' where t: "tick (daemon_pub P) (pf_round P) (backend_of P) now late (d_sm w) (d_lt w) (d_backend w) w = (lt', b', w')"
    by (metis prod.collapse)
  from tick_commit_point [OF t] ok show ?thesis
    unfolding commit_ok_def captured_def preview_tick_effect [OF t] by simp
qed

text \<open>Neither the results nor the preview end or start a recording.\<close>

lemma round_keeps_state:
  "sm_state (d_sm (poll_results P n w)) = sm_state (d_sm w)" "sm_state (d_sm (preview_tick P now late w)) = sm_state (d_sm w)"
proof -
  obtain k sm' b' w' where p: "poll_completed (daemon_pub P) (backend_of P) n (d_sm w) (d_backend w) w = (k, sm', b', w')"
    by (metis prod.collapse)
  then show "sm_state (d_sm (poll_results P n w)) = sm_state (d_sm w)" using poll_completed_state [OF p] by (simp add: poll_results_def)
  obtain lt' b' w' where t: "tick (daemon_pub P) (pf_round P) (backend_of P) now late (d_sm w) (d_lt w) (d_backend w) w = (lt', b', w')"
    by (metis prod.collapse)
  show "sm_state (d_sm (preview_tick P now late w)) = sm_state (d_sm w)" by (simp add: preview_tick_effect [OF t])
qed

lemma commit_ok_run: "daemon_inv P w \<Longrightarrow> commit_ok w \<Longrightarrow> commit_ok (run_loop P its w)"
  unfolding run_loop_def
proof (induction its arbitrary: w)
  case (Cons it its)
  have "commit_ok (loop_step P it w)"
    using Cons.prems by (simp add: loop_step_def Let_def commit_ok_background commit_ok_tick commit_ok_results commit_ok_poll)
  with Cons.IH [OF daemon_inv_loop_step [OF Cons.prems(1)]] show ?case by simp
qed simp

end
