(* ===== verification/Dictation_Demo.thy ===== *)
theory Dictation_Demo
  imports Daemon_Demo Daemon_History Daemon_Preview
begin

text \<open>
  A concrete run of the whole process, for the witnesses of the theorems about it: a client connects,
  asks for a recording, and the daemon is told to stop while it records. Nobody subscribes to events, so
  publishing disturbs nothing but the log and the preview (\<open>unheard\<close>).
\<close>

section \<open>The platform\<close>

text \<open>A protocol of one request: \<^verbatim>\<open>s\<close> stands for the message that starts a recording.\<close>

definition one_request :: json_lib where
  "one_request =
     \<lparr>json_parse = (\<lambda>line. if line = ''s'' then Some (JObject [(''type'', JString kStartRecording)]) else None),
      json_dump = (\<lambda>j. Some ''r'')\<rparr>"

definition dictation_platform :: "(nat, string + bool) platform" where
  "dictation_platform = working_platform\<lparr>pf_json := one_request\<rparr>"

definition start_iteration :: iteration where
  "start_iteration =
     demo_iteration\<lparr>it_poll := Some \<lparr>pe_wake = False, pe_accepts = [], pe_reads = [(7, ReadData (''s'' @ [CHR 0x0A]))]\<rparr>\<rparr>"

section \<open>Publishing to nobody\<close>

definition unheard :: "nat daemon \<Rightarrow> bool" where
  "unheard w \<longleftrightarrow> d_bus w = main_bus \<and> d_abnormal w = None \<and> d_subscribed w = [] \<and> clipboard_works dictation_platform w"

lemma unheard_frame [simp]:
  "unheard (w\<lparr>d_sm := sm\<rparr>) = unheard w" "unheard (w\<lparr>d_backend := b\<rparr>) = unheard w" "unheard (w\<lparr>d_lt := lt\<rparr>) = unheard w"
  "unheard (w\<lparr>d_server := sv\<rparr>) = unheard w" "unheard (w\<lparr>d_lines := n\<rparr>) = unheard w" "unheard (logger P l m w) = unheard w"
  by (simp_all add: unheard_def clipboard_works_def)

definition undisturbed :: "nat daemon \<Rightarrow> nat daemon \<Rightarrow> bool" where
  "undisturbed w w' \<longleftrightarrow> (unheard w \<longrightarrow> unheard w') \<and> set (session_trace w) \<subseteq> set (session_trace w')"

lemma publish_unheard:
  assumes "unheard w" and "\<not> about_configuration e"
  shows "unheard (daemon_pub dictation_platform e w)"
proof -
  have "encode_event (pf_json dictation_platform) e = Some ''r''"
    by (simp add: encode_event_def dictation_platform_def one_request_def)
  from publish_sends [OF _ _ _ assms(2) this, of w] assms(1) show ?thesis
    by (simp add: unheard_def clipboard_works_def)
qed

interpretation nobody: publisher_contract "daemon_pub dictation_platform" undisturbed
  by unfold_locales (auto simp: undisturbed_def publish_unheard daemon_pub_trace)

lemmas undisturbed_trans [trans] = nobody.R_trans

lemma undisturbed_update [simp]:
  "undisturbed w (w'\<lparr>d_sm := sm\<rparr>) = undisturbed w w'" "undisturbed w (w'\<lparr>d_backend := b\<rparr>) = undisturbed w w'"
  "undisturbed w (w'\<lparr>d_lt := lt\<rparr>) = undisturbed w w'" "undisturbed w (w'\<lparr>d_server := sv\<rparr>) = undisturbed w w'"
  "undisturbed w (logger P l m w') = undisturbed w w'"
  by (simp_all add: undisturbed_def session_trace_def logger_def unheard_def clipboard_works_def)

lemma undisturbed_results: "undisturbed w (poll_results dictation_platform n w)"
proof -
  obtain k sm' b' w' where p: "poll_completed (daemon_pub dictation_platform) (backend_of dictation_platform) n (d_sm w) (d_backend w) w = (k, sm', b', w')"
    by (metis prod.collapse)
  from nobody.poll_completed_R [OF p] show ?thesis by (simp add: poll_results_def p)
qed

lemma undisturbed_tick: "undisturbed w (preview_tick dictation_platform now late w)"
proof -
  obtain lt' b' w' where t: "tick (daemon_pub dictation_platform) (pf_round dictation_platform) (backend_of dictation_platform) now late (d_sm w) (d_lt w) (d_backend w) w = (lt', b', w')"
    by (metis prod.collapse)
  from nobody.tick_R [OF t] show ?thesis by (simp add: preview_tick_def t)
qed

lemma undisturbed_shut_down: "undisturbed w (shut_down dictation_platform demo_stop w)"
proof -
  obtain w0 r sm1 w1 w2 dropped sm3 b3 w3 w4 w5 where w0: "w0 = logger dictation_platform Info ''shutting down'' w"
    and c: "cancel_session (daemon_pub dictation_platform) (sp_late demo_stop) (d_sm w0) w0 = (r, sm1, w1)"
    and w2: "w2 = background_steps dictation_platform (sp_background demo_stop) (w1\<lparr>d_sm := sm1\<rparr>)"
    and s: "sm_shutdown (daemon_pub dictation_platform) (backend_of dictation_platform) (sp_before_abort demo_stop)
      (d_sm w2) (d_backend w2) w2 = (dropped, sm3, b3, w3)"
    and w4: "w4 = w3\<lparr>d_sm := sm_set_activity_callback None sm3, d_backend := b3\<rparr>"
    and w5: "w5 = w4 \<or> (\<exists>m. w5 = logger dictation_platform Warn m w4)"
    and sd: "shut_down dictation_platform demo_stop w = service_stop (poll_results dictation_platform (sp_between_drains demo_stop) w5)"
    by (rule shut_down_phases)
  have w2: "w2 = w1\<lparr>d_sm := sm1\<rparr>" by (simp add: w2 demo_stop_def background_steps_def)
  have "undisturbed w w0" by (simp add: w0 nobody.R_refl)
  also have "undisturbed w0 w2" using nobody.cancel_session_R [OF c] by (simp add: w2)
  also have "undisturbed w2 w5" using nobody.sm_shutdown_R [OF s] w5 by (auto simp: w4)
  also have "undisturbed w5 (poll_results dictation_platform (sp_between_drains demo_stop) w5)" by (rule undisturbed_results)
  finally show ?thesis by (simp add: sd service_stop_def)
qed

section \<open>The run\<close>

lemma started_anywhere:
  "\<exists>w. start_up P demo_boot = (True, w) \<and> d_abnormal w = None \<and> d_subscribed w = [] \<and> d_lines w = 0 \<and>
     d_server w = (new_ipc_server ''/tmp/yoru-speech.sock'' []) \<lparr>sv_listening := True, sv_wake_open := True, sv_socket_file := True\<rparr> \<and>
     (\<exists>c. d_sm w = sm_set_activity_callback (Some ()) (new_session_manager new_recording_manager c default_capacity)) \<and>
     session_trace w = []"
proof -
  have "bo_listing demo_boot = None" by (simp add: demo_boot_def)
  note b = boot_without_model [OF this, of P]
  have s: "sv_start (bo_start demo_boot) (d_server (boot P demo_boot)) = (None, (new_ipc_server ''/tmp/yoru-speech.sock'' [])
     \<lparr>sv_listening := True, sv_wake_open := True, sv_socket_file := True\<rparr>)"
    unfolding b(1) by (simp add: sv_start_def demo_boot_def default_socket_path_def new_ipc_server_def kSunPathSize_def is_socket_live_def)
  show ?thesis
    using b(2-4) boot_trace [OF b(2)] by (auto simp: start_up_def service_start_def s) (simp add: logger_def)
qed

definition dictation_started :: "nat daemon" where
  "dictation_started = snd (start_up dictation_platform demo_boot)"

definition dictation_running :: "nat daemon" where
  "dictation_running = run_loop dictation_platform [demo_iteration, start_iteration] dictation_started"

lemma dictation_started_facts:
  "start_up dictation_platform demo_boot = (True, dictation_started)" "unheard dictation_started" "d_lines dictation_started = 0"
  "d_server dictation_started = (new_ipc_server ''/tmp/yoru-speech.sock'' []) \<lparr>sv_listening := True, sv_wake_open := True, sv_socket_file := True\<rparr>"
  "\<exists>c. d_sm dictation_started = sm_set_activity_callback (Some ()) (new_session_manager new_recording_manager c default_capacity)"
  "session_trace dictation_started = []"
proof -
  obtain w where w: "start_up dictation_platform demo_boot = (True, w)" "d_abnormal w = None" "d_subscribed w = []" "d_lines w = 0"
    "d_server w = (new_ipc_server ''/tmp/yoru-speech.sock'' []) \<lparr>sv_listening := True, sv_wake_open := True, sv_socket_file := True\<rparr>"
    "\<exists>c. d_sm w = sm_set_activity_callback (Some ()) (new_session_manager new_recording_manager c default_capacity)" "session_trace w = []"
    using started_anywhere [of dictation_platform] by blast
  then have eq: "dictation_started = w" by (simp add: dictation_started_def)
  have "d_bus w = main_bus" using daemon_inv_start_up [OF w(1)] by (simp add: daemon_inv_def world_ok_def)
  then show "unheard dictation_started"
    using w(2,3) by (simp add: eq unheard_def clipboard_works_def dictation_platform_def working_platform_def demo_copy_works)
  show "start_up dictation_platform demo_boot = (True, dictation_started)" "d_lines dictation_started = 0"
    "d_server dictation_started = (new_ipc_server ''/tmp/yoru-speech.sock'' []) \<lparr>sv_listening := True, sv_wake_open := True, sv_socket_file := True\<rparr>"
    "\<exists>c. d_sm dictation_started = sm_set_activity_callback (Some ()) (new_session_manager new_recording_manager c default_capacity)"
    "session_trace dictation_started = []" using w by (simp_all add: eq)
qed

text \<open>The first round: client 7 connects.\<close>

definition dictation_connected :: "nat daemon" where
  "dictation_connected = dictation_started\<lparr>d_server := (d_server dictation_started)\<lparr>sv_read_buffers := [7 \<mapsto> ''''], sv_open := {7}\<rparr>\<rparr>"

lemma dictation_connects: "loop_step dictation_platform demo_iteration dictation_started = dictation_connected"
proof -
  obtain c where "d_sm dictation_connected = sm_set_activity_callback (Some ()) (new_session_manager new_recording_manager c default_capacity)"
    using dictation_started_facts(5) by (auto simp: dictation_connected_def)
  note rest = quiet_round [OF this, of dictation_platform]
  have "service_poll dictation_platform (it_poll demo_iteration) dictation_started = dictation_connected"
    by (simp add: service_poll_def poll_once_def dictation_started_facts(4) disconnect_pending_def demo_iteration_def dictation_connected_def)
       (simp add: new_ipc_server_def fun_upd_idem)
  moreover have "d_abnormal dictation_started = None" using dictation_started_facts(2) by (simp add: unheard_def)
  moreover have "it_before_results demo_iteration = []" "it_between_drains demo_iteration = 0" "it_before_tick demo_iteration = []"
    "it_after demo_iteration = []" "it_late demo_iteration = []" by (simp_all add: demo_iteration_def)
  ultimately show ?thesis using rest by (simp add: loop_step_def background_steps_def)
qed

text \<open>The second: its request is read and handled.\<close>

lemma start_request:
  "parse_message (pf_json dictation_platform) ''s'' = Inl kStartRecording"
  by (simp add: parse_message_def dictation_platform_def one_request_def)

lemma idle_start:
  assumes "d_sm w = sm_set_activity_callback cb (new_session_manager new_recording_manager c default_capacity)"
  shows "\<exists>sm'. start_session pub mic_ok now now' ((d_sm w)\<lparr>sm_queue := (sm_queue (d_sm w))\<lparr>q_completed := rs\<rparr>\<rparr>) v =
     (None, sm', pub (RecordingStarted 1) v)"
  unfolding assms
  by (simp add: start_session_def sm_set_activity_callback_def set_activity_callback_def new_session_manager_def has_capacity_def
      new_queue_def default_capacity_def rm_start_def device_start_def new_recording_manager_def new_device_def mic_ok_def
      yoru_ops try_transition_def)

lemma start_handled:
  assumes "unheard w" and "d_sm w = sm_set_activity_callback cb (new_session_manager new_recording_manager c default_capacity)"
  shows "unheard (handle_message dictation_platform 7 ''s'' w) \<and>
     RecordingStarted 1 \<in> set (session_trace (handle_message dictation_platform 7 ''s'' w)) \<and>
     sm_state (d_sm (handle_message dictation_platform 7 ''s'' w)) = Recording \<and>
     d_lines (handle_message dictation_platform 7 ''s'' w) = Suc (d_lines w)"
proof -
  let ?P = dictation_platform
  let ?w = "w\<lparr>d_lines := Suc (d_lines w)\<rparr>"
  have line: "pf_line ?P i = demo_line_env" for i by (simp add: dictation_platform_def working_platform_def demo_platform_def)
  have before: "before_line ?P w = ?w" unfolding line by (simp add: demo_line_env_def background_steps_def)
  obtain r sm' w1 where s: "start_session (daemon_pub ?P) mic_ok 0 0 (d_sm ?w) ?w = (r, sm', w1)" by (metis prod.collapse)
  have "unheard ?w" using assms(1) by simp
  then have w1: "unheard w1" using nobody.start_session_R [OF s] by (simp add: undisturbed_def)
  obtain sm'' where "start_session record_event mic_ok 0 0 (d_sm ?w) (session_trace ?w) = (None, sm'', session_trace ?w @ [RecordingStarted 1])"
    using idle_start [of ?w cb c record_event 0 0 "q_completed (sm_queue (d_sm ?w))" "session_trace ?w"] assms(2) by auto
  with recorded.start_session_sim [OF _ s, of "session_trace ?w"] w1
  have tr: "r = None" "RecordingStarted 1 \<in> set (session_trace w1)" by (auto simp: unheard_def)
  have "handle_line ?P (pf_line ?P (d_lines w)) ''s'' ?w = (encode_ack one_request kStartRecording, w1\<lparr>d_sm := sm'\<rparr>)"
    using s tr(1) unfolding line
    by (simp add: handle_line_def start_request handle_start_recording_def demo_line_env_def)
       (simp add: dictation_platform_def)
  then have m: "handle_message ?P 7 ''s'' w = send_reply 7 (encode_ack one_request kStartRecording) (w1\<lparr>d_sm := sm'\<rparr>)"
    unfolding handle_message_def Let_def before start_request
    by (simp add: kStartRecording_def kSubscribeEvents_def kUnsubscribeEvents_def)
  have "sm_state sm' = Recording" using s tr(1)
    by (auto simp: start_session_def Let_def split: if_splits option.splits prod.splits recording_error.splits)
  moreover have "encode_ack one_request t = Some ''r''" for t by (simp add: encode_ack_def one_request_def)
  ultimately show ?thesis
    using w1 tr(2) handle_message_lines [of ?P 7 "''s''" w] unfolding m by (auto simp: send_reply_def)
qed

lemma start_polled:
  "\<exists>sv sv'. service_poll dictation_platform (it_poll start_iteration) dictation_connected =
     (handle_message dictation_platform 7 ''s'' (dictation_connected\<lparr>d_server := sv\<rparr>))\<lparr>d_server := sv'\<rparr>"
proof -
  let ?P = dictation_platform
  define sv where "sv = (d_server dictation_connected)\<lparr>sv_read_buffers := [7 \<mapsto> '''']\<rparr>"
  let ?w = "handle_message ?P 7 ''s'' (dictation_connected\<lparr>d_server := sv\<rparr>)"
  have alive: "d_abnormal dictation_connected = None"
    using dictation_started_facts(2) by (simp add: unheard_def dictation_connected_def)
  have sv0: "d_server dictation_connected = (new_ipc_server ''/tmp/yoru-speech.sock'' [])
      \<lparr>sv_listening := True, sv_wake_open := True, sv_socket_file := True, sv_read_buffers := [7 \<mapsto> ''''], sv_open := {7}\<rparr>"
    by (simp add: dictation_connected_def dictation_started_facts(4))
  have "sv_read_buffers (d_server ?w) = [7 \<mapsto> '''']"
    using handle_message_clients(1) [of ?P 7 "''s''" "dictation_connected\<lparr>d_server := sv\<rparr>"] by (simp add: sv_def)
  then have "poll_once (it_poll start_iteration) (on_line ?P) on_disconnect (d_server dictation_connected, dictation_connected) = (d_server ?w, ?w)"
    using alive
    by (simp add: poll_once_def start_iteration_def disconnect_pending_def sv0 new_ipc_server_def read_client_def kReadChunkSize_def
        kMaxLineBytes_def deliver_lines.simps on_line_def Let_def sv_def)
  then have "service_poll ?P (it_poll start_iteration) dictation_connected = ?w\<lparr>d_server := d_server ?w\<rparr>" by (simp add: service_poll_def)
  then show ?thesis by blast
qed

lemma dictation_running_facts:
  "d_abnormal dictation_running = None" "unheard dictation_running" "RecordingStarted 1 \<in> set (session_trace dictation_running)"
  "d_lines dictation_running = 1" "sm_state (d_sm dictation_running) = Recording"
proof -
  let ?P = dictation_platform
  obtain sv sv' where p: "service_poll ?P (it_poll start_iteration) dictation_connected =
     (handle_message ?P 7 ''s'' (dictation_connected\<lparr>d_server := sv\<rparr>))\<lparr>d_server := sv'\<rparr>" using start_polled by blast
  define w1 where "w1 = service_poll ?P (it_poll start_iteration) dictation_connected"
  obtain c where "d_sm dictation_connected = sm_set_activity_callback (Some ()) (new_session_manager new_recording_manager c default_capacity)"
    using dictation_started_facts(5) by (auto simp: dictation_connected_def)
  with start_handled [of "dictation_connected\<lparr>d_server := sv\<rparr>" "Some ()" c] dictation_started_facts(2,3)
  have w1: "unheard w1" "RecordingStarted 1 \<in> set (session_trace w1)" "d_lines w1 = 1" "sm_state (d_sm w1) = Recording"
    unfolding w1_def p by (simp_all add: dictation_connected_def)
  define w2 where "w2 = poll_results ?P 0 w1"
  define w3 where "w3 = preview_tick ?P 0 [] w2"
  have "undisturbed w1 w2" unfolding w2_def by (rule undisturbed_results)
  also have "undisturbed w2 w3" unfolding w3_def by (rule undisturbed_tick)
  finally have w3: "unheard w3" "RecordingStarted 1 \<in> set (session_trace w3)" using w1 by (auto simp: undisturbed_def)
  have "sm_state (d_sm w3) = Recording" using w1(4) by (simp add: w3_def w2_def round_keeps_state)
  have "d_lines w3 = 1" using w1(3) by (simp add: w3_def w2_def poll_results_lines preview_tick_lines)
  have "it_before_results start_iteration = []" "it_between_drains start_iteration = 0" "it_before_tick start_iteration = []"
    "it_after start_iteration = []" "it_late start_iteration = []" "it_now start_iteration = 0"
    by (simp_all add: start_iteration_def demo_iteration_def)
  moreover have "d_abnormal dictation_connected = None"
    using dictation_started_facts(2) by (simp add: unheard_def dictation_connected_def)
  ultimately have "loop_step ?P start_iteration dictation_connected = w3"
    by (simp add: loop_step_def background_steps_def w1_def w2_def w3_def)
  then have "dictation_running = w3" by (simp add: dictation_running_def run_loop_def dictation_connects)
  with w3 \<open>d_lines w3 = 1\<close> \<open>sm_state (d_sm w3) = Recording\<close> show "unheard dictation_running" "RecordingStarted 1 \<in> set (session_trace dictation_running)"
    "d_lines dictation_running = 1" "sm_state (d_sm dictation_running) = Recording" "d_abnormal dictation_running = None" by (simp_all add: unheard_def)
qed

lemma dictation_main:
  "\<exists>w. main dictation_platform demo_boot [demo_iteration, start_iteration] demo_stop = (Some 0, w) \<and>
     RecordingStarted 1 \<in> set (d_trace w)"
proof -
  let ?w = "shut_down dictation_platform demo_stop dictation_running"
  have "unheard ?w" "RecordingStarted 1 \<in> set (session_trace ?w)"
    using undisturbed_shut_down [of dictation_running] dictation_running_facts by (auto simp: undisturbed_def)
  with dictation_running_facts(1) show ?thesis
    by (simp add: main_def dictation_started_facts(1) dictation_running_def [symmetric] unheard_def session_trace_def destroy_trace)
qed

end
