(* ===== verification/Inherited_Sockets.thy ===== *)
theory Inherited_Sockets
  imports Clipboard Ipc_Server
begin

text \<open>
  Two components meet in the descriptor table of the process: the IPC server opens its sockets there
  (\<^verbatim>\<open>ipc_server.cpp\<close>) and the clipboard forks a command that inherits what is not marked close-on-exec
  (\<^verbatim>\<open>wl_clipboard_adapter.cpp\<close>). \<^verbatim>\<open>wl-copy\<close> stays in the background to serve the selection, so what it
  inherits outlives the daemon.
\<close>

section \<open>Starting the server\<close>

lemma open_then_close: "fd_open f b t = (n, t') \<Longrightarrow> fd_at (fd_close n t') m = fd_at t m"
  by (simp add: fd_open_result)

lemma probe_leaves_nothing [simp]: "fd_at (probe_descriptors env t) m = fd_at t m"
  by (cases "fd_open ProbeSocket False t") (simp add: probe_descriptors_def fd_open_result split: option.splits)

text \<open>A server that does not start leaves the descriptors as they were; one that does adds exactly two.\<close>

lemma start_descriptors_failed:
  assumes "sv_start env sv = (Some e, sv')"
  shows "fd_at (start_descriptors env sv t) m = fd_at t m"
  using assms open_then_close [of ListenSocket False "probe_descriptors env t"]
  by (auto simp: sv_start_def start_descriptors_def Let_def split: if_splits option.splits prod.splits)

lemma start_descriptors_started:
  assumes "sv_start env sv = (None, sv')"
  obtains l k where "fd_at t l = None" and "fd_at t k = None" and "l \<noteq> k"
    and "\<And>m. fd_at (start_descriptors env sv t) m =
       (if m = l then Some \<lparr>fd_file = ListenSocket, fd_cloexec = False\<rparr>
        else if m = k then Some \<lparr>fd_file = WakeEvent, fd_cloexec = True\<rparr> else fd_at t m)"
proof -
  let ?t1 = "probe_descriptors env t"
  obtain l t2 where o1: "fd_open ListenSocket False ?t1 = (l, t2)" by (cases "fd_open ListenSocket False ?t1")
  obtain k t3 where o2: "fd_open WakeEvent True t2 = (k, t3)" by (cases "fd_open WakeEvent True t2")
  note l = fd_open_result [OF o1] and k = fd_open_result [OF o2]
  have "start_descriptors env sv t = t3"
    using assms o1 o2 by (auto simp: sv_start_def start_descriptors_def Let_def split: if_splits option.splits)
  moreover have "l \<noteq> k" using k(2) l(3) [of k] by auto
  moreover have "fd_at t k = None" using k(2) l(3) [of k] \<open>l \<noteq> k\<close> by simp
  ultimately show thesis
    using l(2) l(3) k(3) by (intro that [of l k]) simp_all
qed

section \<open>What the clipboard command inherits\<close>

text \<open>A file the process holds above its standard streams, not marked close-on-exec.\<close>

definition inheritable :: "open_file \<Rightarrow> fd_table \<Rightarrow> bool" where
  "inheritable f t \<longleftrightarrow> (\<exists>n d. 2 < n \<and> fd_at t n = Some d \<and> fd_file d = f \<and> \<not> fd_cloexec d)"

lemma start_inheritable:
  assumes "sv_start env sv = (None, sv')" and "stdio_open t"
  shows "inheritable ListenSocket (start_descriptors env sv t) \<and> stdio_open (start_descriptors env sv t)"
proof -
  obtain l k where lk: "fd_at t l = None" "fd_at t k = None" "l \<noteq> k"
    and at: "\<And>m. fd_at (start_descriptors env sv t) m =
       (if m = l then Some \<lparr>fd_file = ListenSocket, fd_cloexec = False\<rparr>
        else if m = k then Some \<lparr>fd_file = WakeEvent, fd_cloexec = True\<rparr> else fd_at t m)"
    by (rule start_descriptors_started [OF assms(1), where t = t]) blast
  have "2 < l" "2 < k" using stdio_lowest [OF assms(2)] lk by blast+
  then show ?thesis
    using assms(2) unfolding inheritable_def stdio_open_def at by (auto intro!: exI [of _ l])
qed

lemma accept_inheritable:
  assumes "stdio_open t"
  shows "inheritable (ClientSocket i) (accept_descriptor i t) \<and> stdio_open (accept_descriptor i t) \<and>
     (inheritable f t \<longrightarrow> inheritable f (accept_descriptor i t))"
proof -
  obtain n t' where o: "fd_open (ClientSocket i) False t = (n, t')" by (cases "fd_open (ClientSocket i) False t")
  note r = fd_open_result [OF o]
  have "2 < n" using assms r(2) by (rule stdio_lowest)
  have at: "fd_at (accept_descriptor i t) m =
      (if m = n then Some \<lparr>fd_file = ClientSocket i, fd_cloexec = False\<rparr> else fd_at t m)" for m
    using r(3) [of m] by (simp add: accept_descriptor_def o)
  have "inheritable (ClientSocket i) (accept_descriptor i t)"
    unfolding inheritable_def at using \<open>2 < n\<close> by (intro exI [of _ n]) simp
  moreover have "stdio_open (accept_descriptor i t)" using assms by (simp add: stdio_open_def at)
  moreover have "inheritable f (accept_descriptor i t)" if "inheritable f t"
    using that r(2) unfolding inheritable_def at by (metis option.distinct(1))
  ultimately show ?thesis by simp
qed

lemma accepts_inheritable:
  "stdio_open t \<Longrightarrow> inheritable f t \<Longrightarrow>
     inheritable f (fold accept_descriptor is t) \<and> stdio_open (fold accept_descriptor is t) \<and>
     (\<forall>i \<in> set is. inheritable (ClientSocket i) (fold accept_descriptor is t))"
proof (induction "is" rule: rev_induct)
  case (snoc i "is")
  then show ?case
    using accept_inheritable [of "fold accept_descriptor is t" i] by auto
qed simp

lemma child_inherits:
  assumes "stdio_open (env_descriptors env)" and "env_dev_null env"
    and "copy env content a = Some r" and "cr_child r = Some (ChildRunning c)" and "inheritable f (env_descriptors env)"
  shows "holds_file f c"
proof -
  let ?t0 = "env_descriptors env"
  obtain rd w t where p: "fd_pipe ?t0 = (rd, w, t)" by (cases "fd_pipe ?t0")
  have c: "child_process env rd w t = ChildRunning c"
    using assms(3,4) p by (auto simp: copy_def Let_def split: option.splits)
  then have "env_exec env" by (auto simp: child_process_def Let_def split: if_splits)
  obtain n d where "2 < n" "fd_at ?t0 n = Some d" "fd_file d = f" "\<not> fd_cloexec d"
    using assms(5) by (auto simp: inheritable_def)
  moreover obtain c' where "child_process env rd w t = ChildRunning c'" and at: "\<And>m. fd_at c' m =
       (if m = 0 then Some \<lparr>fd_file = PipeRead, fd_cloexec = False\<rparr>
        else if m = 1 \<or> m = 2 then Some \<lparr>fd_file = DevNull, fd_cloexec = False\<rparr>
        else (case fd_at ?t0 m of None \<Rightarrow> None | Some d \<Rightarrow> if fd_cloexec d then None else Some d))"
    by (rule child_descriptors [OF assms(1) p \<open>env_exec env\<close> assms(2)]) blast
  ultimately have "fd_at c n = Some d" using c at [of n] by simp
  with \<open>fd_file d = f\<close> show ?thesis by (auto simp: holds_file_iff)
qed

section \<open>A second start\<close>

text \<open>
  \<^verbatim>\<open>connect\<close> on a Unix socket: it succeeds when the socket file is there and some process still has the
  listening socket open (\<open>procs\<close> are the descriptor tables of the running processes), and is refused otherwise.
\<close>

definition kernel_connect :: "bool \<Rightarrow> fd_table list \<Rightarrow> connect_result" where
  "kernel_connect file procs = (if file \<and> list_ex (holds_file ListenSocket) procs then Connected else ConnectError ECONNREFUSED)"

text \<open>
  C19: The clipboard command keeps the daemon's sockets. Once the server has started, every clipboard
  command the daemon runs inherits the listening socket and the connection of every client accepted
  so far. While such a command, or a process it leaves behind, lives, a daemon that died without removing its socket file cannot be
  replaced: the next start takes the address for live and gives up. Without such a command the
  probe is refused, and the stale file is recognised as stale.
\<close>

theorem clipboard_command_keeps_sockets:
  assumes started: "sv_start env sv = (None, sv1)" and "stdio_open t"
    and copied: "copy cenv content a = Some r" "cr_child r = Some (ChildRunning c)" and "env_dev_null cenv"
    and now: "env_descriptors cenv = fold accept_descriptor clients (start_descriptors env sv t)"
    and again: "\<not> sv_listening sv2" "sv_socket_path sv2 = sv_socket_path sv"
    and probe: "\<And>procs. se_probe (env2 procs) = Some (kernel_connect (sv_socket_file sv1) procs)"
  shows "holds_file ListenSocket c \<and> (\<forall>i \<in> set clients. holds_file (ClientSocket i) c) \<and>
     sv_start (env2 [c]) sv2 = (Some (IpcError (''another instance is already listening on '' @ sv_socket_path sv)), sv2) \<and>
     \<not> is_socket_live (env2 [])"
proof -
  have "inheritable ListenSocket (start_descriptors env sv t)" "stdio_open (start_descriptors env sv t)"
    using start_inheritable [OF started assms(2)] by simp_all
  from accepts_inheritable [OF this(2,1), of clients] have held: "inheritable ListenSocket (env_descriptors cenv)"
    "\<forall>i \<in> set clients. inheritable (ClientSocket i) (env_descriptors cenv)" "stdio_open (env_descriptors cenv)"
    unfolding now by simp_all
  then have holds: "holds_file ListenSocket c" "\<forall>i \<in> set clients. holds_file (ClientSocket i) c"
    using child_inherits [OF held(3) assms(5) copied] by blast+
  have "sv_socket_file sv1" "length (sv_socket_path sv) < kSunPathSize"
    using started by (auto simp: sv_start_def Let_def split: if_splits option.splits)
  then have "is_socket_live (env2 [c])" "\<not> is_socket_live (env2 [])"
    using holds probe by (simp_all add: is_socket_live_def kernel_connect_def)
  with again \<open>length (sv_socket_path sv) < kSunPathSize\<close> holds show ?thesis
    by (simp add: sv_start_def)
qed

definition free_address :: start_env where
  "free_address = \<lparr>se_probe = Some (ConnectError ECONNREFUSED), se_socket_error = None, se_bind_error = None,
     se_listen_error = None, se_eventfd_error = None\<rparr>"

theorem clipboard_command_keeps_sockets_witness:
  "\<exists>sv1 r c. sv_start free_address (new_ipc_server ''s'' []) = (None, sv1) \<and>
     copy (demo_copy_env\<lparr>env_descriptors := fold accept_descriptor [0] (start_descriptors free_address (new_ipc_server ''s'' []) demo_descriptors)\<rparr>)
       ''oi'' default_adapter = Some r \<and> cr_child r = Some (ChildRunning c) \<and>
     holds_file ListenSocket c \<and> holds_file (ClientSocket 0) c \<and>
     fst (sv_start (free_address\<lparr>se_probe := Some (kernel_connect (sv_socket_file sv1) [c])\<rparr>) (new_ipc_server ''s'' []))
       = Some (IpcError (''another instance is already listening on '' @ ''s''))"
proof -
  let ?sv = "new_ipc_server ''s'' []"
    and ?t = "fold accept_descriptor [0] (start_descriptors free_address (new_ipc_server ''s'' []) demo_descriptors)"
  let ?cenv = "demo_copy_env\<lparr>env_descriptors := ?t\<rparr>"
  obtain sv1 where started: "sv_start free_address ?sv = (None, sv1)"
    by (simp add: sv_start_def free_address_def is_socket_live_def new_ipc_server_def kSunPathSize_def)
  have "clock_runs ?cenv" "writes_return ?cenv"
    using demo_clock_runs demo_writes_return by (simp_all add: clock_runs_def writes_return_def)
  then obtain r where r: "copy ?cenv ''oi'' default_adapter = Some r" using copy_answers by blast
  then obtain c where c: "cr_child r = Some (ChildRunning c)"
    by (auto simp: copy_def demo_copy_env_def child_process_def Let_def split: option.splits prod.splits)
  have "holds_file ListenSocket c \<and> (\<forall>i \<in> set [0]. holds_file (ClientSocket i) c) \<and>
      sv_start ((\<lambda>procs. free_address\<lparr>se_probe := Some (kernel_connect (sv_socket_file sv1) procs)\<rparr>) [c]) ?sv =
        (Some (IpcError (''another instance is already listening on '' @ sv_socket_path ?sv)), ?sv) \<and>
      \<not> is_socket_live ((\<lambda>procs. free_address\<lparr>se_probe := Some (kernel_connect (sv_socket_file sv1) procs)\<rparr>) [])"
    by (rule clipboard_command_keeps_sockets [OF started _ r c, of demo_descriptors])
       (simp_all add: stdio_open_def demo_descriptors_def fd_at_def upt_rec demo_copy_env_def new_ipc_server_def)
  with started r c show ?thesis by (auto simp: new_ipc_server_def)
qed

end
