(* ===== verification/Instances.thy ===== *)
theory Instances
  imports Ipc_Server
begin

text \<open>
  Several daemons at one address. \<^verbatim>\<open>IpcServer::start\<close> decides by a probe whether another instance is listening,
  removes the socket file and binds its own (\<^verbatim>\<open>ipc_server.cpp\<close>); these are separate system calls, and the
  address is shared by every process of the user. Here \<^verbatim>\<open>start\<close> and \<^verbatim>\<open>stop\<close> are taken apart into the calls
  that touch the address, one step each, the closing of a socket and the removal of its file included, and the
  steps of different processes interleave. A listening socket accepts connections as long as some process has it
  open, and the clipboard commands of a daemon inherit it (\<open>Inherited_Sockets\<close>): which sockets are still held that
  way is part of the state. A process run alone does what \<open>sv_start\<close> does; what several can do together is
  the subject of the theorems.
\<close>

section \<open>The calls of start and stop\<close>

text \<open>Where a process is: which call of \<^verbatim>\<open>start\<close> comes next, or how it ended.\<close>

datatype start_pc =
    Starting        \<comment> \<open>about to probe\<close>
  | Probed          \<comment> \<open>found nobody listening\<close>
  | Unlinked | Created | Bound | Listening
  | Serving         \<comment> \<open>\<^verbatim>\<open>start\<close> returned without an error\<close>
  | Undoing ipc_error \<comment> \<open>failed after \<^verbatim>\<open>bind\<close>: the socket is closed, its file not yet removed\<close>
  | StartFailed ipc_error
  | Closing         \<comment> \<open>in \<^verbatim>\<open>stop\<close>: the socket is closed, its file not yet removed\<close>
  | Stopped
  | Crashed

text \<open>The socket a process binds is named by the process: each starts once.\<close>

record instances =
  in_file :: "nat option"          \<comment> \<open>whose socket the file at the address is\<close>
  in_pc :: "nat \<Rightarrow> start_pc"
  in_held :: "nat set"             \<comment> \<open>the sockets that clipboard commands still hold\<close>

abbreviation moves :: "nat \<Rightarrow> start_pc \<Rightarrow> instances \<Rightarrow> instances" where
  "moves i pc st \<equiv> st\<lparr>in_pc := (in_pc st)(i := pc)\<rparr>"

text \<open>A socket accepts connections from \<^verbatim>\<open>listen\<close> until nobody has it open any more.\<close>

definition accepting :: "instances \<Rightarrow> nat \<Rightarrow> bool" where
  "accepting st j \<longleftrightarrow> in_pc st j = Listening \<or> in_pc st j = Serving \<or> j \<in> in_held st"

definition address_connect :: "instances \<Rightarrow> connect_result" where
  "address_connect st =
     (case in_file st of
        None \<Rightarrow> ConnectError (EOther 2)
      | Some j \<Rightarrow> if accepting st j then Connected else ConnectError ECONNREFUSED)"

text \<open>The answer to the probe, if a socket to probe with could be created.\<close>

definition probing :: "start_env \<Rightarrow> instances \<Rightarrow> start_env" where
  "probing env st = env\<lparr>se_probe := map_option (\<lambda>_. address_connect st) (se_probe env)\<rparr>"

text \<open>One call of \<^verbatim>\<open>start\<close>; \<open>env\<close> says which calls fail for reasons of their own.\<close>

definition start_step :: "start_env \<Rightarrow> path \<Rightarrow> nat \<Rightarrow> instances \<Rightarrow> instances" where
  "start_step env p i st =
     (case in_pc st i of
        Starting \<Rightarrow>
          if is_socket_live (probing env st)
          then moves i (StartFailed (IpcError (''another instance is already listening on '' @ p))) st
          else moves i Probed st
      | Probed \<Rightarrow> moves i Unlinked (st\<lparr>in_file := None\<rparr>)
      | Unlinked \<Rightarrow>
          (case se_socket_error env of
             Some m \<Rightarrow> moves i (StartFailed (IpcError (errno_message ''failed to create socket'' m))) st
           | None \<Rightarrow> moves i Created st)
      | Created \<Rightarrow>
          (case (se_bind_error env, in_file st) of
             (Some m, _) \<Rightarrow> moves i (StartFailed (IpcError (errno_message ''failed to bind socket'' m))) st
           | (None, Some _) \<Rightarrow>
               moves i (StartFailed (IpcError (errno_message ''failed to bind socket'' ''Address already in use''))) st
           | (None, None) \<Rightarrow> moves i Bound (st\<lparr>in_file := Some i\<rparr>))
      | Bound \<Rightarrow>
          (case se_listen_error env of
             Some m \<Rightarrow> moves i (Undoing (IpcError (errno_message ''failed to listen on socket'' m))) st
           | None \<Rightarrow> moves i Listening st)
      | Listening \<Rightarrow>
          (case se_eventfd_error env of
             Some m \<Rightarrow> moves i (Undoing (IpcError (errno_message ''failed to create wake eventfd'' m))) st
           | None \<Rightarrow> moves i Serving st)
      | Undoing e \<Rightarrow> moves i (StartFailed e) (st\<lparr>in_file := None\<rparr>)
      | _ \<Rightarrow> st)"

text \<open>
  \<^verbatim>\<open>stop\<close> closes the socket and then removes whatever file is at the address; a process that dies leaves it.
\<close>

definition stop_step :: "nat \<Rightarrow> instances \<Rightarrow> instances" where
  "stop_step i st =
     (case in_pc st i of
        Serving \<Rightarrow> moves i Closing st
      | Closing \<Rightarrow> moves i Stopped (st\<lparr>in_file := None\<rparr>)
      | _ \<Rightarrow> st)"

definition crash_step :: "nat \<Rightarrow> instances \<Rightarrow> instances" where
  "crash_step i st = moves i Crashed st"

text \<open>A daemon that serves runs a clipboard command, which inherits the listening socket; the last such command ends.\<close>

definition inherit_step :: "nat \<Rightarrow> instances \<Rightarrow> instances" where
  "inherit_step i st = (if in_pc st i = Serving then st\<lparr>in_held := insert i (in_held st)\<rparr> else st)"

definition release_step :: "nat \<Rightarrow> instances \<Rightarrow> instances" where
  "release_step i st = st\<lparr>in_held := in_held st - {i}\<rparr>"

definition nobody_started :: "nat option \<Rightarrow> nat set \<Rightarrow> instances" where
  "nobody_started left held = \<lparr>in_file = left, in_pc = (\<lambda>_. Starting), in_held = held\<rparr>"

lemma start_step_others: "j \<noteq> i \<Longrightarrow> in_pc (start_step env p i st) j = in_pc st j"
  by (cases "in_pc st i") (auto simp: start_step_def split: option.split)

section \<open>A process alone\<close>

text \<open>
  With nobody in between, the calls (at most seven) are \<open>sv_start\<close> with the probe answered by the address: the same
  error or success, and the file is there exactly when the server is running.
\<close>

lemma start_alone:
  assumes "in_pc st i = Starting" and "\<not> sv_listening sv" and "length (sv_socket_path sv) < kSunPathSize"
    and "sv_start (probing env st) sv = (r, sv')"
    and st'_def: "st' = (start_step env (sv_socket_path sv) i ^^ 7) st"
  shows "in_pc st' i = (case r of None \<Rightarrow> Serving | Some e \<Rightarrow> StartFailed e) \<and>
     (r = None \<longrightarrow> in_file st' = Some i \<and> sv_listening sv' \<and> sv_socket_file sv') \<and>
     (r \<noteq> None \<longrightarrow> in_file st' = None \<or> in_file st' = in_file st)"
proof -
  have seven: "(f ^^ 7) x = f (f (f (f (f (f (f x))))))" for f :: "instances \<Rightarrow> instances" and x
    by (simp add: numeral_eq_Suc)
  have same: "se_socket_error (probing env st) = se_socket_error env" "se_bind_error (probing env st) = se_bind_error env"
    "se_listen_error (probing env st) = se_listen_error env" "se_eventfd_error (probing env st) = se_eventfd_error env"
    by (simp_all add: probing_def)
  show ?thesis
    using assms(1-4) unfolding st'_def seven
    by (cases "is_socket_live (probing env st)"; cases "se_socket_error env";
        cases "se_bind_error env"; cases "se_listen_error env"; cases "se_eventfd_error env")
       (auto simp: start_step_def sv_start_def same)
qed

section \<open>One start at a time\<close>

text \<open>
  Between its probe and the end of \<^verbatim>\<open>start\<close>, and between closing its socket in \<^verbatim>\<open>stop\<close> and removing the file, a
  process is changing what is at the address.
\<close>

fun changing :: "start_pc \<Rightarrow> bool" where
  "changing (Undoing e) = True"
| "changing pc = (pc \<in> {Probed, Unlinked, Created, Bound, Listening, Closing})"

text \<open>
  Histories in which no process probes while another is changing the address, and every process has a
  descriptor left to probe with. Any file may be there at first, and any sockets of daemons of the past still held.
\<close>

inductive serialized :: "path \<Rightarrow> instances \<Rightarrow> bool" for p where
  initially: "serialized p (nobody_started left held)"
| starts: "serialized p st \<Longrightarrow> (in_pc st i = Starting \<Longrightarrow> se_probe env \<noteq> None \<and> (\<forall>j. \<not> changing (in_pc st j))) \<Longrightarrow> serialized p (start_step env p i st)"
| stops: "serialized p st \<Longrightarrow> serialized p (stop_step i st)"
| crashes: "serialized p st \<Longrightarrow> serialized p (crash_step i st)"
| inherits: "serialized p st \<Longrightarrow> serialized p (inherit_step i st)"
| releases: "serialized p st \<Longrightarrow> serialized p (release_step i st)"


definition owner_inv :: "instances \<Rightarrow> bool" where
  "owner_inv st \<longleftrightarrow>
     (\<forall>i. in_pc st i \<in> {Bound, Listening, Serving} \<longrightarrow> in_file st = Some i) \<and>
     (\<forall>i. in_pc st i \<in> {Unlinked, Created} \<longrightarrow> in_file st = None) \<and>
     (\<forall>i j. changing (in_pc st i) \<longrightarrow> changing (in_pc st j) \<or> in_pc st j = Serving \<longrightarrow> i = j)"

lemma probe_live:
  "is_socket_live (probing env st) \<longleftrightarrow>
     se_probe env \<noteq> None \<and> (\<exists>j. in_file st = Some j \<and> accepting st j)"
  by (auto simp: is_socket_live_def probing_def address_connect_def split: option.splits)

text \<open>While a process is changing the address or serves, nobody else does.\<close>

lemma owner_inv_move:
  assumes "owner_inv st" and "changing (in_pc st i) \<or> in_pc st i = Serving"
    and "pc \<in> {Bound, Listening, Serving} \<Longrightarrow> f = Some i" and "pc \<in> {Unlinked, Created} \<Longrightarrow> f = None"
  shows "owner_inv (st\<lparr>in_file := f, in_pc := (in_pc st)(i := pc)\<rparr>)"
proof -
  have others: "\<not> changing (in_pc st j) \<and> in_pc st j \<noteq> Serving" if "j \<noteq> i" for j
    using assms(1,2) that unfolding owner_inv_def by (metis insertI1 insertI2 option.inject)
  have "in_pc st j \<notin> {Unlinked, Created, Bound, Listening, Serving}" if "j \<noteq> i" for j
    using others [OF that] by (cases "in_pc st j") simp_all
  with others assms(3,4) show ?thesis by (auto simp: owner_inv_def)
qed

lemma owner_inv_probe:
  assumes "owner_inv st" and "in_pc st i = Starting" and "se_probe env \<noteq> None \<and> (\<forall>j. \<not> changing (in_pc st j))"
  shows "owner_inv (start_step env p i st)"
proof (cases "\<exists>j. in_pc st j = Serving")
  case True
  then have "\<exists>j. in_file st = Some j \<and> accepting st j" using assms(1) by (auto simp: owner_inv_def accepting_def)
  then show ?thesis using assms by (simp add: start_step_def probe_live owner_inv_def)
next
  case False
  with assms show ?thesis by (auto simp: start_step_def owner_inv_def)
qed

lemma owner_inv_start:
  assumes "owner_inv st" and "in_pc st i = Starting \<Longrightarrow> se_probe env \<noteq> None \<and> (\<forall>j. \<not> changing (in_pc st j))"
  shows "owner_inv (start_step env p i st)"
proof -
  have keep: "in_pc st i = Bound \<or> in_pc st i = Listening \<Longrightarrow> in_file st = Some i" "in_pc st i = Unlinked \<or> in_pc st i = Created \<Longrightarrow> in_file st = None"
    using assms(1) by (auto simp: owner_inv_def)
  note move = owner_inv_move [OF assms(1) disjI1]
  note same = move [where f = "in_file st", simplified]
  show ?thesis
  proof (cases "in_pc st i")
    case Starting
    with assms show ?thesis by (blast intro: owner_inv_probe)
  next
    case Probed
    then show ?thesis using move [of i Unlinked None] by (simp add: start_step_def)
  next
    case Unlinked
    then show ?thesis using keep(2) same [of i "StartFailed e" for e] same [of i Created] by (simp add: start_step_def split: option.split)
  next
    case Created
    then show ?thesis using keep(2) same [of i "StartFailed e" for e] move [of i Bound "Some i"] by (simp add: start_step_def split: option.split)
  next
    case Bound
    then show ?thesis using keep(1) same [of i "Undoing e" for e] same [of i Listening] by (simp add: start_step_def split: option.split)
  next
    case Listening
    then show ?thesis using keep(1) same [of i "Undoing e" for e] same [of i Serving] by (simp add: start_step_def split: option.split)
  next
    case (Undoing e)
    then show ?thesis using move [of i "StartFailed e" None] by (simp add: start_step_def)
  qed (use assms(1) in \<open>simp_all add: start_step_def\<close>)
qed

lemma owner_inv_held: "owner_inv (st\<lparr>in_held := h\<rparr>) = owner_inv st"
  by (simp add: owner_inv_def)

lemma owner_inv_serialized: "serialized p st \<Longrightarrow> owner_inv st"
proof (induction rule: serialized.induct)
  case (initially left held)
  show ?case by (simp add: owner_inv_def nobody_started_def)
next
  case (starts st i env)
  then show ?case by (blast intro: owner_inv_start)
next
  case (stops st i)
  then show ?case
    using owner_inv_move [of st i Stopped None] owner_inv_move [of st i Closing "in_file st"]
    by (cases "in_pc st i") (simp_all add: stop_step_def)
next
  case (crashes st i)
  then show ?case by (auto simp: crash_step_def owner_inv_def)
qed (simp_all add: owner_inv_held inherit_step_def release_step_def)

text \<open>A process that found nobody listening takes the address over, if nothing else happens and no call fails.\<close>

lemma takes_over:
  assumes "in_pc st i = Probed"
    and "se_socket_error env = None" "se_bind_error env = None" "se_listen_error env = None" "se_eventfd_error env = None"
  shows "(start_step env p i ^^ 5) st = st\<lparr>in_file := Some i, in_pc := (in_pc st)(i := Serving)\<rparr>"
proof -
  have "start_step env p i st = moves i Unlinked (st\<lparr>in_file := None\<rparr>)" using assms by (simp add: start_step_def)
  moreover have "start_step env p i (moves i Unlinked (st\<lparr>in_file := None\<rparr>)) = moves i Created (st\<lparr>in_file := None\<rparr>)"
    using assms by (simp add: start_step_def)
  moreover have "start_step env p i (moves i Created (st\<lparr>in_file := None\<rparr>)) = moves i Bound (st\<lparr>in_file := Some i\<rparr>)"
    using assms by (simp add: start_step_def)
  moreover have "start_step env p i (moves i Bound (st\<lparr>in_file := Some i\<rparr>)) = moves i Listening (st\<lparr>in_file := Some i\<rparr>)"
    using assms by (simp add: start_step_def)
  moreover have "start_step env p i (moves i Listening (st\<lparr>in_file := Some i\<rparr>)) = moves i Serving (st\<lparr>in_file := Some i\<rparr>)"
    using assms by (simp add: start_step_def)
  ultimately show ?thesis by (simp add: eval_nat_numeral)
qed

lemma free_address_taken:
  assumes "in_pc st i = Starting" and "\<forall>k. in_file st = Some k \<longrightarrow> \<not> accepting st k"
    and e: "se_socket_error env = None" "se_bind_error env = None" "se_listen_error env = None" "se_eventfd_error env = None"
  shows "in_pc ((start_step env p i ^^ 6) st) i = Serving \<and> in_file ((start_step env p i ^^ 6) st) = Some i"
proof -
  have "\<not> is_socket_live (probing env st)" using assms(2) by (auto simp: probe_live)
  then have "start_step env p i st = moves i Probed st" using assms(1) by (simp add: start_step_def)
  moreover have "(start_step env p i ^^ 6) st = (start_step env p i ^^ 5) (start_step env p i st)"
    by (simp add: funpow_swap1 [symmetric] eval_nat_numeral)
  ultimately show ?thesis using takes_over [OF _ e, of "moves i Probed st"] by simp
qed

text \<open>
  C17: As long as starts and stops do not overlap, at most one daemon serves and clients reach it: over any
  history of starts, failures, stops, crashes and clipboard commands that inherit sockets, in which no process probes
  the address while another is between its probe and the end of \<^verbatim>\<open>start\<close> or between the close and the unlink of
  \<^verbatim>\<open>stop\<close>, and each has a descriptor left to probe with, a process that serves owns the socket file, no other serves, a
  connection to the address is accepted, and another start that can create a socket to probe with gives up without
  touching the file. It also gives up when the file is that of a daemon that is gone and whose socket a clipboard command still
  holds. When the file, if there is one, is stale (nobody has its socket open for listening, not even such a command), a
  start without failures of its own succeeds.
\<close>

theorem one_instance_serves:
  assumes "serialized p st"
  shows "(in_pc st i = Serving \<longrightarrow>
       in_file st = Some i \<and> (\<forall>j. in_pc st j = Serving \<longrightarrow> j = i) \<and> address_connect st = Connected \<and>
       (\<forall>j env. in_pc st j = Starting \<and> se_probe env \<noteq> None \<longrightarrow>
          start_step env p j st =
            st\<lparr>in_pc := (in_pc st)(j := StartFailed (IpcError (''another instance is already listening on '' @ p)))\<rparr>)) \<and>
     (in_pc st i = Starting \<and> se_probe env \<noteq> None \<and> in_file st = Some k \<and> k \<in> in_held st \<longrightarrow>
       start_step env p i st =
         st\<lparr>in_pc := (in_pc st)(i := StartFailed (IpcError (''another instance is already listening on '' @ p)))\<rparr>) \<and>
     (in_pc st i = Starting \<and> (\<forall>k. in_file st = Some k \<longrightarrow> \<not> accepting st k) \<and> se_socket_error env = None \<and> se_bind_error env = None \<and>
      se_listen_error env = None \<and> se_eventfd_error env = None \<longrightarrow>
       in_pc ((start_step env p i ^^ 6) st) i = Serving \<and> in_file ((start_step env p i ^^ 6) st) = Some i)"
proof -
  have inv: "owner_inv st" using assms by (rule owner_inv_serialized)
  have owns: "in_file st = Some j" if "in_pc st j = Serving" for j using inv that by (simp add: owner_inv_def)
  have "start_step env p j st = moves j (StartFailed (IpcError (''another instance is already listening on '' @ p))) st"
    if "in_pc st i = Serving" "in_pc st j = Starting" "se_probe env \<noteq> None" for j env
    unfolding start_step_def using that owns by (simp add: probe_live accepting_def)
  moreover have "start_step env p i st = moves i (StartFailed (IpcError (''another instance is already listening on '' @ p))) st"
    if "in_pc st i = Starting" "se_probe env \<noteq> None" "in_file st = Some k" "k \<in> in_held st"
    unfolding start_step_def using that by (simp add: probe_live accepting_def)
  moreover note free_address_taken [of st i env p]
  moreover have "address_connect st = Connected" if "in_pc st i = Serving"
    using owns [OF that] that by (simp add: address_connect_def accepting_def)
  moreover have "j = i" if "in_pc st i = Serving" "in_pc st j = Serving" for j
    using owns [OF that(1)] owns [OF that(2)] by simp
  ultimately show ?thesis using owns by blast
qed

section \<open>Two starts at once\<close>

definition working_start :: start_env where
  "working_start = \<lparr>se_probe = Some Connected, se_socket_error = None, se_bind_error = None, se_listen_error = None, se_eventfd_error = None\<rparr>"

text \<open>
  C18: Two daemons that start at the same time, where no file or a stale one is, can both succeed: when the second probes before the first
  listens and removes the file after the first has bound it, both serve, but only the second can be
  reached; and when the first one stops, it removes the file of the second, which then serves an address
  nobody can connect to.
\<close>

theorem simultaneous_starts_orphan_one:
  assumes "i \<noteq> j" and "\<forall>k. in_pc st k = Starting" and "\<forall>k. in_file st = Some k \<longrightarrow> k \<notin> in_held st"
    and both: "st2 = (start_step working_start p j ^^ 5) ((start_step working_start p i ^^ 5)
      (start_step working_start p j (start_step working_start p i st)))"
  shows "in_pc st2 i = Serving \<and> in_pc st2 j = Serving \<and> in_file st2 = Some j \<and>
     in_pc ((stop_step i ^^ 2) st2) j = Serving \<and> in_file ((stop_step i ^^ 2) st2) = None \<and>
     address_connect ((stop_step i ^^ 2) st2) \<noteq> Connected"
proof -
  let ?st = "moves j Probed (moves i Probed st)"
  have ok: "se_socket_error working_start = None" "se_bind_error working_start = None" "se_listen_error working_start = None"
    "se_eventfd_error working_start = None" by (simp_all add: working_start_def)
  have nobody: "\<not> is_socket_live (probing working_start st)" "\<not> is_socket_live (probing working_start (moves i Probed st))"
    using assms(2,3) by (auto simp: probe_live accepting_def)
  have "start_step working_start p i st = moves i Probed st"
    using assms(2) nobody(1) by (simp add: start_step_def)
  moreover have "start_step working_start p j (moves i Probed st) = ?st"
    using assms(1,2) nobody(2) by (simp add: start_step_def)
  moreover have "(start_step working_start p i ^^ 5) ?st = ?st\<lparr>in_file := Some i, in_pc := (in_pc ?st)(i := Serving)\<rparr>"
    by (rule takes_over [OF _ ok]) (use assms(1) in simp)
  moreover have "(start_step working_start p j ^^ 5) (?st\<lparr>in_file := Some i, in_pc := (in_pc ?st)(i := Serving)\<rparr>) =
      ?st\<lparr>in_file := Some j, in_pc := (in_pc ?st)(i := Serving, j := Serving)\<rparr>"
    using takes_over [OF _ ok, of "?st\<lparr>in_file := Some i, in_pc := (in_pc ?st)(i := Serving)\<rparr>" j p] assms(1) by simp
  ultimately have "in_pc st2 i = Serving \<and> in_pc st2 j = Serving \<and> in_file st2 = Some j" using assms(1) by (simp add: both)
  then show ?thesis using assms(1) by (simp add: stop_step_def address_connect_def numeral_2_eq_2)
qed

text \<open>
  A daemon that starts while another stops, between its close and its unlink, finds nobody listening, serves, and then
  loses its socket file.
\<close>

lemma stop_during_start_orphans:
  assumes "i \<noteq> j" and "in_pc st i = Serving" and "in_pc st j = Starting" and "in_file st = Some i" and "i \<notin> in_held st"
    and st'_def: "st' = stop_step i ((start_step working_start p j ^^ 6) (stop_step i st))"
  shows "in_pc st' j = Serving \<and> in_file st' = None \<and> address_connect st' \<noteq> Connected"
proof -
  have closing: "stop_step i st = moves i Closing st" using assms(2) by (simp add: stop_step_def)
  let ?st = "(start_step working_start p j ^^ 6) (moves i Closing st)"
  have "in_pc ((start_step env p j ^^ n) s) i = in_pc s i" for env n s
    by (induction n) (simp_all add: start_step_others assms(1))
  then have "in_pc ?st i = Closing" by simp
  moreover have "in_pc ?st j = Serving \<and> in_file ?st = Some j"
    by (rule free_address_taken) (use assms(1,3-5) in \<open>auto simp: accepting_def working_start_def\<close>)
  ultimately have "st' = moves i Stopped (?st\<lparr>in_file := None\<rparr>)" "in_pc ?st j = Serving"
    unfolding st'_def closing by (simp_all add: stop_step_def)
  then show ?thesis using assms(1) by (simp add: address_connect_def)
qed

text \<open>
  A probe that cannot be made counts as nobody listening: a daemon that has no descriptor left when it
  starts removes the socket file of the one that serves, and only then fails.
\<close>

lemma failed_probe_removes_live_file:
  assumes "in_pc st i = Serving" and "in_pc st j = Starting" and "se_probe env = None" and "se_socket_error env = Some m"
    and st'_def: "st' = (start_step env p j ^^ 3) st"
  shows "in_pc st' i = Serving \<and> in_file st' = None \<and>
     in_pc st' j = StartFailed (IpcError (errno_message ''failed to create socket'' m))"
proof -
  have "start_step env p j st = moves j Probed st" using assms(2,3) by (simp add: start_step_def probe_live)
  moreover have "start_step env p j (moves j Probed st) = moves j Unlinked (st\<lparr>in_file := None\<rparr>)" by (simp add: start_step_def)
  moreover have "start_step env p j (moves j Unlinked (st\<lparr>in_file := None\<rparr>)) =
      moves j (StartFailed (IpcError (errno_message ''failed to create socket'' m))) (st\<lparr>in_file := None\<rparr>)"
    using assms(4) by (simp add: start_step_def)
  ultimately have "st' = moves j (StartFailed (IpcError (errno_message ''failed to create socket'' m))) (st\<lparr>in_file := None\<rparr>)"
    by (simp add: st'_def eval_nat_numeral)
  moreover have "j \<noteq> i" using assms(1,2) by auto
  ultimately show ?thesis using assms(1) by simp
qed

section \<open>Witnesses\<close>

definition first_serving :: instances where
  "first_serving = (start_step working_start ''s'' 1 ^^ 6) (nobody_started (Some 9) {})"

lemma first_serving_facts: "serialized ''s'' first_serving" "in_pc first_serving 1 = Serving" "in_pc first_serving 2 = Starting"
proof -
  have "serialized ''s'' ((start_step working_start ''s'' 1 ^^ n) (nobody_started (Some 9) {})) \<and>
     (\<forall>j. j \<noteq> 1 \<longrightarrow> in_pc ((start_step working_start ''s'' 1 ^^ n) (nobody_started (Some 9) {})) j = Starting)" for n
  proof (induction n)
    case 0
    show ?case using serialized.initially [of "''s''" "Some 9" "{}"] by (simp add: nobody_started_def)
  next
    case (Suc n)
    let ?st = "(start_step working_start ''s'' 1 ^^ n) (nobody_started (Some 9) {})"
    have "se_probe working_start \<noteq> None \<and> \<not> changing (in_pc ?st j)" if "in_pc ?st 1 = Starting" for j
      using Suc that by (cases "j = 1") (simp_all add: working_start_def)
    then have "serialized ''s'' (start_step working_start ''s'' 1 ?st)" using Suc by (intro serialized.starts) blast+
    moreover have "in_pc (start_step working_start ''s'' 1 ?st) j = Starting" if "j \<noteq> 1" for j
      unfolding start_step_others [OF that] using Suc that by blast
    ultimately show ?case by simp
  qed
  from this [of 6] show "serialized ''s'' first_serving" "in_pc first_serving 2 = Starting" by (simp_all add: first_serving_def)
  have "in_pc (nobody_started (Some 9) {}) 1 = Starting" "\<forall>k. in_file (nobody_started (Some 9) {}) = Some k \<longrightarrow> \<not> accepting (nobody_started (Some 9) {}) k"
    by (simp_all add: nobody_started_def accepting_def)
  from free_address_taken [OF this, of working_start "''s''"] show "in_pc first_serving 1 = Serving"
    unfolding first_serving_def by (simp add: working_start_def)
qed

theorem one_instance_serves_witness:
  "in_pc first_serving 1 = Serving \<and> in_file first_serving = Some 1 \<and>
   in_pc (start_step working_start ''s'' 2 first_serving) 2 =
     StartFailed (IpcError ''another instance is already listening on s'')"
proof -
  note facts = mp [OF conjunct1 [OF one_instance_serves [OF first_serving_facts(1)]] first_serving_facts(2)]
  from facts have "in_file first_serving = Some 1" by blast
  moreover from facts have "start_step working_start ''s'' 2 first_serving =
      moves 2 (StartFailed (IpcError (''another instance is already listening on '' @ ''s''))) first_serving"
    using first_serving_facts(3) by (simp add: working_start_def)
  ultimately show ?thesis using first_serving_facts(2) by simp
qed

theorem simultaneous_starts_orphan_one_witness:
  "\<exists>st. in_pc st 1 = Serving \<and> in_pc st 2 = Serving \<and> in_file st = Some 2 \<and> in_file ((stop_step 1 ^^ 2) st) = None"
proof -
  have "(1 :: nat) \<noteq> 2" "\<forall>k. in_pc (nobody_started None {}) k = Starting"
    "\<forall>k. in_file (nobody_started None {}) = Some k \<longrightarrow> k \<notin> in_held (nobody_started None {})" by (simp_all add: nobody_started_def)
  from simultaneous_starts_orphan_one [OF this refl, of "''s''"] show ?thesis by blast
qed

end
