(* ===== verification/Daemon_Signals.thy ===== *)
theory Daemon_Signals
  imports Daemon_Demo
begin

text \<open>
  Signals and the main loop of \<^verbatim>\<open>main.cpp\<close>. \<open>main\<close> takes the rounds it makes as a list; here the loop is the
  one of the code, \<^verbatim>\<open>while (g_should_stop == 0)\<close>, which may run forever, and the number of rounds is a
  consequence of when a signal arrives. What a signal does depends on the disposition set by
  \<^verbatim>\<open>std::signal\<close>: before that, SIGINT and SIGTERM end the process on the spot.
\<close>

section \<open>Signals\<close>

datatype signal = SIGINT | SIGTERM | SIGPIPE

datatype disposition = DefaultAction | StopHandler | IgnoreSignal

record signal_state =
  si_disposition :: "signal \<Rightarrow> disposition"
  g_should_stop :: int
  si_killed :: bool                \<comment> \<open>ended by the default action of a signal\<close>

definition initial_signals :: signal_state where
  "initial_signals = \<lparr>si_disposition = (\<lambda>_. DefaultAction), g_should_stop = 0, si_killed = False\<rparr>"

definition handle_stop_signal :: "signal_state \<Rightarrow> signal_state" where
  "handle_stop_signal s = s\<lparr>g_should_stop := 1\<rparr>"

definition deliver_signal :: "signal \<Rightarrow> signal_state \<Rightarrow> signal_state" where
  "deliver_signal sig s =
     (case si_disposition s sig of
        DefaultAction \<Rightarrow> s\<lparr>si_killed := True\<rparr>
      | StopHandler \<Rightarrow> handle_stop_signal s
      | IgnoreSignal \<Rightarrow> s)"

definition std_signal :: "signal \<Rightarrow> disposition \<Rightarrow> signal_state \<Rightarrow> signal_state" where
  "std_signal sig d s = s\<lparr>si_disposition := (si_disposition s)(sig := d)\<rparr>"

definition install_handlers :: "signal_state \<Rightarrow> signal_state" where
  "install_handlers s = std_signal SIGPIPE IgnoreSignal (std_signal SIGTERM StopHandler (std_signal SIGINT StopHandler s))"

section \<open>The loop and the process\<close>

text \<open>
  \<open>sg_booting\<close> and \<open>sg_started\<close> are delivered before the handlers are installed, \<open>sg_round i\<close> during the
  \<open>i\<close>-th round. A process that was killed or has crashed makes no more rounds.
\<close>

record signal_env =
  sg_booting :: "signal list"
  sg_started :: "signal list"
  sg_round :: "nat \<Rightarrow> signal list"

partial_function (option) main_loop ::
  "('c, 'n) platform \<Rightarrow> signal_env \<Rightarrow> (nat \<Rightarrow> iteration) \<Rightarrow> nat \<Rightarrow> signal_state \<Rightarrow> 'c daemon \<Rightarrow> (signal_state \<times> 'c daemon) option" where
  "main_loop pf sg rounds i s w =
     (if si_killed s \<or> d_abnormal w \<noteq> None \<or> g_should_stop s \<noteq> 0 then Some (s, w)
      else main_loop pf sg rounds (Suc i) (fold deliver_signal (sg_round sg i) s) (loop_step pf (rounds i) w))"

datatype 'c process_end =
    RunsForever
  | KilledBySignal "'c daemon"
  | Terminated "'c daemon"          \<comment> \<open>by an uncaught exception, or stuck in a call\<close>
  | Returned nat "'c daemon"

definition run_process ::
  "('c, 'n) platform \<Rightarrow> boot_env \<Rightarrow> signal_env \<Rightarrow> (nat \<Rightarrow> iteration) \<Rightarrow> stop_env \<Rightarrow> 'c process_end" where
  "run_process P bo sg rounds sp =
     (let s0 = fold deliver_signal (sg_booting sg) initial_signals
      in if si_killed s0 then KilledBySignal (boot P bo)
         else case start_up P bo of
           (False, w) \<Rightarrow> Returned 1 (destroy P (sp_before_abort_again sp) w)
         | (True, w) \<Rightarrow>
             let s1 = fold deliver_signal (sg_started sg) s0
             in if si_killed s1 then KilledBySignal w
                else case main_loop P sg rounds 0 (install_handlers s1) w of
                  None \<Rightarrow> RunsForever
                | Some (s2, w1) \<Rightarrow>
                    if si_killed s2 then KilledBySignal w1
                    else if d_abnormal w1 \<noteq> None then Terminated w1
                    else let w2 = shut_down P sp w1
                         in if d_abnormal w2 \<noteq> None then Terminated w2
                            else Returned 0 (destroy P (sp_before_abort_again sp) w2))"

section \<open>What the loop does\<close>

lemma signals_before_handlers:
  "fold deliver_signal sigs initial_signals = (if sigs = [] then initial_signals else initial_signals\<lparr>si_killed := True\<rparr>)"
proof -
  have dead: "fold deliver_signal sigs (initial_signals\<lparr>si_killed := True\<rparr>) = initial_signals\<lparr>si_killed := True\<rparr>" for sigs
    by (induction sigs) (simp_all add: deliver_signal_def initial_signals_def)
  have "deliver_signal sig initial_signals = initial_signals\<lparr>si_killed := True\<rparr>" for sig
    by (simp add: deliver_signal_def initial_signals_def)
  with dead show ?thesis by (cases sigs) simp_all
qed

text \<open>The state with the handlers in place, before and after a stop signal.\<close>

definition handled :: "int \<Rightarrow> signal_state" where
  "handled n = (install_handlers initial_signals)\<lparr>g_should_stop := n\<rparr>"

lemma handled_facts [simp]:
  "\<not> si_killed initial_signals" "\<not> si_killed (handled n)" "g_should_stop (handled n) = n" "install_handlers initial_signals = handled 0"
  by (simp_all add: handled_def install_handlers_def std_signal_def initial_signals_def)

lemma deliver_handled: "deliver_signal sig (handled n) = handled (if sig = SIGPIPE then n else 1)"
  by (cases sig) (simp_all add: handled_def deliver_signal_def handle_stop_signal_def install_handlers_def std_signal_def initial_signals_def)

definition stops :: "signal list \<Rightarrow> bool" where
  "stops sigs \<longleftrightarrow> SIGINT \<in> set sigs \<or> SIGTERM \<in> set sigs"

lemma deliver_all_handled: "fold deliver_signal sigs (handled n) = handled (if stops sigs then 1 else n)"
proof (induction sigs arbitrary: n)
  case (Cons sig sigs)
  then show ?case by (cases sig) (auto simp: deliver_handled stops_def)
qed (simp add: stops_def)

lemma run_loop_abnormal: "d_abnormal w \<noteq> None \<Longrightarrow> run_loop P its w = w"
  unfolding run_loop_def by (induction its) (simp_all add: loop_step_def)

lemma main_loop_stops:
  assumes "\<forall>k < n. \<not> stops (sg_round sg (i + k))" and "stops (sg_round sg (i + n))"
  shows "\<exists>s. main_loop P sg rounds i (handled 0) w = Some (s, run_loop P (map rounds [i..<Suc (i + n)]) w) \<and> \<not> si_killed s"
  using assms
proof (induction n arbitrary: i w)
  case 0
  then have "fold deliver_signal (sg_round sg i) (handled 0) = handled 1" by (simp add: deliver_all_handled)
  then show ?case
    by (subst main_loop.simps, subst main_loop.simps) (simp add: run_loop_def loop_step_def)
next
  case (Suc n)
  have "\<not> stops (sg_round sg (i + 0))" using Suc.prems(1) by blast
  then have quiet: "fold deliver_signal (sg_round sg i) (handled 0) = handled 0" by (simp add: deliver_all_handled)
  have "\<forall>k < n. \<not> stops (sg_round sg (Suc i + k))" "stops (sg_round sg (Suc i + n))" using Suc.prems by auto
  from Suc.IH [OF this, of "loop_step P (rounds i) w"] obtain s where
    s: "main_loop P sg rounds (Suc i) (handled 0) (loop_step P (rounds i) w) =
      Some (s, run_loop P (map rounds [Suc i..<Suc (Suc i + n)]) (loop_step P (rounds i) w))" "\<not> si_killed s" by blast
  show ?case
  proof (cases "d_abnormal w = None")
    case True
    have "[i..<Suc (i + Suc n)] = i # [Suc i..<Suc (Suc i + n)]" by (simp add: upt_conv_Cons del: upt_Suc)
    with s quiet True show ?thesis by (subst main_loop.simps) (simp add: run_loop_def del: upt_Suc)
  next
    case False
    then show ?thesis by (subst main_loop.simps) (simp add: run_loop_abnormal)
  qed
qed

lemma main_loop_first_stop:
  assumes "stops (sg_round sg k)"
  shows "main_loop P sg rounds 0 (handled 0) w \<noteq> None"
proof -
  define n where "n = (LEAST k. stops (sg_round sg k))"
  have "stops (sg_round sg n)" "\<forall>k < n. \<not> stops (sg_round sg k)"
    unfolding n_def using assms by (auto intro: LeastI dest: not_less_Least)
  with main_loop_stops [of n sg 0 P rounds w] show ?thesis by auto
qed

text \<open>When it returns, it has made some number of rounds and there is a reason to stop.\<close>

lemma main_loop_result:
  assumes "main_loop P sg rounds i s w = Some r"
  shows "\<exists>n. fst r = fold deliver_signal (concat (map (sg_round sg) [i..<i + n])) s \<and>
     snd r = run_loop P (map rounds [i..<i + n]) w \<and>
     (si_killed (fst r) \<or> d_abnormal (snd r) \<noteq> None \<or> g_should_stop (fst r) \<noteq> 0)"
  using assms
proof (induction rule: main_loop.raw_induct [rotated 1, consumes 1])
  case (1 loop P sg rounds i s w r)
  show ?case
  proof (cases "si_killed s \<or> d_abnormal w \<noteq> None \<or> g_should_stop s \<noteq> 0")
    case True
    with 1(2) have "r = (s, w)" by simp
    with True show ?thesis by (intro exI [of _ 0]) (simp add: run_loop_def)
  next
    case False
    with 1(2) have "loop P sg rounds (Suc i) (fold deliver_signal (sg_round sg i) s) (loop_step P (rounds i) w) = Some r" by auto
    from 1(1) [OF this] obtain n where
      n: "fst r = fold deliver_signal (concat (map (sg_round sg) [Suc i..<Suc i + n])) (fold deliver_signal (sg_round sg i) s)"
        "snd r = run_loop P (map rounds [Suc i..<Suc i + n]) (loop_step P (rounds i) w)"
        "si_killed (fst r) \<or> d_abnormal (snd r) \<noteq> None \<or> g_should_stop (fst r) \<noteq> 0" by blast
    have "[i..<i + Suc n] = i # [Suc i..<Suc i + n]" by (simp add: upt_conv_Cons del: upt_Suc)
    with n show ?thesis by (intro exI [of _ "Suc n"]) (simp add: run_loop_def del: upt_Suc)
  qed
qed

lemma main_loop_forever:
  assumes "\<forall>k. \<not> stops (sg_round sg k)" and "\<forall>n. d_abnormal (run_loop P (map rounds [0..<n]) w) = None"
  shows "main_loop P sg rounds 0 (handled 0) w = None"
proof (rule ccontr)
  assume "main_loop P sg rounds 0 (handled 0) w \<noteq> None"
  then obtain r n where r: "fst r = fold deliver_signal (concat (map (sg_round sg) [0..<0 + n])) (handled 0)"
    "snd r = run_loop P (map rounds [0..<0 + n]) w" "si_killed (fst r) \<or> d_abnormal (snd r) \<noteq> None \<or> g_should_stop (fst r) \<noteq> 0"
    using main_loop_result by (metis option.exhaust)
  have "\<not> stops (concat (map (sg_round sg) [0..<0 + n]))" using assms(1) by (auto simp: stops_def)
  with r assms(2) show False by (simp add: deliver_all_handled)
qed

text \<open>Whatever signals arrive, a process that returns has done what \<open>main\<close> does with the rounds it made.\<close>

lemma returned_is_main:
  assumes "run_process P bo sg rounds sp = Returned code w"
  shows "\<exists>n. main P bo (map rounds [0..<n]) sp = (Some code, w)"
proof -
  obtain ok w0 where s: "start_up P bo = (ok, w0)" by fastforce
  show ?thesis
  proof (cases ok)
    case False
    with assms s show ?thesis by (intro exI [of _ 0]) (auto simp: run_process_def main_def Let_def split: if_splits)
  next
    case True
    with assms s obtain s1 s2 w1 where l: "main_loop P sg rounds 0 s1 w0 = Some (s2, w1)" and r: "d_abnormal w1 = None"
      "d_abnormal (shut_down P sp w1) = None" "code = 0" "w = destroy P (sp_before_abort_again sp) (shut_down P sp w1)"
      by (auto simp: run_process_def Let_def split: if_splits option.splits)
    from main_loop_result [OF l] obtain n where "w1 = run_loop P (map rounds [0..<n]) w0" by auto
    with s True r show ?thesis by (intro exI [of _ n]) (simp add: main_def)
  qed
qed

text \<open>
  C15: The daemon runs until it is told to stop, and then stops. If no signal arrives before the handlers
  are installed, the round in which the first SIGINT or SIGTERM arrives is the last one: the process then
  does what \<open>main\<close> does with the rounds up to it, so it shuts down and returns. A SIGPIPE never ends it.
  Without a stop signal, and as long as nothing it sends is bad text, it never ends. A signal that arrives
  after the server has started but before the handlers are installed kills the process and leaves the
  socket file behind. However it comes to return, it has done what \<open>main\<close> does with the rounds it made.
\<close>

theorem stop_signal_ends_the_daemon:
  assumes "sg_booting sg = []"
  shows "(sg_started sg = [] \<and> (\<forall>k < n. \<not> stops (sg_round sg k)) \<and> stops (sg_round sg n) \<longrightarrow>
       run_process P bo sg rounds sp =
         (case main P bo (map rounds [0..<Suc n]) sp of (Some code, w) \<Rightarrow> Returned code w | (None, w) \<Rightarrow> Terminated w)) \<and>
     (sg_started sg = [] \<and> (\<forall>k. \<not> stops (sg_round sg k)) \<and> start_up P bo = (True, w0) \<and>
       (\<forall>m. d_abnormal (run_loop P (map rounds [0..<m]) w0) = None) \<longrightarrow> run_process P bo sg rounds sp = RunsForever) \<and>
     (sg_started sg \<noteq> [] \<and> start_up P bo = (True, w0) \<longrightarrow>
       run_process P bo sg rounds sp = KilledBySignal w0 \<and> sv_socket_file (d_server w0)) \<and>
     (run_process P bo sg rounds sp = Returned code w \<longrightarrow> (\<exists>m. main P bo (map rounds [0..<m]) sp = (Some code, w)))"
proof (intro conjI impI; (elim conjE)?)
  assume quiet: "sg_started sg = []" and "\<forall>k < n. \<not> stops (sg_round sg k)" and "stops (sg_round sg n)"
  then have loop: "\<exists>s. main_loop P sg rounds 0 (handled 0) w = Some (s, run_loop P (map rounds [0..<Suc n]) w) \<and> \<not> si_killed s" for w
    using main_loop_stops [of n sg 0 P rounds w] by simp
  obtain ok w where "start_up P bo = (ok, w)" by fastforce
  moreover obtain s where "main_loop P sg rounds 0 (handled 0) w = Some (s, run_loop P (map rounds [0..<Suc n]) w)" "\<not> si_killed s"
    using loop by blast
  ultimately show "run_process P bo sg rounds sp =
      (case main P bo (map rounds [0..<Suc n]) sp of (Some code, w) \<Rightarrow> Returned code w | (None, w) \<Rightarrow> Terminated w)"
    using assms quiet by (cases ok) (simp_all add: run_process_def main_def signals_before_handlers Let_def del: upt_Suc)
next
  assume "sg_started sg = []" and "\<forall>k. \<not> stops (sg_round sg k)" and "start_up P bo = (True, w0)"
    and "\<forall>m. d_abnormal (run_loop P (map rounds [0..<m]) w0) = None"
  with assms show "run_process P bo sg rounds sp = RunsForever"
    by (simp add: run_process_def signals_before_handlers main_loop_forever)
next
  assume "sg_started sg \<noteq> []" and "start_up P bo = (True, w0)"
  with assms show "run_process P bo sg rounds sp = KilledBySignal w0"
    by (simp add: run_process_def signals_before_handlers)
next
  assume "start_up P bo = (True, w0)"
  then show "sv_socket_file (d_server w0)"
    by (auto simp: start_up_def service_start_def sv_start_def Let_def split: if_splits option.splits ipc_error.splits)
qed (rule returned_is_main)

text \<open>The only round: a client connects, and the daemon is told to stop.\<close>

theorem stop_signal_ends_the_daemon_witness:
  "\<exists>w. run_process demo_platform demo_boot
     \<lparr>sg_booting = [], sg_started = [], sg_round = (\<lambda>k. if k = 0 then [SIGPIPE, SIGTERM] else [])\<rparr> (\<lambda>_. demo_iteration) demo_stop = Returned 0 w"
proof -
  let ?sg = "\<lparr>sg_booting = [], sg_started = [], sg_round = (\<lambda>k. if k = 0 then [SIGPIPE, SIGTERM] else [])\<rparr>"
  have "sg_started ?sg = [] \<and> (\<forall>k < (0 :: nat). \<not> stops (sg_round ?sg k)) \<and> stops (sg_round ?sg 0)" by (simp add: stops_def)
  from mp [OF conjunct1 [OF stop_signal_ends_the_daemon] this, of demo_platform demo_boot "\<lambda>_. demo_iteration" demo_stop] demo_main
  show ?thesis by auto
qed

end
