(* ===== verification/Spec2Isabelle.thy ===== *)
theory Spec2Isabelle
  imports Dictation_Demo Inherited_Sockets Instances Daemon_Signals
begin

text \<open>
  \<^bold>\<open>Yoru Speech\<close> is a local dictation daemon: clients on a Unix socket start and stop recordings, a worker
  thread transcribes them with whisper.cpp, and results are pushed to subscribed clients and copied to
  the clipboard. This development models the C++ sources under \<^verbatim>\<open>src/\<close> and proves what makes them
  correct.

  \<^bold>\<open>Parts of the program, and the theories that model them.\<close> (Paths are relative to \<^verbatim>\<open>src/\<close> of the repository.)

  \<^item> \<^verbatim>\<open>core/\<close>: \<open>Event_Bus\<close> (\<^verbatim>\<open>event_bus.hpp\<close>: subscription lists, synchronous dispatch, exceptions), \<open>Logger\<close>
    (\<^verbatim>\<open>logger.cpp\<close>), \<open>Domain_Model\<close> (\<^verbatim>\<open>session_id.hpp\<close>, \<^verbatim>\<open>error_event.hpp\<close> and the value types and events of all
    domains). \<open>Yoru_Prelude\<close>, \<open>Paths\<close> and \<open>Descriptors\<close> hold what the code uses of the C++ standard library and of
    POSIX: character classes, decimal printing, UTF-8, paths, environment variables, descriptor tables.
  \<^item> \<^verbatim>\<open>domains/audio/\<close>: \<open>Audio_Capture\<close> (\<^verbatim>\<open>CaptureDevice\<close>, \<^verbatim>\<open>RecordingManager\<close>, \<^verbatim>\<open>Recording\<close>). miniaudio is a parameter:
    what its calls answer, and the steps its callbacks make at any moment (\<open>audio_step\<close>).
  \<^item> \<^verbatim>\<open>domains/speech/\<close>: \<open>Model_Repository\<close> and \<open>Speech_Backend\<close> (the \<^verbatim>\<open>SpeechBackend\<close> interface and \<^verbatim>\<open>WhisperBackend\<close>;
    whisper.cpp is a record of functions).
  \<^item> \<^verbatim>\<open>domains/session/\<close>: \<open>Session_State\<close> (both state machines), \<open>Transcription_Queue\<close> (every critical section is one
    atomic step and the worker loop is a program counter), \<open>Queue_Threads\<close> (the worker interleaved with the
    controlling thread, including calls of the live preview into the backend), \<open>Session_Manager\<close>,
    \<open>Live_Transcriber\<close>.
  \<^item> \<^verbatim>\<open>domains/config/\<close>: \<open>Configuration\<close> (TOML codec and \<^verbatim>\<open>ConfigurationManager\<close>; toml++ is a record of functions, and
    every state of the file system another process could observe is kept).
  \<^item> \<^verbatim>\<open>domains/clipboard/\<close>: \<open>Clipboard\<close> (\<^verbatim>\<open>WlClipboardAdapter\<close> with both sides of its fork, \<^verbatim>\<open>AutoClipboard\<close>).
  \<^item> \<^verbatim>\<open>domains/ipc/\<close>: \<open>Message_Codec\<close> (JSON Lines; nlohmann/json is a record of a parser and a printer), \<open>Protocol_Types\<close>
    (the types of its messages), \<open>Ipc_Server\<close> (framing, partial writes, disconnections, which descriptors it
    opens), \<open>Inherited_Sockets\<close> (what of them the clipboard command inherits), \<open>Instances\<close> (the system calls of
    \<^verbatim>\<open>start\<close> and \<^verbatim>\<open>stop\<close> interleaved with those of other daemons at the same address), and in \<open>Daemon\<close> the \<^verbatim>\<open>CommandDispatcher\<close> (\<open>handle_line\<close>), the
    \<^verbatim>\<open>EventBridge\<close> (\<open>broadcast\<close>, \<open>bridge_subscribe\<close>) and the \<^verbatim>\<open>IpcService\<close> (\<open>handle_message\<close>, \<open>service_poll\<close>).
  \<^item> \<^verbatim>\<open>app/main.cpp\<close>: \<open>Daemon\<close>: the whole process is the record \<open>daemon\<close>, \<open>boot\<close> constructs and wires the objects in the
    order of the code, \<open>run_loop\<close> is the main loop with the other threads in between, \<open>shut_down\<close>, \<open>destroy\<close> (the
    destructors) and \<open>main\<close>. \<open>Daemon_Signals\<close>: the signal handler, \<^verbatim>\<open>while (g_should_stop == 0)\<close> and the process
    from its first instruction to its end.

  \<^bold>\<open>How state and effects are represented.\<close> Each class is a record and each method a function from the state to
  the result and the new state. Publishing an event is an argument \<open>pub\<close> of the methods that publish, so a
  component can be studied with a recorder of events or with the process's own dispatch (\<open>daemon_pub\<close>).
  Ghost fields, marked as such, record what was published and sent, or hold and number the answers the
  environment gives next.
  Errors are values; an exception nobody catches sets \<open>d_abnormal\<close>, after which nothing more happens.
  What the kernel, the clock, the libraries and the other threads do is an argument, so a theorem that
  does not constrain it holds for whatever they do.

  \<^bold>\<open>What the theorems show.\<close>

  \<^item> Sessions: no session is lost, ids increase, the stored states agree and follow the transition tables
    (\<open>Session_Manager\<close>); what a recording holds and that no device leaks (\<open>Audio_Capture\<close>).
  \<^item> The queue refines a bounded FIFO; results are delivered in order and once, announced before they are
    delivered, and an abort requested by shutdown is not lost, in every interleaving (\<open>Transcription_Queue\<close>,
    \<open>Queue_Threads\<close>); the worker and the preview are never in the backend together.
  \<^item> The preview: the overlap search equals its specification, a decoding commits exactly the words it agrees on with
    the one before, committed text only grows (\<open>Live_Transcriber\<close>), and in every state of the process what is
    committed lies within the recording in progress (\<open>Daemon_Preview\<close>).
  \<^item> Configuration: round trips, updates that are all or nothing on disk, in memory and towards the
    subscribers, and survive a restart (\<open>Configuration\<close>).
  \<^item> Clipboard: \<^verbatim>\<open>copy\<close> returns unless a write to the command's pipe blocks for good, reaps its child and leaks no
    descriptor; the command it runs has the descriptors it should have (\<open>Clipboard\<close>), and some it should not
    (\<open>Inherited_Sockets\<close>).
  \<^item> Protocol: every reply is one line that names its request, requests are decoded as they were encoded
    (\<open>Message_Codec\<close>), messages have the types clients rely on (\<open>Protocol_Types\<close>); framing does not depend on how the stream is cut as
    long as no line is over the size limit, and a client is sent whole lines or disconnected (\<open>Ipc_Server\<close>).
  \<^item> The process (this theory, over \<open>Published_Effects\<close>, \<open>Daemon_Publishing\<close>, \<open>Daemon_Safety\<close>, \<open>Daemon_Protocol\<close> and \<open>Daemon_Wakeup\<close>):
    invariants of every state of the main loop, an answer for every line, results that reach the clients,
    no lost wake-up between the worker and the loop, what can end the process, and what \<^verbatim>\<open>main\<close> leaves
    behind. \<open>Daemon_History\<close> relates the process to the session manager alone: whatever the process does is a
    history of the session manager's operations, so the theorems of \<open>Session_Manager\<close> about histories hold of
    the process: ids are never reused, results are announced and unique, and no dictation is lost between the
    start of \<^verbatim>\<open>main\<close> and its end. \<open>Daemon_Signals\<close> shows that a stop signal ends the loop, nothing else does, and that
    a process that returns did what \<open>main\<close> does. \<open>Instances\<close> shows that at most one daemon serves an address if
    no start overlaps another start or a stop, and what happens if two do; a socket that a clipboard command inherited keeps
    its address taken. \<open>Daemon_Demo\<close> and \<open>Dictation_Demo\<close> are the concrete processes the witnesses use.

  \<^bold>\<open>Interfaces.\<close> \<open>abortable_backend\<close> (what the queue relies on of a backend; interpreted on \<open>whisper_vtable\<close>),
  \<open>single_producer_queue\<close> (a capacity check stays valid for the only producer; interpreted on the queue),
  \<open>handler_contract\<close> (what handlers keep, publishing keeps), \<open>publisher_contract\<close> and \<open>configuration_publisher\<close>
  (what publishing keeps, every operation of the components keeps), \<open>command_publisher\<close> (the same for the
  operations a client can ask for, so that what a command published is what its subscribers were sent), \<open>publisher_simulation\<close> (two publishers that
  agree make every operation agree; interpreted on the process's dispatch and a recorder of events), \<open>server_callbacks\<close>, \<open>server_clients\<close> and
  \<open>server_world\<close> (what the callbacks keep, a poll of the server keeps); these are
  interpreted on the process's own handlers, publisher and callbacks.

  \<^bold>\<open>Bounds.\<close> \<^verbatim>\<open>worker_.join()\<close> lets the worker make seven steps, always enough once the queue is stopping
  (\<open>join_worker_exits\<close>). Handlers publish from handlers to a depth of two, always enough with the
  subscriptions of \<^verbatim>\<open>main\<close> (\<open>publish_depth\<close>). The waiting loop of \<^verbatim>\<open>copy\<close> is a partial function that is proved to
  return when the clock advances, and a write to the command's pipe may never return, which is the only other way for
  \<^verbatim>\<open>copy\<close> to hang; the main loop is one that is proved to return exactly when a stop signal
  arrives or the process ends abnormally. All other loops are structurally recursive or have a termination proof.
  Session ids and recording fields keep their machine width.

  \<^bold>\<open>Not modelled.\<close> What the clipboard command does once it runs (its exit status is an argument); how
  long calls take (only their order matters, so the 200 ms of the poll do not appear); a failure of \<^verbatim>\<open>fcntl\<close> in
  \<^verbatim>\<open>set_nonblocking\<close>, which would let a call block; a signal that arrives between the three calls of \<^verbatim>\<open>std::signal\<close>
  (they are one step); a child that survives SIGKILL, or that \<^verbatim>\<open>waitpid\<close> cannot wait for; allocation failure outside the
  audio callback; binary32 rounding, which is a parameter of the silence detector; the tests, the
  packaging scripts and the build files. The state a process has after an uncaught exception means
  nothing: theorems about it only say that it ended.
\<close>

section \<open>Every state of the main loop\<close>

lemma run_loop_inv: "start_up P bo = (True, w) \<Longrightarrow> daemon_inv P (run_loop P its w)"
  by (rule daemon_inv_run [OF daemon_inv_start_up])

lemmas run_loop_facts = run_loop_inv [unfolded daemon_inv_def world_ok_def server_inv_def buffer_ok_def]

text \<open>
  C12: Whatever clients send and however the kernel cuts it, after any number of rounds the descriptors that
  are open are exactly the registered clients, every subscriber is one of them and is subscribed once,
  and what is buffered of an unfinished line is at most \<^verbatim>\<open>kMaxLineBytes\<close> long and holds no line feed.
\<close>
theorem clients_stay_consistent:
  assumes "start_up P bo = (True, w0)" and w_def: "w = run_loop P its w0"
  shows "sv_open (d_server w) = dom (sv_read_buffers (d_server w)) \<and>
    set (d_subscribed w) \<subseteq> sv_open (d_server w) \<and> distinct (d_subscribed w) \<and>
    (\<forall>c b. sv_read_buffers (d_server w) c = Some b \<longrightarrow> length b \<le> kMaxLineBytes \<and> CHR 0x0A \<notin> set b)"
  using run_loop_facts [OF assms(1), of its] by (simp add: w_def)

theorem clients_stay_consistent_witness:
  "sv_open (d_server demo_w) = {7} \<and> dom (sv_read_buffers (d_server demo_w)) = {7} \<and>
   set (d_subscribed demo_w) \<subseteq> {7} \<and> distinct (d_subscribed demo_w)"
  using clients_stay_consistent [OF demo_started(1) demo_w_def]
  by (simp add: demo_w_eq demo_started(2))

text \<open>
  C13: The configuration in memory is always a valid one, and the three components that keep a copy of
  its settings (session manager, live transcriber, clipboard) agree with it after any number of
  rounds: every successful \<^verbatim>\<open>set_config\<close> reaches all of them.
\<close>
theorem settings_follow_configuration:
  assumes "start_up P bo = (True, w0)" and w_def: "w = run_loop P its w0" and c_def: "c = cm_configuration (d_cm w)"
  shows "validate c = [] \<and>
    sm_default_language (d_sm w) = default_language c \<and> sm_transcription_prompt (d_sm w) = transcription_prompt c \<and>
    lt_default_language (d_lt w) = default_language c \<and> lt_transcription_prompt (d_lt w) = transcription_prompt c \<and>
    is_enabled (d_clip w) = auto_clipboard c"
  using run_loop_facts [OF assms(1), of its] by (simp add: w_def c_def settings_agree_def Let_def)

theorem settings_follow_configuration_witness:
  "validate (cm_configuration (d_cm demo_w)) = [] \<and>
   sm_default_language (d_sm demo_w) = default_language (cm_configuration (d_cm demo_w))"
  using settings_follow_configuration [OF demo_started(1) demo_w_def refl] by simp

section \<open>Dictations\<close>

lemma session_trace_facts:
  "started_ids (session_trace w) = started_ids (d_trace w)"
  "filter is_result (session_trace w) = filter is_result (d_trace w)"
proof -
  have "started_ids (filter session_event tr) = started_ids tr" for tr
    by (induction tr rule: started_ids.induct) simp_all
  then show "started_ids (session_trace w) = started_ids (d_trace w)" by (simp add: session_trace_def)
  have "is_result e \<Longrightarrow> session_event e" for e by (cases e rule: is_result.cases) simp_all
  then show "filter is_result (session_trace w) = filter is_result (d_trace w)"
    by (auto simp: session_trace_def intro!: filter_cong)
qed

lemma started_ids_iff: "i \<in> set (started_ids tr) \<longleftrightarrow> RecordingStarted i \<in> set tr"
  by (induction tr rule: started_ids.induct) auto

lemma process_history:
  assumes "start_up P bo = (True, w0)" and "w = run_loop P its w0 \<or> w = shut_down P sp (run_loop P its w0)" and "d_abnormal w = None"
  shows "\<exists>cs. start_count cs \<le> d_lines w \<and> sm_run (backend_of P) cs (booted_service P bo) = (d_sm w, d_backend w, session_trace w)"
proof (rule history_from_boot)
  show "history P (boot P bo) w" using assms(2) history_running [OF assms(1)] history_shut_down by blast
qed (fact assms(3))

text \<open>
  C2: The process refines the session manager. Whatever clients send, whatever the devices, the kernel and
  the other threads do: at every moment of the main loop and after the shutdown, the session manager, the
  backend and the session events published so far are those of some sequence of the session manager's own
  operations, run alone on a recorder of events from its initial state with the configuration that was
  loaded. At most one of them per line received is a start. So the histories of the session manager, for
  which its theorems are proved, include everything a running daemon does. In particular no session is ever
  lost on the way: each one whose recording started is the active one, or owed a result by the queue, or its
  result waits to be published, or its end was published.
\<close>
theorem process_is_a_session_history:
  assumes "start_up P bo = (True, w0)" and "w = run_loop P its w0 \<or> w = shut_down P sp (run_loop P its w0)"
    and "d_abnormal w = None"
  shows "\<exists>cs. start_count cs \<le> d_lines w \<and>
    sm_run (backend_of P) cs
      (initial_service (cm_configuration (d_cm (boot P bo))) default_capacity (d_backend (boot P bo))) =
    (d_sm w, d_backend w, filter session_event (d_trace w)) \<and>
    (\<forall>i. RecordingStarted i \<in> set (d_trace w) \<longrightarrow>
       active_session_id (d_sm w) = Some i \<or> i \<in> set (map job_session_id (outstanding (sm_queue (d_sm w)))) \<or>
       i \<in> set (map res_session_id (q_completed (sm_queue (d_sm w)))) \<or>
       (\<exists>ev \<in> set (d_trace w). (\<exists>t. ev = TranscriptionCompleted i t) \<or> (\<exists>c m. ev = ErrorOccurred (Some i) c m) \<or>
          ev = SessionCancelled i))"
proof -
  from process_history [OF assms] obtain cs where "start_count cs \<le> d_lines w"
    and run: "sm_run (backend_of P) cs (booted_service P bo) = (d_sm w, d_backend w, session_trace w)" by blast
  moreover have "active_session_id (d_sm w) = Some i \<or> i \<in> set (map job_session_id (outstanding (sm_queue (d_sm w)))) \<or>
      i \<in> set (map res_session_id (q_completed (sm_queue (d_sm w)))) \<or>
      (\<exists>ev \<in> set (d_trace w). (\<exists>t. ev = TranscriptionCompleted i t) \<or> (\<exists>c m. ev = ErrorOccurred (Some i) c m) \<or>
         ev = SessionCancelled i)" if "RecordingStarted i \<in> set (d_trace w)" for i
  proof -
    have sub: "set (session_trace w) \<subseteq> set (d_trace w)" by (auto simp: session_trace_def)
    have "i \<in> set (started_ids (session_trace w))" using that by (simp add: session_trace_facts started_ids_iff)
    from no_session_lost [OF run this] sub show ?thesis by blast
  qed
  ultimately show ?thesis unfolding session_trace_def by blast
qed

theorem process_is_a_session_history_witness:
  "\<exists>cs. start_count cs \<le> 1 \<and>
     sm_run (backend_of dictation_platform) cs
       (initial_service (cm_configuration (d_cm (boot dictation_platform demo_boot))) default_capacity
          (d_backend (boot dictation_platform demo_boot))) =
       (d_sm dictation_running, d_backend dictation_running, filter session_event (d_trace dictation_running)) \<and>
     RecordingStarted 1 \<in> set (d_trace dictation_running)"
proof -
  note process_is_a_session_history [OF dictation_started_facts(1) disjI1 [OF dictation_running_def] dictation_running_facts(1)]
  then obtain cs where "start_count cs \<le> d_lines dictation_running" "sm_run (backend_of dictation_platform) cs
       (initial_service (cm_configuration (d_cm (boot dictation_platform demo_boot))) default_capacity
          (d_backend (boot dictation_platform demo_boot))) =
       (d_sm dictation_running, d_backend dictation_running, filter session_event (d_trace dictation_running))" by blast
  moreover have "RecordingStarted 1 \<in> set (d_trace dictation_running)"
    using dictation_running_facts(3) by (simp add: session_trace_def)
  ultimately show ?thesis unfolding dictation_running_facts(4) by blast
qed

text \<open>
  C4: Over the life of the process, session ids are never reused and results are published once, after they
  were announced: at every moment of the main loop and after the shutdown, among everything published so
  far, the ids of the recordings that started are strictly increasing, no session has two results, and
  every result comes after the \<^verbatim>\<open>TranscriptionStarted\<close> of its session. The bound is where the 64-bit
  counter of ids could wrap around: fewer than \<open>2^64 - 2\<close> lines received.
\<close>
theorem process_results_announced_once:
  assumes "start_up P bo = (True, w0)" and "w = run_loop P its w0 \<or> w = shut_down P sp (run_loop P its w0)"
    and "d_abnormal w = None" and "d_lines w < 2 ^ 64 - 2"
  shows "sorted_wrt (<) (started_ids (d_trace w)) \<and> distinct (outcomes (filter is_result (d_trace w))) \<and>
    (\<forall>earlier ev later i. d_trace w = earlier @ ev # later \<longrightarrow> is_result ev \<longrightarrow> outcome_of ev = Some i \<longrightarrow>
       TranscriptionStarted i \<in> set earlier)"
proof -
  from process_history [OF assms(1-3)] assms(4) obtain cs where
    "sm_run (backend_of P) cs (booted_service P bo) = (d_sm w, d_backend w, session_trace w)" "start_count cs < 2 ^ 64 - 2"
    by (meson le_less_trans)
  note facts = session_ids_strictly_increase [OF this] run_announced [OF this]
  have "TranscriptionStarted i \<in> set earlier"
    if ev: "d_trace w = earlier @ ev # later" "is_result ev" "outcome_of ev = Some i" for earlier ev later i
  proof -
    have "session_event ev" using ev(2) by (cases ev rule: is_result.cases) simp_all
    then have "session_trace w = filter session_event earlier @ ev # filter session_event later"
      by (simp add: session_trace_def ev(1))
    with facts(2) ev(2,3) have "TranscriptionStarted i \<in> set (filter session_event earlier)" by blast
    then show ?thesis by simp
  qed
  with facts show ?thesis by (simp add: session_trace_facts)
qed

theorem process_results_announced_once_witness:
  "\<exists>ids. started_ids (d_trace dictation_running) = ids \<and> 1 \<in> set ids \<and> sorted_wrt (<) ids"
proof -
  have "d_lines dictation_running < 2 ^ 64 - 2" by (simp add: dictation_running_facts(4))
  from process_results_announced_once [OF dictation_started_facts(1) disjI1 [OF dictation_running_def] dictation_running_facts(1) this]
    dictation_running_facts(3) show ?thesis by (simp add: started_ids_iff session_trace_def)
qed

section \<open>The preview\<close>

text \<open>
  C32: While a recording is being made, the preview never runs ahead of the microphone: in every state of the main
  loop, whatever clients, devices and the other threads do, the number of samples the preview has settled is at most the
  number captured so far of this recording, however long the one before it was, because a recording that starts
  resets the preview. And a tick never moves it back.
\<close>
theorem commit_point_in_recording:
  assumes "start_up P bo = (True, w0)" and w_def: "w = run_loop P its w0"
  shows "(sm_state (d_sm w) = Recording \<longrightarrow>
      lt_committed_sample_count (d_lt w) \<le> length (rm_samples (sm_recording_manager (d_sm w)))) \<and>
    lt_committed_sample_count (d_lt w) \<le> lt_committed_sample_count (d_lt (preview_tick P now late w))"
proof -
  obtain c where "d_sm (boot P bo) = new_session_manager new_recording_manager c default_capacity"
    using boot_session_manager by blast
  moreover from assms(1) have "d_sm w0 = sm_set_activity_callback (Some ()) (d_sm (boot P bo))"
    by (auto simp: start_up_def service_start_def split: prod.splits option.splits ipc_error.splits)
  ultimately have "commit_ok w0" by (simp add: commit_ok_def sm_set_activity_callback_def new_session_manager_def)
  then have "commit_ok w" unfolding w_def by (rule commit_ok_run [OF daemon_inv_start_up [OF assms(1)]])
  moreover obtain lt' b' w' where
    t: "tick (daemon_pub P) (pf_round P) (backend_of P) now late (d_sm w) (d_lt w) (d_backend w) w = (lt', b', w')"
    by (metis prod.collapse)
  ultimately show ?thesis
    using tick_commit_point [OF t] by (simp add: preview_tick_effect [OF t] commit_ok_def captured_def)
qed

theorem commit_point_in_recording_witness:
  "sm_state (d_sm dictation_running) = Recording \<and>
   lt_committed_sample_count (d_lt dictation_running) \<le> length (rm_samples (sm_recording_manager (d_sm dictation_running)))"
  using commit_point_in_recording [OF dictation_started_facts(1) dictation_running_def] dictation_running_facts(5) by blast

section \<open>Requests\<close>

text \<open>
  C3: Every line of a connected client is answered by exactly one line, which parses to the type of the
  request (\<^verbatim>\<open>"error"\<close> when the request has none) and has one of the message types that answer this
  request (\<open>answers\<close>: an acknowledgement, the queue position, the state, the configuration or the models,
  or an error where the command can fail). The events the command published, those the trace grew by, can all be
  encoded if anybody is subscribed; each subscribed client is sent exactly their lines, in the order in which they were
  published, and the client that asked receives its reply after them. Clients that are not subscribed receive nothing
  else. This is for a kernel that takes what is written, and a request that does not end the process.
\<close>
theorem every_line_is_answered:
  assumes "daemon_inv P w" and "json_faithful (pf_json P)" and "sv_kernel (d_server w) = []"
    and "client \<in> dom (sv_read_buffers (d_server w))"
    and w'_def: "w' = handle_message P client line w" and "d_abnormal w' = None"
    and type_def: "type = (case parse_message (pf_json P) line of Inl type \<Rightarrow> type | Inr _ \<Rightarrow> ''error'')"
  shows "\<exists>events reply.
    d_trace w' = d_trace w @ events \<and>
    (d_subscribed w \<noteq> [] \<longrightarrow> (\<forall>e \<in> set events. encode_event (pf_json P) e \<noteq> None)) \<and>
    parse_message (pf_json P) reply = Inl type \<and>
    (\<exists>(ok, schema) \<in> set (answers type). typed_line (pf_json P) (reply_schema type ok schema) reply) \<and>
    (\<forall>c \<in> dom (sv_read_buffers (d_server w)).
       sv_sent (d_server w') c = sv_sent (d_server w) c @
         (if c \<in> set (d_subscribed w) then concat (map (\<lambda>e. the (encode_event (pf_json P) e) @ [CHR 0x0A]) events) else []) @
         (if c = client then reply @ [CHR 0x0A] else []))"
proof -
  have "world_ok P w" "sv_read_buffers (d_server w) client \<noteq> None"
    using assms(1,4) by (auto simp: daemon_inv_def)
  from handle_message_sends [OF assms(2) this(1) assms(3) this(2) assms(6) [unfolded w'_def]]
  obtain events reply where "d_trace w' = d_trace w @ events"
    "d_subscribed w \<noteq> [] \<longrightarrow> (\<forall>e \<in> set events. encode_event (pf_json P) e \<noteq> None)" "is_reply P type reply"
    and sent: "\<And>c. sv_sent (d_server w') c = sv_sent (d_server w) c @
        (if c \<in> set (d_subscribed w) \<and> sv_read_buffers (d_server w) c \<noteq> None then lines_for P events else []) @
        (if c = client then reply @ [CHR 0x0A] else [])"
    unfolding w'_def type_def reply_type_of_def by blast
  with is_reply_parses [of P type reply] show ?thesis
    by (intro exI [of _ events] exI [of _ reply]) (simp add: is_reply_def lines_of_def dom_def comp_def)
qed

text \<open>Client 7 is subscribed and asks for a recording.\<close>

lemma demo_start_request:
  obtains line where "parse_message toy_json line = Inl kStartRecording"
    and "d_abnormal (handle_message working_platform 7 line demo_finished) = None"
    and "d_trace (handle_message working_platform 7 line demo_finished) = d_trace demo_finished @ [RecordingStarted 1]"
proof -
  let ?P = working_platform and ?e = "RecordingStarted 1"
  obtain line ack where l: "parse_message toy_json line = Inl kStartRecording" "encode_ack toy_json kStartRecording = Some ack"
    using toy_request [of kStartRecording] by (auto simp: kStartRecording_def valid_utf8_def char_code_def)
  have pf: "pf_json ?P = toy_json" "pf_line ?P i = demo_line_env" for i by (simp_all add: working_platform_def demo_platform_def)
  obtain ev where ev: "encode_event (pf_json ?P) ?e = Some ev"
    using toy_event [of ?e] by (auto simp: pf event_json_def json_object_def raw_def valid_utf8_def char_code_def)
  define w where "w = demo_finished\<lparr>d_lines := Suc (d_lines demo_finished)\<rparr>"
  obtain c where "d_sm demo_w = sm_set_activity_callback (Some ()) (new_session_manager new_recording_manager c default_capacity)"
    using demo_started(5) by (auto simp: demo_w_eq)
  moreover have "d_sm w = (d_sm demo_w)\<lparr>sm_queue := (sm_queue (d_sm demo_w))
      \<lparr>q_completed := [\<lparr>res_session_id = 1, res_result = Inr (SpeechError ''no model'')\<rparr>]\<rparr>\<rparr>"
    by (simp add: w_def demo_finished_def)
  ultimately obtain sm' where s: "start_session (daemon_pub ?P) mic_ok 0 0 (d_sm w) w = (None, sm', daemon_pub ?P ?e w)"
    using idle_start [of demo_w] by metis
  have "d_bus w = main_bus" "d_abnormal w = None" "clipboard_works ?P w"
    using demo_finished_facts by (simp_all add: w_def daemon_inv_def world_ok_def clipboard_works_def)
  note pub = publish_sends [OF this _ ev] leaf_trace [OF _ this(2), of ?e ?P]
  have "handle_message ?P 7 line demo_finished = send_reply 7 (Some ack) ((daemon_pub ?P ?e w)\<lparr>d_sm := sm'\<rparr>)"
    using s l(2) [unfolded kStartRecording_def] by (simp add: handle_message_def pf l demo_line_env_def background_steps_def handle_line_def handle_start_recording_def
        kStartRecording_def kSubscribeEvents_def kUnsubscribeEvents_def w_def)
  with l(1) pub show thesis by (intro that [of line]) (simp_all add: send_reply_def w_def)
qed

theorem every_line_is_answered_witness:
  "\<exists>line ev reply. parse_message toy_json line = Inl kStartRecording \<and> encode_event toy_json (RecordingStarted 1) = Some ev \<and>
     parse_message toy_json reply = Inl kStartRecording \<and>
     sv_sent (d_server (handle_message working_platform 7 line demo_finished)) 7 = ev @ [CHR 0x0A] @ reply @ [CHR 0x0A]"
proof -
  obtain line where l: "parse_message toy_json line = Inl kStartRecording"
    "d_abnormal (handle_message working_platform 7 line demo_finished) = None"
    "d_trace (handle_message working_platform 7 line demo_finished) = d_trace demo_finished @ [RecordingStarted 1]"
    by (rule demo_start_request)
  have pf: "pf_json working_platform = toy_json" by (simp add: working_platform_def demo_platform_def)
  have j: "json_faithful (pf_json working_platform)" and c: "7 \<in> dom (sv_read_buffers (d_server demo_finished))"
    and q: "d_subscribed demo_finished = [7]" "sv_sent (d_server demo_finished) 7 = ''''"
    using demo_facts by (auto simp: pf toy_json_faithful demo_finished_def)
  from every_line_is_answered [OF demo_finished_facts(1) j demo_finished_facts(4) c refl l(2) refl] obtain events reply where
    "d_trace (handle_message working_platform 7 line demo_finished) = d_trace demo_finished @ events"
    "d_subscribed demo_finished \<noteq> [] \<longrightarrow> (\<forall>e \<in> set events. encode_event toy_json e \<noteq> None)"
    "parse_message toy_json reply = Inl kStartRecording"
    "\<forall>c \<in> dom (sv_read_buffers (d_server demo_finished)).
       sv_sent (d_server (handle_message working_platform 7 line demo_finished)) c = sv_sent (d_server demo_finished) c @
         (if c \<in> set (d_subscribed demo_finished) then concat (map (\<lambda>e. the (encode_event toy_json e) @ [CHR 0x0A]) events) else []) @
         (if c = 7 then reply @ [CHR 0x0A] else [])"
    unfolding pf l(1) sum.case by blast
  with l(1,3) c q show ?thesis by (intro exI [of _ line] exI [of _ "the (encode_event toy_json (RecordingStarted 1))"] exI [of _ reply]) auto
qed

text \<open>
  C22: A \<^verbatim>\<open>list_models\<close> request ends the process when the name of a model file is not valid UTF-8: the
  exception of \<^verbatim>\<open>dump()\<close> is caught by nobody.
\<close>
theorem bad_model_name_ends_the_daemon:
  assumes "json_faithful (pf_json P)" and "parse_message (pf_json P) line = Inl kListModels"
    and "m \<in> set (list_available_models (le_listing (pf_line P (d_lines w))))" and "\<not> valid_utf8 (model_name m)"
    and "d_abnormal w = None"
  shows "d_abnormal (handle_message P client line w) = Some DumpThrows"
proof -
  let ?ms = "list_available_models (le_listing (pf_line P (d_lines w)))"
  have "\<not> json_utf8 (response kListModels True [(''models'', JArray (map (\<lambda>m. json_object (model_fields m)) ?ms))])"
    using assms(3,4) by (auto simp: response_def json_object_def model_fields_def)
  then have "encode_models (pf_json P) kListModels ?ms = None"
    using assms(1) unfolding encode_models_def json_faithful_def by blast
  then show ?thesis
    using assms(2,5) before_line_abnormal [of P w]
    by (simp add: handle_message_def handle_line_def send_reply_def kListModels_def kSubscribeEvents_def
        kUnsubscribeEvents_def kStartRecording_def kStopRecording_def kCancelJob_def kCancelSession_def kGetState_def
        kGetConfig_def kSetConfig_def)
qed

lemma bad_model_listed:
  "list_available_models (Some [bad_model_file]) \<noteq> []"
  "\<forall>m \<in> set (list_available_models (Some [bad_model_file])). \<not> valid_utf8 (model_name m)"
  by code_simp+

theorem bad_model_name_ends_the_daemon_witness:
  "\<exists>line. d_abnormal (handle_message demo_platform 7 line demo_w) = Some DumpThrows"
proof -
  obtain line where l: "parse_message toy_json line = Inl kListModels"
    using toy_request [of kListModels] by (auto simp: kListModels_def valid_utf8_def char_code_def)
  obtain m where m: "m \<in> set (list_available_models (Some [bad_model_file]))" "\<not> valid_utf8 (model_name m)"
    using bad_model_listed by (meson list.set_sel(1))
  show ?thesis
    by (rule exI [of _ line], rule bad_model_name_ends_the_daemon [where m = m])
       (simp_all add: demo_platform_def toy_json_faithful l m demo_line_env_def demo_facts(5))
qed

section \<open>Pushed events\<close>

text \<open>
  C8: Results reach clients: the call of \<^verbatim>\<open>poll_completed\<close> that each round of the main loop makes publishes
  \<^verbatim>\<open>transcription_started\<close> for every job the worker began and then the outcome of every job it finished, and during that
  call each subscribed client is sent exactly the lines of these events, in this order and each once; nobody else is sent
  anything. This is for a kernel that takes what is written, text that can be encoded, and a clipboard that is off or
  works: a clipboard that fails adds its error.
\<close>
theorem results_reach_clients:
  assumes "daemon_inv P w" and "d_abnormal w = None" and "clipboard_works P w" and "sv_kernel (d_server w) = []"
    and events_def: "events = round_events P n w"
    and "\<forall>e \<in> set events. encode_event (pf_json P) e \<noteq> None"
  shows "sv_sent (d_server (poll_results P n w)) c = sv_sent (d_server w) c @
    (if c \<in> set (d_subscribed w) then concat (map (\<lambda>e. the (encode_event (pf_json P) e) @ [CHR 0x0A]) events) else [])"
  using round_sends [OF assms(1-4), of n c] assms(6) by (simp add: events_def lines_of_def comp_def)

theorem results_reach_clients_witness:
  "\<exists>line. encode_event toy_json (ErrorOccurred (Some 1) ''speech'' ''no model'') = Some line \<and>
     sv_sent (d_server (poll_results working_platform 0 demo_finished)) 7 = line @ [CHR 0x0A]"
proof -
  let ?e = "ErrorOccurred (Some 1) ''speech'' ''no model''"
  have ev: "round_events working_platform 0 demo_finished = [?e]" by (rule demo_finished_events)
  obtain line where l: "encode_event toy_json ?e = Some line"
    using toy_event [of ?e] by (auto simp: event_json_def json_object_def raw_def optional_id_def valid_utf8_def char_code_def)
  moreover have pf: "pf_json working_platform = toy_json" by (simp add: working_platform_def demo_platform_def)
  ultimately have "\<forall>e \<in> set (round_events working_platform 0 demo_finished). encode_event (pf_json working_platform) e \<noteq> None"
    unfolding ev by simp
  note results_reach_clients [OF demo_finished_facts refl this, of 7, unfolded ev pf]
  moreover have "sv_sent (d_server demo_finished) 7 = ''''" "7 \<in> set (d_subscribed demo_finished)"
    by (simp_all add: demo_finished_def demo_facts)
  ultimately show ?thesis using l by simp
qed

text \<open>
  C21: A clipboard that fails: the error of the session is sent to the subscribers before the transcript of
  the same session, because the clipboard publishes it while \<^verbatim>\<open>TranscriptionCompleted\<close> is still being
  dispatched and was subscribed before the bridge.
\<close>
theorem clipboard_error_overtakes_transcript:
  assumes "daemon_inv P w" and "d_abnormal w = None" and "sv_kernel (d_server w) = []" and "is_enabled (d_clip w)"
    and "copy (pf_copy P (d_copies w)) (transcript_text t) (ac_adapter (d_clip w)) = Some r"
    and "cr_error r = Some (ClipboardError m)"
    and "encode_event (pf_json P) (ErrorOccurred (Some sid) ''clipboard'' m) = Some failed"
    and "encode_event (pf_json P) (TranscriptionCompleted sid t) = Some completed"
    and "is_subscribed client w"
  shows "sv_sent (d_server (daemon_pub P (TranscriptionCompleted sid t) w)) client =
    sv_sent (d_server w) client @ failed @ [CHR 0x0A] @ completed @ [CHR 0x0A]"
proof -
  have "d_bus w = main_bus" "distinct (d_subscribed w)" "sv_read_buffers (d_server w) client \<noteq> None"
    using assms(1,9) by (auto simp: daemon_inv_def world_ok_def is_subscribed_def)
  with clipboard_failure_order [of w P t r m sid failed completed] assms show ?thesis
    by (simp add: send_lines_open is_enabled_def is_subscribed_def)
qed

theorem clipboard_error_overtakes_transcript_witness:
  "\<exists>failed completed.
     encode_event toy_json (ErrorOccurred (Some 1) ''clipboard'' ''wl-copy exited with status 1'') = Some failed \<and>
     encode_event toy_json (TranscriptionCompleted 1 demo_transcript) = Some completed \<and>
     sv_sent (d_server (daemon_pub demo_platform (TranscriptionCompleted 1 demo_transcript) (demo_w\<lparr>d_subscribed := [7]\<rparr>))) 7 =
       failed @ [CHR 0x0A] @ completed @ [CHR 0x0A]"
proof -
  let ?m = "''wl-copy exited with status 1''" and ?w = "demo_w\<lparr>d_subscribed := [7]\<rparr>"
  obtain failed where f: "encode_event toy_json (ErrorOccurred (Some 1) ''clipboard'' ?m) = Some failed"
    using toy_event [of "ErrorOccurred (Some 1) ''clipboard'' ?m"]
    by (auto simp: event_json_def json_object_def raw_def optional_id_def valid_utf8_def char_code_def)
  obtain completed where c: "encode_event toy_json (TranscriptionCompleted 1 demo_transcript) = Some completed"
    using toy_event [of "TranscriptionCompleted 1 demo_transcript"]
    by (auto simp: event_json_def json_object_def raw_def demo_transcript_def valid_utf8_def char_code_def)
  obtain r where r: "copy (pf_copy demo_platform (d_copies ?w)) (transcript_text demo_transcript) (ac_adapter (d_clip ?w)) = Some r"
    "cr_error r = Some (ClipboardError ?m)"
    using demo_copy_fails by (auto simp: demo_platform_def demo_clipboard)
  have "sv_sent (d_server (daemon_pub demo_platform (TranscriptionCompleted 1 demo_transcript) ?w)) 7 =
      sv_sent (d_server ?w) 7 @ failed @ [CHR 0x0A] @ completed @ [CHR 0x0A]"
    by (rule clipboard_error_overtakes_transcript [OF demo_subscribed_inv _ _ _ r])
       (simp_all add: demo_facts demo_clipboard is_enabled_def is_subscribed_def f c demo_platform_def)
  with f c show ?thesis by (simp add: demo_facts)
qed

text \<open>
  C9: Every accepted recording is answered: from a state of the main loop in which the service is not being shut
  down, if the worker is given seven steps for each waiting job and six for the one it holds, the next \<^verbatim>\<open>poll_completed\<close>
  announces the jobs that were not yet announced, in the order in which they wait, then publishes the outcome of every
  job that was outstanding, in the order they were accepted and after those already finished, sends exactly these
  events to every subscribed client, and leaves nothing outstanding. This is for a kernel that takes what is written,
  events that can be encoded, and a clipboard that is off or whose copies all succeed.
\<close>
theorem queued_recordings_are_answered:
  assumes "daemon_inv P w" and "d_abnormal w = None" and "clipboard_works P w" and "sv_kernel (d_server w) = []"
    and "\<not> q_stopping (sm_queue (d_sm w))" and "7 * length (q_pending (sm_queue (d_sm w))) + 6 \<le> n"
    and w1_def: "w1 = background_steps P (replicate n WorkerStep) w"
    and "\<forall>e \<in> set (round_events P 0 w1). encode_event (pf_json P) e \<noteq> None"
  shows "outstanding (sm_queue (d_sm (poll_results P 0 w1))) = [] \<and>
    (\<exists>rs.
       map res_session_id rs =
         map res_session_id (q_completed (sm_queue (d_sm w))) @ map job_session_id (outstanding (sm_queue (d_sm w))) \<and>
       (\<forall>c. sv_sent (d_server (poll_results P 0 w1)) c = sv_sent (d_server w) c @
          (if c \<in> set (d_subscribed w)
           then concat (map (\<lambda>e. the (encode_event (pf_json P) e) @ [CHR 0x0A])
                  (map TranscriptionStarted (q_started (sm_queue (d_sm w)) @ map job_session_id (q_pending (sm_queue (d_sm w)))) @
                   map outcome_event rs))
           else [])))"
proof -
  have "sm_inv (d_sm w)" using assms(1) by (simp add: daemon_inv_def world_ok_def)
  from worker_round [OF this assms(5,6) w1_def] obtain rs where
    r: "outstanding (sm_queue (d_sm (poll_results P 0 w1))) = []"
      "round_events P 0 w1 = map TranscriptionStarted (q_started (sm_queue (d_sm w)) @ map job_session_id (q_pending (sm_queue (d_sm w)))) @
         map outcome_event rs"
      "map res_session_id rs =
         map res_session_id (q_completed (sm_queue (d_sm w))) @ map job_session_id (outstanding (sm_queue (d_sm w)))" by blast
  note seen = background_visible [OF background_steps_effect [of w P "replicate n WorkerStep"], folded w1_def]
  have "daemon_inv P w1" unfolding w1_def by (rule daemon_inv_background [OF assms(1)])
  from round_sends [OF this _ _ _ assms(8)] assms(2-4) have
    "sv_sent (d_server (poll_results P 0 w1)) c = sv_sent (d_server w) c @
      (if c \<in> set (d_subscribed w) then lines_for P (round_events P 0 w1) else [])" for c
    by (simp add: seen)
  with r show ?thesis
    by (intro conjI exI [of _ rs]) (simp_all add: lines_of_def comp_def)
qed

theorem queued_recordings_are_answered_witness:
  "\<exists>rs. map res_session_id rs = [1] \<and>
     sv_sent (d_server (poll_results working_platform 0 (background_steps working_platform (replicate 13 WorkerStep) demo_queued))) 7 =
       concat (map (\<lambda>e. the (encode_event toy_json e) @ [CHR 0x0A]) (TranscriptionStarted 1 # map outcome_event rs))"
proof -
  let ?w1 = "background_steps working_platform (replicate 13 WorkerStep) demo_queued"
  have pf: "pf_json working_platform = toy_json" by (simp add: working_platform_def demo_platform_def)
  have q: "\<not> q_stopping (sm_queue (d_sm demo_queued))" "7 * length (q_pending (sm_queue (d_sm demo_queued))) + 6 \<le> 13"
    "outstanding (sm_queue (d_sm demo_queued)) = [demo_job 1]" "q_completed (sm_queue (d_sm demo_queued)) = []"
    "7 \<in> set (d_subscribed demo_queued)" "sv_sent (d_server demo_queued) 7 = ''''"
    "q_started (sm_queue (d_sm demo_queued)) = []" "q_pending (sm_queue (d_sm demo_queued)) = [demo_job 1]"
    by (simp_all add: demo_queued_def new_queue_def outstanding_def demo_facts)
  have "\<forall>e \<in> set (round_events working_platform 0 ?w1). encode_event (pf_json working_platform) e \<noteq> None"
    unfolding pf by (rule demo_queued_events)
  from queued_recordings_are_answered [OF demo_queued_facts q(1,2) refl this]
  obtain rs where r: "map res_session_id rs = map res_session_id ([] :: job_result list) @ map job_session_id [demo_job 1]"
    "\<And>c. sv_sent (d_server (poll_results working_platform 0 ?w1)) c = sv_sent (d_server demo_queued) c @
      (if c \<in> set (d_subscribed demo_queued)
       then concat (map (\<lambda>e. the (encode_event toy_json e) @ [CHR 0x0A])
              (map TranscriptionStarted ([] @ map job_session_id [demo_job 1]) @ map outcome_event rs))
       else [])"
    unfolding pf q(3,4,7,8) by blast
  show ?thesis
    by (rule exI [of _ rs], unfold r(2) [of 7]) (use r(1) q(5,6) in \<open>simp add: demo_job_def\<close>)
qed

text \<open>
  C10: No wake-up is lost: after any number of rounds, with the other threads interleaved in any way, a
  result or a start notice that waits in the queue has a wake-up of the main loop pending, at the
  latest after two more steps of the worker, which is on its way to making it. So the loop never sleeps
  through a poll while there is something to publish.
\<close>
theorem no_wakeup_is_lost:
  assumes "start_up P bo = (True, w0)" and w_def: "w = run_loop P its w0"
  shows "(q_completed (sm_queue (d_sm w)) = [] \<and> q_started (sm_queue (d_sm w)) = []) \<or>
    sv_wake_pending (d_server (background_steps P [WorkerStep, WorkerStep] w))"
proof -
  have inv: "daemon_inv P w0" and listening: "sv_listening (d_server w0)"
    using daemon_inv_start_up [OF assms(1)] start_up_listening [OF assms(1)] by simp_all
  have "wired w \<and> wake_ok w" unfolding w_def using wake_ok_run [OF inv _ listening] wake_ok_start_up [OF assms(1)] by simp
  moreover have "sv_wake_open (d_server w)"
    using daemon_inv_run [OF inv, of its] run_loop_listening [OF inv, of its] listening
    by (simp add: w_def daemon_inv_def server_inv_def)
  ultimately show ?thesis using signal_arrives by blast
qed

theorem no_wakeup_is_lost_witness:
  "(q_completed (sm_queue (d_sm demo_w)) = [] \<and> q_started (sm_queue (d_sm demo_w)) = []) \<or>
   sv_wake_pending (d_server (background_steps demo_platform [WorkerStep, WorkerStep] demo_w))"
  by (rule no_wakeup_is_lost [OF demo_started(1) demo_w_def])

section \<open>The end of the process\<close>

lemma main_cases:
  assumes "main P bo its sp = (exit_code, w)"
  obtains (refused) w0 where "exit_code = Some 1" "start_up P bo = (False, w0)" "w = destroy P (sp_before_abort_again sp) w0"
  | (died) w0 where "exit_code = None" "start_up P bo = (True, w0)" "w = run_loop P its w0" "d_abnormal w \<noteq> None"
  | (died_late) w0 where "exit_code = None" "start_up P bo = (True, w0)" "w = shut_down P sp (run_loop P its w0)"
      "d_abnormal w \<noteq> None"
  | (stopped) w0 w1 where "exit_code = Some 0" "start_up P bo = (True, w0)" "w1 = shut_down P sp (run_loop P its w0)"
      "d_abnormal w1 = None" "w = destroy P (sp_before_abort_again sp) w1"
proof -
  obtain ok w0 where s: "start_up P bo = (ok, w0)" by fastforce
  define w1 where "w1 = run_loop P its w0"
  define w2 where "w2 = shut_down P sp w1"
  consider "\<not> ok" | "ok" "d_abnormal w1 \<noteq> None" | "ok" "d_abnormal w1 = None" "d_abnormal w2 \<noteq> None"
    | "ok" "d_abnormal w1 = None" "d_abnormal w2 = None" by blast
  then show thesis
  proof cases
    case 1
    with assms s show thesis by (intro refused [of w0]) (auto simp: main_def)
  next
    case 2
    with assms s show thesis by (intro died [of w0]) (auto simp: main_def w1_def [symmetric])
  next
    case 3
    with assms s show thesis by (intro died_late [of w0]) (auto simp: main_def w1_def [symmetric] w2_def [symmetric] Let_def)
  next
    case 4
    with assms s show thesis
      by (intro stopped [of w0 w2]) (auto simp: main_def w1_def [symmetric] w2_def [symmetric] Let_def)
  qed
qed

lemma stopped_rests:
  assumes "start_up P bo = (True, w0)" and w1_def: "w1 = shut_down P sp (run_loop P its w0)"
  shows "at_rest (d_sm w1) \<and> \<not> sv_listening (d_server w1) \<and> \<not> sv_wake_open (d_server w1) \<and> sv_read_buffers (d_server w1) = (\<lambda>_. None) \<and>
     sv_open (d_server w1) = {} \<and> \<not> sv_socket_file (d_server w1) \<and> abnormal_ok P w1"
proof -
  have inv: "daemon_inv P w0" by (rule daemon_inv_start_up [OF assms(1)])
  have "sv_listening (d_server (run_loop P its w0))"
    using start_up_listening [OF assms(1)] run_loop_listening [OF inv] by simp
  from shut_down_rests [OF daemon_inv_run [OF inv] this w1_def] show ?thesis .
qed

text \<open>
  C1: No dictation is lost by the daemon: when it was stopped normally, every recording that ever started has
  a published end, whatever happened in between: its transcript, an error that names the session (from
  anything but the clipboard, which only fails after the transcript exists), or its cancellation.
\<close>
theorem every_dictation_has_an_outcome:
  assumes "main P bo its sp = (Some 0, w)" and "RecordingStarted i \<in> set (d_trace w)"
  shows "(\<exists>t. TranscriptionCompleted i t \<in> set (d_trace w)) \<or>
    (\<exists>component m. component \<noteq> ''clipboard'' \<and> ErrorOccurred (Some i) component m \<in> set (d_trace w)) \<or>
    SessionCancelled i \<in> set (d_trace w)"
  using assms(1)
proof (cases rule: main_cases)
  case (stopped w0 w1)
  have trace: "d_trace w = d_trace w1" by (simp add: stopped(5) destroy_trace)
  from process_history [OF stopped(2) disjI2 [OF stopped(3)] stopped(4)] obtain cs where
    run: "sm_run (backend_of P) cs (booted_service P bo) = (d_sm w1, d_backend w1, session_trace w1)" by blast
  have "set (started_ids (session_trace w1)) \<subseteq> tracked (d_sm w1, d_backend w1, session_trace w1)"
    using run_tracked [of "backend_of P" cs "cm_configuration (d_cm (boot P bo))" default_capacity "d_backend (boot P bo)"]
    unfolding run by simp
  moreover have "i \<in> set (started_ids (session_trace w1))"
    using assms(2) by (simp add: session_trace_facts started_ids_iff trace)
  moreover have "active_session_id (d_sm w1) = None" "queue_ids (sm_queue (d_sm w1)) = {}"
    using stopped_rests [OF stopped(2,3)]
    by (simp_all add: at_rest_def active_session_id_def queue_ids_def completed_ids_def)
  ultimately obtain ev where "ev \<in> set (session_trace w1)" "i \<in> settles ev" by (auto simp: tracked_def settled_def)
  then show ?thesis unfolding trace settles_iff session_trace_def by auto
qed simp_all

theorem every_dictation_has_an_outcome_witness:
  "\<exists>w. main dictation_platform demo_boot [demo_iteration, start_iteration] demo_stop = (Some 0, w) \<and>
     RecordingStarted 1 \<in> set (d_trace w) \<and>
     ((\<exists>t. TranscriptionCompleted 1 t \<in> set (d_trace w)) \<or>
      (\<exists>component m. component \<noteq> ''clipboard'' \<and> ErrorOccurred (Some 1) component m \<in> set (d_trace w)) \<or>
      SessionCancelled 1 \<in> set (d_trace w))"
proof -
  obtain w where w: "main dictation_platform demo_boot [demo_iteration, start_iteration] demo_stop = (Some 0, w)"
    "RecordingStarted 1 \<in> set (d_trace w)" using dictation_main by blast
  from every_dictation_has_an_outcome [OF w] w show ?thesis by blast
qed

text \<open>
  C11: However \<^verbatim>\<open>main\<close> returns, nothing is left behind: no recording is active and no capture device is open,
  the worker has ended, no job waits and no result or start notice is unpublished, the model is
  unloaded, every client is disconnected and its descriptor closed, the listening socket and the descriptor that
  wakes the loop are closed, and after a normal run the socket file is gone.
\<close>
theorem clean_exit_releases_everything:
  assumes "main P bo its sp = (Some exit_code, w)"
  shows "sm_state (d_sm w) = Idle \<and> sm_active_session (d_sm w) = None \<and>
    dev_live (rm_device (sm_recording_manager (d_sm w))) = 0 \<and> q_worker (sm_queue (d_sm w)) = Exited \<and>
    q_pending (sm_queue (d_sm w)) = [] \<and> q_completed (sm_queue (d_sm w)) = [] \<and> q_started (sm_queue (d_sm w)) = [] \<and>
    wb_ctx (d_backend w) = None \<and>
    \<not> sv_listening (d_server w) \<and> \<not> sv_wake_open (d_server w) \<and> sv_read_buffers (d_server w) = (\<lambda>_. None) \<and> sv_open (d_server w) = {} \<and>
    (exit_code = 0 \<longrightarrow> \<not> sv_socket_file (d_server w) \<and> d_abnormal w = None)"
  using assms
proof (cases rule: main_cases)
  case (refused w0)
  have "server_inv (d_server w0)" using daemon_inv_start_up [OF refused(2)] by (simp add: daemon_inv_def)
  with refused_rests [OF refused(2)] destroy_rests [OF _ _ _ _ _ refused(3)] refused(1) show ?thesis
    by (simp add: at_rest_def server_inv_def)
next
  case (stopped w0 w1)
  note rests = stopped_rests [OF stopped(2,3)]
  then have "drained (sm_queue (d_sm w1))" by (simp add: at_rest_def drained_def)
  from destroy_rests [OF this _ _ _ _ stopped(5)] rests stopped(4) show ?thesis by (simp add: at_rest_def)
qed simp_all

theorem clean_exit_releases_everything_witness:
  "\<exists>w. main demo_platform demo_boot [demo_iteration] demo_stop = (Some 0, w) \<and>
     q_worker (sm_queue (d_sm w)) = Exited \<and> sv_open (d_server w) = {} \<and> \<not> sv_socket_file (d_server w)"
  by (intro exI conjI, rule demo_main) (use clean_exit_releases_everything [OF demo_main] in blast)+

text \<open>
  C14: What can end the process. As long as every clipboard copy returns (the clock advances and each write to the
  command's pipe returns), no empty optional is ever read, publishing from a handler never nests deeper than the
  model allows, and the process ends in one of these ways only: it is killed by a signal that arrived before the
  handlers were installed; it is terminated by the exception of \<^verbatim>\<open>dump()\<close> on text that cannot be encoded; it
  returns 0, after a SIGINT or SIGTERM; or it returns 1, when the server could not start. It runs forever only if no stop
  signal arrives.
\<close>
theorem only_bad_text_ends_the_daemon:
  assumes "\<forall>i. clock_runs (pf_copy P i) \<and> writes_return (pf_copy P i)"
  shows "case run_process P bo sg rounds sp of
      RunsForever \<Rightarrow> \<forall>k. \<not> stops (sg_round sg k)
    | KilledBySignal w \<Rightarrow> sg_booting sg \<noteq> [] \<or> sg_started sg \<noteq> []
    | Terminated w \<Rightarrow> d_abnormal w = Some DumpThrows
    | Returned code w \<Rightarrow> code = 0 \<and> (\<exists>k. stops (sg_round sg k)) \<or> code = 1 \<and> fst (start_up P bo) = False"
proof (cases "sg_booting sg = [] \<and> sg_started sg = []")
  case False
  then show ?thesis
    by (auto simp: run_process_def signals_before_handlers Let_def split: prod.split bool.split)
next
  case True
  have ends: "abnormal_ok P w \<Longrightarrow> d_abnormal w \<noteq> None \<Longrightarrow> d_abnormal w = Some DumpThrows" for w
    using assms by (auto simp: abnormal_ok_def copies_return_def)
  obtain ok w0 where s: "start_up P bo = (ok, w0)" by fastforce
  show ?thesis
  proof (cases ok)
    case False
    with True s show ?thesis by (simp add: run_process_def)
  next
    case started: True
    let ?loop = "main_loop P sg rounds 0 (handled 0) w0"
    show ?thesis
    proof (cases ?loop)
      case None
      then have "\<not> stops (sg_round sg k)" for k
        using main_loop_first_stop [of sg k P rounds w0] by auto
      with None True s started show ?thesis by (simp add: run_process_def)
    next
      case (Some r)
      obtain s2 w1 where r: "r = (s2, w1)" by (cases r)
      from main_loop_result [OF Some] obtain n where n: "s2 = fold deliver_signal (concat (map (sg_round sg) [0..<n])) (handled 0)"
        "w1 = run_loop P (map rounds [0..<n]) w0" "si_killed s2 \<or> d_abnormal w1 \<noteq> None \<or> g_should_stop s2 \<noteq> 0" by (auto simp: r)
      define told where "told \<longleftrightarrow> stops (concat (map (sg_round sg) [0..<n]))"
      have s2: "s2 = handled (if told then 1 else 0)" unfolding n(1) told_def by (rule deliver_all_handled)
      have "told \<Longrightarrow> \<exists>k. stops (sg_round sg k)" by (auto simp: told_def stops_def)
      moreover have "abnormal_ok P w1" "abnormal_ok P (shut_down P sp w1)"
        using run_loop_facts [of P bo w0 "map rounds [0..<n]"] stopped_rests [of P bo w0 _ sp "map rounds [0..<n]"] s started
        by (simp_all add: n(2))
      ultimately show ?thesis
        using True s started Some n(3) ends [of w1] ends [of "shut_down P sp w1"]
        by (auto simp: run_process_def r s2 Let_def split: if_splits)
    qed
  qed
qed

theorem only_bad_text_ends_the_daemon_witness:
  "\<exists>result. result = run_process demo_platform demo_boot
     \<lparr>sg_booting = [], sg_started = [], sg_round = (\<lambda>k. [SIGTERM])\<rparr> (\<lambda>_. demo_iteration) demo_stop \<and>
     result \<noteq> RunsForever \<and> (\<forall>w. result \<noteq> KilledBySignal w \<and> result \<noteq> Returned 1 w)"
proof -
  let ?sg = "\<lparr>sg_booting = [], sg_started = [], sg_round = (\<lambda>k. [SIGTERM])\<rparr>"
  have "\<forall>i. clock_runs (pf_copy demo_platform i) \<and> writes_return (pf_copy demo_platform i)"
    by (simp add: demo_platform_def failing_copy_env_def demo_copy_env_def clock_runs_def writes_return_def kPollInterval_def)
  from only_bad_text_ends_the_daemon [OF this, where bo = demo_boot and sg = ?sg and rounds = "\<lambda>_. demo_iteration" and sp = demo_stop]
  show ?thesis
    by (cases "run_process demo_platform demo_boot ?sg (\<lambda>_. demo_iteration) demo_stop")
       (auto simp: stops_def demo_started(1))
qed

end
